(* ===== verification/Prelude.thy ===== *)
theory Prelude
  imports Main "HOL-Library.Word"
begin

text \<open>
  Shared vocabulary of the SnapOS development: the widths of the C integer types, the error
  numbers and pointer-or-error convention of \<^verbatim>\<open>include/types.h\<close>, the page and address
  macros of \<^verbatim>\<open>include/paging.h\<close>, \<^verbatim>\<open>include/mm.h\<close> and
  \<^verbatim>\<open>arch/x86_64/include/asm/paging.h\<close>, and the outcome type that every kernel routine
  with a \<^verbatim>\<open>panic\<close>, an array access or an unbounded loop returns. The second half holds
  the arithmetic of these macros over \<open>nat\<close>, which the component proofs reason with.
\<close>

unbundle bit_operations_syntax

section \<open>Integer types\<close>

type_synonym u8 = "8 word"
type_synonym u16 = "16 word"
type_synonym u32 = "32 word"
type_synonym u64 = "64 word"

text \<open>
  \<open>page_simps\<close> collects the value of the page macros over \<open>nat\<close>; \<open>exec_simps\<close> the
  equations that run the outcome type.
\<close>

named_theorems page_simps
named_theorems exec_simps

section \<open>Outcomes\<close>

text \<open>
  What a C routine does besides returning: \<^verbatim>\<open>panic(s)\<close> prints \<open>s\<close> and halts the
  processor for ever (\<^verbatim>\<open>kernel/kernel.c\<close>); an access outside an array (or through a null
  pointer) is undefined behaviour, \<open>Oob\<close>; a loop that never ends is \<open>Diverge\<close>.
\<close>

datatype 'a exec = Ret 'a | Panic string | Oob | Diverge

primrec exec_bind :: "'a exec \<Rightarrow> ('a \<Rightarrow> 'b exec) \<Rightarrow> 'b exec" where
  "exec_bind (Ret x) f = f x"
| "exec_bind (Panic s) f = Panic s"
| "exec_bind Oob f = Oob"
| "exec_bind Diverge f = Diverge"

fun exec_ret :: "'a exec \<Rightarrow> 'a option" where
  "exec_ret (Ret x) = Some x"
| "exec_ret _ = None"

text \<open>A checked array read and write: what C leaves undefined is \<open>Oob\<close>.\<close>

definition array_get :: "'a list \<Rightarrow> nat \<Rightarrow> 'a exec" where
  "array_get xs i = (if i < length xs then Ret (xs ! i) else Oob)"

definition array_set :: "'a list \<Rightarrow> nat \<Rightarrow> 'a \<Rightarrow> 'a list exec" where
  "array_set xs i v = (if i < length xs then Ret (xs[i := v]) else Oob)"

text \<open>
  A C loop \<^verbatim>\<open>for (i = lo; i < hi; i++)\<close> without an early exit is \<open>fold\<close>
  over \<open>[lo..<hi]\<close>; \<open>exec_fold\<close> is the same loop with a body that can fail.
\<close>

fun exec_fold :: "('a \<Rightarrow> 's \<Rightarrow> 's exec) \<Rightarrow> 'a list \<Rightarrow> 's \<Rightarrow> 's exec" where
  "exec_fold f [] s = Ret s"
| "exec_fold f (x # xs) s = exec_bind (f x s) (exec_fold f xs)"

text \<open>A store maps the addresses of objects to their values; null and unknown addresses are invalid.\<close>

definition deref :: "(u64 \<Rightarrow> 'a option) \<Rightarrow> u64 \<Rightarrow> 'a exec" where
  "deref m p = (if p = 0 then Oob else case m p of None \<Rightarrow> Oob | Some x \<Rightarrow> Ret x)"

section \<open>Error numbers and error pointers (include/types.h)\<close>

abbreviation EPERM :: int where "EPERM \<equiv> 1"
abbreviation ENOENT :: int where "ENOENT \<equiv> 2"
abbreviation EIO :: int where "EIO \<equiv> 5"
abbreviation EBADF :: int where "EBADF \<equiv> 9"
abbreviation ENOMEM :: int where "ENOMEM \<equiv> 12"
abbreviation EFAULT :: int where "EFAULT \<equiv> 14"
abbreviation ENODEV :: int where "ENODEV \<equiv> 19"
abbreviation ENOTDIR :: int where "ENOTDIR \<equiv> 20"
abbreviation EINVAL :: int where "EINVAL \<equiv> 22"
abbreviation ENOSYS :: int where "ENOSYS \<equiv> 38"
abbreviation EUCLEAN :: int where "EUCLEAN \<equiv> 117"
abbreviation MAX_ERRNO :: int where "MAX_ERRNO \<equiv> 4095"

definition ERR_PTR :: "int \<Rightarrow> u64" where
  "ERR_PTR err = word_of_int err"

definition PTR_ERR :: "u64 \<Rightarrow> int" where
  "PTR_ERR p = sint p"

definition IS_ERR :: "u64 \<Rightarrow> bool" where
  "IS_ERR p \<longleftrightarrow> word_of_int (- MAX_ERRNO) \<le> p"

definition u32_min :: "u32 \<Rightarrow> u32 \<Rightarrow> u32" where
  "u32_min a b = (if a < b then a else b)"

definition size_min :: "u64 \<Rightarrow> u64 \<Rightarrow> u64" where
  "size_min a b = (if a < b then a else b)"

section \<open>Pages and addresses\<close>

abbreviation PAGE_SIZE :: u64 where "PAGE_SIZE \<equiv> 4096"
abbreviation MIN_USABLE_PADDR :: u64 where "MIN_USABLE_PADDR \<equiv> 0x100000"
abbreviation ID_VIRT_REGION_START :: u64 where "ID_VIRT_REGION_START \<equiv> 0xffff888000000000"

definition PAGE_ALIGN_DOWN :: "u64 \<Rightarrow> u64" where
  "PAGE_ALIGN_DOWN x = x AND NOT (PAGE_SIZE - 1)"

definition PAGE_ALIGN_UP :: "u64 \<Rightarrow> u64" where
  "PAGE_ALIGN_UP x = (x + PAGE_SIZE - 1) AND NOT (PAGE_SIZE - 1)"

text \<open>The value of the macro; C tests it against zero.\<close>

definition IS_PAGE_ALIGNED :: "u64 \<Rightarrow> u64" where
  "IS_PAGE_ALIGNED x = NOT (x AND (PAGE_SIZE - 1))"

definition PHYS_TO_VIRT :: "u64 \<Rightarrow> u64" where
  "PHYS_TO_VIRT x = x + ID_VIRT_REGION_START"

definition VIRT_TO_PHYS :: "u64 \<Rightarrow> u64" where
  "VIRT_TO_PHYS x = x - ID_VIRT_REGION_START"

section \<open>Shared lemmas\<close>

subsection \<open>Outcomes\<close>

lemma exec_bind_Ret_iff [exec_simps]:
  "exec_bind m f = Ret y \<longleftrightarrow> (\<exists>x. m = Ret x \<and> f x = Ret y)"
  by (cases m) auto

lemma exec_bind_Diverge_iff:
  "exec_bind m f = Diverge \<longleftrightarrow> m = Diverge \<or> (\<exists>x. m = Ret x \<and> f x = Diverge)"
  by (cases m) auto

lemma exec_bind_Ret_right [simp]: "exec_bind m Ret = m"
  by (cases m) auto

lemma exec_ret_Some_iff [exec_simps]: "exec_ret m = Some x \<longleftrightarrow> m = Ret x"
  by (cases m) auto

lemma array_get_Ret [exec_simps]: "array_get xs i = Ret x \<longleftrightarrow> i < length xs \<and> x = xs ! i"
  by (auto simp: array_get_def)

lemma array_set_Ret [exec_simps]:
  "array_set xs i v = Ret ys \<longleftrightarrow> i < length xs \<and> ys = xs[i := v]"
  by (auto simp: array_set_def)

lemma array_get_in [simp]: "i < length xs \<Longrightarrow> array_get xs i = Ret (xs ! i)"
  by (simp add: array_get_def)

lemma array_set_in [simp]: "i < length xs \<Longrightarrow> array_set xs i v = Ret (xs[i := v])"
  by (simp add: array_set_def)

subsection \<open>Lists\<close>

lemma find_append:
  "find P (xs @ ys) = (case find P xs of None \<Rightarrow> find P ys | Some x \<Rightarrow> Some x)"
  by (induction xs) auto

subsection \<open>Loops\<close>

text \<open>Loop rules: an invariant indexed by the loop counter.\<close>

lemma fold_upt_rule:
  assumes "lo \<le> hi" and "P lo s"
    and "\<And>i s. lo \<le> i \<Longrightarrow> i < hi \<Longrightarrow> P i s \<Longrightarrow> P (Suc i) (f i s)"
  shows "P hi (fold f [lo..<hi] s)"
  using assms
proof (induction hi)
  case 0
  then show ?case by simp
next
  case (Suc hi)
  then show ?case by (cases "lo = Suc hi") auto
qed

lemma exec_fold_append: "exec_fold f (xs @ ys) s = exec_bind (exec_fold f xs s) (exec_fold f ys)"
proof (induction xs arbitrary: s)
  case (Cons x xs)
  then show ?case by (cases "f x s") auto
qed simp

lemma exec_fold_upt_rule:
  assumes "lo \<le> hi" and "P lo s"
    and "\<And>i s. lo \<le> i \<Longrightarrow> i < hi \<Longrightarrow> P i s \<Longrightarrow> \<exists>s'. f i s = Ret s' \<and> P (Suc i) s'"
  shows "\<exists>s'. exec_fold f [lo..<hi] s = Ret s' \<and> P hi s'"
  using assms
proof (induction hi)
  case 0
  then show ?case by simp
next
  case (Suc hi)
  show ?case
  proof (cases "lo = Suc hi")
    case True
    with Suc.prems show ?thesis by simp
  next
    case False
    with Suc obtain s' where "exec_fold f [lo..<hi] s = Ret s'" "P hi s'" by force
    moreover from this obtain t where "f hi s' = Ret t" "P (Suc hi) t"
      using Suc.prems(3)[of hi s'] False Suc.prems(1) by auto
    ultimately show ?thesis using False Suc.prems(1) by (auto simp: exec_fold_append)
  qed
qed

lemma exec_fold_upt_partial:
  assumes "exec_fold f [lo..<hi] s = Ret s'" and "lo \<le> hi" and "P lo s"
    and "\<And>i s s'. lo \<le> i \<Longrightarrow> i < hi \<Longrightarrow> P i s \<Longrightarrow> f i s = Ret s' \<Longrightarrow> P (Suc i) s'"
  shows "P hi s'"
  using assms
proof (induction hi arbitrary: s')
  case 0
  then show ?case by simp
next
  case (Suc hi)
  show ?case
  proof (cases "lo = Suc hi")
    case True
    with Suc.prems show ?thesis by simp
  next
    case False
    with Suc.prems obtain t where "exec_fold f [lo..<hi] s = Ret t" "f hi t = Ret s'"
      by (auto simp: exec_fold_append exec_bind_Ret_iff)
    with Suc False show ?thesis by force
  qed
qed

subsection \<open>Page arithmetic\<close>

text \<open>A loop none of whose accesses leaves an array of length \<open>n\<close> is a plain fold.\<close>

lemma exec_fold_array:
  assumes "\<And>i xs. i \<in> set is \<Longrightarrow> length xs = n \<Longrightarrow> f i xs = Ret (g i xs)"
    and "\<And>i xs. length (g i xs) = length xs" and "length xs = n"
  shows "exec_fold f is xs = Ret (fold g is xs)"
  using assms by (induction "is" arbitrary: xs) auto

lemma u64_less: "unat x < 2 ^ 64" for x :: u64
  using unsigned_less[of x, where ?'a = nat] by simp

lemma and_not_mask_eq: "x AND NOT (mask n) = push_bit n (drop_bit n x)" for x :: u64
  by (rule bit_word_eqI) (auto simp: bit_simps)

lemma page_mask: "PAGE_SIZE - 1 = mask 12"
  by (simp add: mask_eq_exp_minus_1)

lemma PAGE_ALIGN_DOWN_eq: "PAGE_ALIGN_DOWN x = push_bit 12 (drop_bit 12 x)"
  unfolding PAGE_ALIGN_DOWN_def page_mask by (rule and_not_mask_eq)

lemma PAGE_ALIGN_UP_eq: "PAGE_ALIGN_UP x = PAGE_ALIGN_DOWN (x + (PAGE_SIZE - 1))"
  by (simp add: PAGE_ALIGN_UP_def PAGE_ALIGN_DOWN_def algebra_simps)

lemma unat_PAGE_ALIGN_DOWN [page_simps]:
  "unat (PAGE_ALIGN_DOWN x) = unat x div 4096 * 4096"
proof -
  have "unat (push_bit 12 (drop_bit 12 x)) = (unat x div 4096 * 4096) mod 2 ^ 64"
    by (simp add: push_bit_eq_mult unat_mult_lem unat_word_ariths unat_drop_bit_eq drop_bit_eq_div mod_mult_left_eq)
  moreover have "unat x div 4096 * 4096 < 2 ^ 64"
    using u64_less[of x] div_times_less_eq_dividend[of "unat x" 4096] by linarith
  ultimately show ?thesis by (simp add: PAGE_ALIGN_DOWN_eq)
qed

lemma unat_PAGE_ALIGN_UP [page_simps]:
  assumes "unat x + 4095 < 2 ^ 64"
  shows "unat (PAGE_ALIGN_UP x) = (unat x + 4095) div 4096 * 4096"
proof -
  have "unat (x + (PAGE_SIZE - 1)) = unat x + 4095"
    using assms by (simp add: unat_word_ariths)
  then show ?thesis by (simp add: PAGE_ALIGN_UP_eq unat_PAGE_ALIGN_DOWN)
qed

lemma unat_PAGE_ALIGN_UP_small:
  assumes "unat x + 4095 < 2 ^ 64"
  shows "unat x \<le> unat (PAGE_ALIGN_UP x) \<and> unat (PAGE_ALIGN_UP x) < unat x + 4096
    \<and> 4096 dvd unat (PAGE_ALIGN_UP x)"
  unfolding unat_PAGE_ALIGN_UP[OF assms] by auto

lemma PHYS_VIRT_inverse [simp]:
  "VIRT_TO_PHYS (PHYS_TO_VIRT x) = x" "PHYS_TO_VIRT (VIRT_TO_PHYS x) = x"
  by (simp_all add: VIRT_TO_PHYS_def PHYS_TO_VIRT_def)

subsection \<open>Words\<close>

lemma unat_add_small: "unat a + unat b < 2 ^ 64 \<Longrightarrow> unat (a + b) = unat a + unat b"
  for a b :: u64
  by (simp add: unat_word_ariths)

lemma unat_mult_small: "unat a * unat b < 2 ^ 64 \<Longrightarrow> unat (a * b) = unat a * unat b"
  for a b :: u64
  by (simp add: unat_word_ariths)

lemma unat_of_nat_small: "n < 2 ^ 64 \<Longrightarrow> unat (of_nat n :: u64) = n"
  by (simp add: unat_of_nat)

lemma unat_Suc_less: "i < j \<Longrightarrow> unat (i + 1) = Suc (unat i)" for i j :: u64
  using u64_less[of j] by (subst unat_add_small) (auto simp: word_less_nat_alt)

lemma unat_PAGE_SIZE [simp]: "unat (PAGE_SIZE :: u64) = 4096"
  by simp

lemma unat_page_mult [page_simps]: "k < 2 ^ 52 \<Longrightarrow> unat (PAGE_SIZE * of_nat k :: u64) = 4096 * k"
  by (subst unat_mult_small) (auto simp: unat_of_nat_small)

lemma unat_plus_le: "unat (a + b) \<le> unat a + unat b" for a b :: u64
  by (simp add: unat_word_ariths)

lemma unat_add_frame:
  assumes "4096 dvd unat (f :: u64)" "k < 4096"
  shows "unat (f + of_nat k) = unat f + k"
proof -
  from assms(1) obtain m where m: "unat f = 4096 * m" by auto
  with u64_less[of f] have "m < 2 ^ 52" by simp
  with m assms(2) show ?thesis by (subst unat_add_small) (auto simp: unat_of_nat_small)
qed

lemma unat_pow2: "k < 64 \<Longrightarrow> unat (2 ^ k :: u64) = 2 ^ k"
  using unat_of_nat_small[of "2 ^ k"] power_strict_increasing[of k 64 "2 :: nat"] by simp

lemma unat_take_bit: "unat (take_bit k x) = unat x mod 2 ^ k" for x :: u64
  unfolding unsigned_take_bit_eq by (rule take_bit_eq_mod)

lemma unat_plus_mod: "unat (a + b) = (unat a + unat b) mod 2 ^ 64" for a b :: u64
  by (simp add: unat_word_ariths)

subsection \<open>Conversions between widths\<close>

lemma unat_ucast_u64 [simp]: "unat (ucast x :: u64) = unat x" for x :: u32
proof -
  have "unat x < 2 ^ LENGTH(32)" by (rule unsigned_less)
  then show ?thesis by (simp add: unsigned_ucast_eq take_bit_nat_eq_self)
qed

lemma unat_ucast_u32: "unat x < 2 ^ 32 \<Longrightarrow> unat (ucast x :: u32) = unat x" for x :: u64
  by (simp add: unsigned_ucast_eq take_bit_nat_eq_self)

end
