(* ===== verification/Memory.thy ===== *)
theory Memory
  imports Prelude
begin

text \<open>
  Byte-addressed memory as the kernel sees it: a total function from 64-bit addresses to bytes,
  with the little-endian accesses that the page tables, the allocator's free lists and the
  on-disk structures are made of.
\<close>

unbundle bit_operations_syntax

type_synonym mem = "u64 \<Rightarrow> u8"

text \<open>The \<open>n\<close> bytes from \<open>a\<close> on, wrap-around included.\<close>

definition in_block :: "u64 \<Rightarrow> u64 \<Rightarrow> u64 \<Rightarrow> bool" where
  "in_block a n x \<longleftrightarrow> x - a < n"

definition disjoint_blocks :: "u64 \<Rightarrow> u64 \<Rightarrow> u64 \<Rightarrow> u64 \<Rightarrow> bool" where
  "disjoint_blocks a n b k \<longleftrightarrow> (\<forall>x. \<not> (in_block a n x \<and> in_block b k x))"

definition wr8 :: "mem \<Rightarrow> u64 \<Rightarrow> u8 \<Rightarrow> mem" where
  "wr8 m a v = m(a := v)"

lemma wr8_same [simp]: "wr8 m a v a = v"
  and wr8_other [simp]: "x \<noteq> a \<Longrightarrow> wr8 m a v x = m x"
  by (simp_all add: wr8_def)

primrec rd_le :: "nat \<Rightarrow> mem \<Rightarrow> u64 \<Rightarrow> 'a::len word" where
  "rd_le 0 m a = 0"
| "rd_le (Suc k) m a = ucast (m a) OR push_bit 8 (rd_le k m (a + 1))"

definition wr_le :: "nat \<Rightarrow> mem \<Rightarrow> u64 \<Rightarrow> 'a::len word \<Rightarrow> mem" where
  "wr_le k m a v = (\<lambda>x. if in_block a (of_nat k) x then ucast (drop_bit (8 * unat (x - a)) v) else m x)"

abbreviation rd16 :: "mem \<Rightarrow> u64 \<Rightarrow> u16" where "rd16 \<equiv> rd_le 2"
abbreviation rd32 :: "mem \<Rightarrow> u64 \<Rightarrow> u32" where "rd32 \<equiv> rd_le 4"
abbreviation rd64 :: "mem \<Rightarrow> u64 \<Rightarrow> u64" where "rd64 \<equiv> rd_le 8"
abbreviation wr16 :: "mem \<Rightarrow> u64 \<Rightarrow> u16 \<Rightarrow> mem" where "wr16 \<equiv> wr_le 2"
abbreviation wr32 :: "mem \<Rightarrow> u64 \<Rightarrow> u32 \<Rightarrow> mem" where "wr32 \<equiv> wr_le 4"
abbreviation wr64 :: "mem \<Rightarrow> u64 \<Rightarrow> u64 \<Rightarrow> mem" where "wr64 \<equiv> wr_le 8"

section \<open>Blocks\<close>

lemma in_block_offset: "i < unat n \<Longrightarrow> in_block a n (a + of_nat i)"
  using u64_less[of n] by (simp add: in_block_def word_less_nat_alt unat_of_nat_small)

lemma in_blockE:
  assumes "in_block a n x"
  obtains i where "i < unat n" "x = a + of_nat i"
proof
  show "unat (x - a) < unat n" using assms by (simp add: in_block_def word_less_nat_alt)
  show "x = a + of_nat (unat (x - a))" by simp
qed

lemma in_block_unat:
  assumes "unat a + unat n \<le> 2 ^ 64"
  shows "in_block a n x \<longleftrightarrow> unat a \<le> unat x \<and> unat x < unat a + unat n"
proof
  assume "in_block a n x"
  then obtain i where i: "i < unat n" "x = a + of_nat i" by (rule in_blockE)
  have "unat x = unat a + i"
    using assms i by (subst i(2), subst unat_add_small) (auto simp: unat_of_nat_small)
  with i show "unat a \<le> unat x \<and> unat x < unat a + unat n" by simp
next
  assume x: "unat a \<le> unat x \<and> unat x < unat a + unat n"
  then have "unat (x - a) = unat x - unat a" by (simp add: unat_sub word_le_nat_alt)
  with x show "in_block a n x" unfolding in_block_def word_less_nat_alt by linarith
qed

lemma disjoint_blocks_unat:
  assumes "unat a + unat n \<le> unat b \<or> unat b + unat k \<le> unat a"
    and "unat a + unat n \<le> 2 ^ 64" "unat b + unat k \<le> 2 ^ 64"
  shows "disjoint_blocks a n b k"
  using assms(1) unfolding disjoint_blocks_def in_block_unat[OF assms(2)] in_block_unat[OF assms(3)]
  by auto

lemma disjoint_blocks_sym: "disjoint_blocks a n b k \<longleftrightarrow> disjoint_blocks b k a n"
  by (auto simp: disjoint_blocks_def)

section \<open>Reading back\<close>

lemma rd_le_bit:
  "bit (rd_le k m a :: 'a::len word) n \<longleftrightarrow>
     n < 8 * k \<and> n < LENGTH('a) \<and> bit (m (a + of_nat (n div 8))) (n mod 8)"
proof (induction k arbitrary: a n)
  case (Suc k)
  show ?case
  proof (cases "n < 8")
    case True
    then show ?thesis by (auto simp: bit_simps)
  next
    case False
    then obtain j where j: "n = j + 8" by (metis add.commute le_Suc_ex not_le)
    have "bit (m a) n = False" using False by (auto dest: bit_imp_le_length)
    moreover have "(j + 8) div 8 = Suc (j div 8)" by simp
    ultimately show ?thesis using j by (auto simp: bit_simps Suc.IH add.assoc)
  qed
qed simp

lemma rd_le_cong:
  "(\<And>i. i < k \<Longrightarrow> m (a + of_nat i) = m' (a + of_nat i)) \<Longrightarrow> rd_le k m a = rd_le k m' a"
proof (induction k arbitrary: a)
  case (Suc k)
  have "m (a + 1 + of_nat i) = m' (a + 1 + of_nat i)" if "i < k" for i
    using Suc.prems[of "Suc i"] that by (simp add: add.assoc)
  with Suc.IH[of "a + 1"] Suc.prems[of 0] show ?case by simp
qed simp

lemma rd_wr_same:
  assumes "LENGTH('a) = 8 * k" "k < 2 ^ 32"
  shows "rd_le k (wr_le k m a v) a = (v :: 'a::len word)"
proof (rule bit_word_eqI)
  fix n assume n: "n < LENGTH('a)"
  then have "n div 8 < k" using assms by auto
  moreover from this assms(2) have "in_block a (of_nat k) (a + of_nat (n div 8))"
    by (intro in_block_offset) (simp add: unat_of_nat_small)
  moreover have "8 * (n div 8) + n mod 8 = n" by simp
  ultimately show "bit (rd_le k (wr_le k m a v) a :: 'a word) n = bit v n"
    using n assms by (simp add: rd_le_bit wr_le_def bit_simps unat_of_nat_small)
qed

lemma rd_wr_disjoint:
  assumes "disjoint_blocks a (of_nat k) b (of_nat j)" "k < 2 ^ 32" "j < 2 ^ 32"
  shows "rd_le j (wr_le k m a v) b = rd_le j m b"
proof (rule rd_le_cong)
  fix i assume "i < j"
  then have "in_block b (of_nat j) (b + of_nat i)"
    using assms(3) by (intro in_block_offset) (simp add: unat_of_nat_small)
  with assms(1) have "\<not> in_block a (of_nat k) (b + of_nat i)" by (auto simp: disjoint_blocks_def)
  then show "wr_le k m a v (b + of_nat i) = m (b + of_nat i)" by (simp add: wr_le_def)
qed

lemma rd64_wr64_same [simp]: "rd64 (wr64 m a v) a = v"
  and rd32_wr32_same [simp]: "rd32 (wr32 m a w) a = w"
  and rd16_wr16_same [simp]: "rd16 (wr16 m a x) a = x"
  by (rule rd_wr_same; simp)+

lemma wr_le_outside: "\<not> in_block a (of_nat k) x \<Longrightarrow> wr_le k m a v x = m x"
  by (simp add: wr_le_def)

end
