(* ===== verification/Klibc.thy ===== *)
theory Klibc
  imports Memory "HOL-Library.List_Lexorder"
begin

text \<open>
  The kernel's string functions, \<^verbatim>\<open>klibc/string.c\<close>, over byte memory. Every function that
  writes returns its first pointer together with the new memory. The loops that run until a
  terminator are partial: they diverge when the memory holds none, which is the value \<open>None\<close>.
\<close>

section \<open>Operations\<close>

definition memset :: "mem \<Rightarrow> u64 \<Rightarrow> u32 \<Rightarrow> u64 \<Rightarrow> u64 \<times> mem" where
  "memset m s c n = (s, fold (\<lambda>i m. wr8 m (s + of_nat i) (ucast c)) [0..<unat n] m)"

definition memcpy :: "mem \<Rightarrow> u64 \<Rightarrow> u64 \<Rightarrow> u64 \<Rightarrow> u64 \<times> mem" where
  "memcpy m dest src nr =
     (dest, fold (\<lambda>i m. wr8 m (dest + of_nat i) (m (src + of_nat i))) [0..<unat nr] m)"

fun memcmp_loop :: "mem \<Rightarrow> u64 \<Rightarrow> u64 \<Rightarrow> nat \<Rightarrow> int" where
  "memcmp_loop m s1 s2 0 = 0"
| "memcmp_loop m s1 s2 (Suc n) =
     (if m s1 \<noteq> m s2 then uint (m s1) - uint (m s2) else memcmp_loop m (s1 + 1) (s2 + 1) n)"

definition memcmp :: "mem \<Rightarrow> u64 \<Rightarrow> u64 \<Rightarrow> u64 \<Rightarrow> int" where
  "memcmp m s1 s2 n = memcmp_loop m s1 s2 (unat n)"

text \<open>The address of the terminator: the loop of \<^verbatim>\<open>strlen\<close>, and the first one of
  \<^verbatim>\<open>strncat\<close>.\<close>

partial_function (option) str_end :: "mem \<Rightarrow> u64 \<Rightarrow> u64 option" where
  [code]: "str_end m p = (if m p \<noteq> 0 then str_end m (p + 1) else Some p)"

definition strlen :: "mem \<Rightarrow> u64 \<Rightarrow> u64 option" where
  "strlen m s = map_option (\<lambda>p. p - s) (str_end m s)"

partial_function (option) strcpy_loop :: "mem \<Rightarrow> u64 \<Rightarrow> u64 \<Rightarrow> mem option" where
  [code]: "strcpy_loop m dest src =
     (let m' = wr8 m dest (m src) in
      if m' dest \<noteq> 0 then strcpy_loop m' (dest + 1) (src + 1) else Some m')"

definition strcpy :: "mem \<Rightarrow> u64 \<Rightarrow> u64 \<Rightarrow> (u64 \<times> mem) option" where
  "strcpy m dest src = map_option (\<lambda>m'. (dest, m')) (strcpy_loop m dest src)"

text \<open>The copying loop of \<^verbatim>\<open>strncpy\<close> and its zero-filling loop.\<close>

fun strncpy_copy :: "mem \<Rightarrow> u64 \<Rightarrow> u64 \<Rightarrow> nat \<Rightarrow> mem \<times> u64 \<times> nat" where
  "strncpy_copy m dest src 0 = (m, dest, 0)"
| "strncpy_copy m dest src (Suc n) =
     (if m src \<noteq> 0 then strncpy_copy (wr8 m dest (m src)) (dest + 1) (src + 1) n
      else (m, dest, Suc n))"

fun strncpy_fill :: "mem \<Rightarrow> u64 \<Rightarrow> nat \<Rightarrow> mem" where
  "strncpy_fill m dest 0 = m"
| "strncpy_fill m dest (Suc n) = strncpy_fill (wr8 m dest 0) (dest + 1) n"

definition strncpy :: "mem \<Rightarrow> u64 \<Rightarrow> u64 \<Rightarrow> u64 \<Rightarrow> u64 \<times> mem" where
  "strncpy m dest src n =
     (let (m1, d1, n1) = strncpy_copy m dest src (unat n) in (dest, strncpy_fill m1 d1 n1))"

partial_function (option) strcmp :: "mem \<Rightarrow> u64 \<Rightarrow> u64 \<Rightarrow> int option" where
  [code]: "strcmp m s1 s2 =
     (if m s1 \<noteq> 0 \<and> m s1 = m s2 then strcmp m (s1 + 1) (s2 + 1)
      else Some (uint (m s1) - uint (m s2)))"

fun strncmp_loop :: "mem \<Rightarrow> u64 \<Rightarrow> u64 \<Rightarrow> nat \<Rightarrow> int" where
  "strncmp_loop m s1 s2 0 = 0"
| "strncmp_loop m s1 s2 (Suc n) =
     (if m s1 \<noteq> m s2 then uint (m s1) - uint (m s2)
      else if m s1 = 0 then 0
      else strncmp_loop m (s1 + 1) (s2 + 1) n)"

definition strncmp :: "mem \<Rightarrow> u64 \<Rightarrow> u64 \<Rightarrow> u64 \<Rightarrow> int" where
  "strncmp m s1 s2 n = strncmp_loop m s1 s2 (unat n)"

fun strncat_copy :: "mem \<Rightarrow> u64 \<Rightarrow> u64 \<Rightarrow> nat \<Rightarrow> mem \<times> u64" where
  "strncat_copy m dest src 0 = (m, dest)"
| "strncat_copy m dest src (Suc n) =
     (if m src \<noteq> 0 then strncat_copy (wr8 m dest (m src)) (dest + 1) (src + 1) n else (m, dest))"

definition strncat :: "mem \<Rightarrow> u64 \<Rightarrow> u64 \<Rightarrow> u64 \<Rightarrow> (u64 \<times> mem) option" where
  "strncat m dest src n =
     map_option (\<lambda>d. let (m1, d1) = strncat_copy m d src (unat n) in (dest, wr8 m1 d1 0))
       (str_end m dest)"

section \<open>Specification\<close>

text \<open>Byte strings in memory: what a block holds, writing one, and a terminated string.\<close>

definition load_bytes :: "nat \<Rightarrow> mem \<Rightarrow> u64 \<Rightarrow> u8 list" where
  "load_bytes n m a = map (\<lambda>i. m (a + of_nat i)) [0..<n]"

primrec store_bytes :: "mem \<Rightarrow> u64 \<Rightarrow> u8 list \<Rightarrow> mem" where
  "store_bytes m a [] = m"
| "store_bytes m a (x # xs) = store_bytes (wr8 m a x) (a + 1) xs"

primrec cstring :: "mem \<Rightarrow> u64 \<Rightarrow> u8 list \<Rightarrow> bool" where
  "cstring m s [] \<longleftrightarrow> m s = 0"
| "cstring m s (x # xs) \<longleftrightarrow> x \<noteq> 0 \<and> m s = x \<and> cstring m (s + 1) xs"

definition blk :: "u64 \<Rightarrow> nat \<Rightarrow> u64 set" where
  "blk a n = (\<lambda>i. a + of_nat i) ` {..<n}"

lemma blk_0 [simp]: "blk a 0 = {}"
  by (simp add: blk_def)

lemma blk_Suc [simp]: "blk a (Suc n) = insert a (blk (a + 1) n)"
  by (simp add: blk_def lessThan_Suc_eq_insert_0 image_image add.assoc)

lemma blk_iff: "x \<in> blk a n \<longleftrightarrow> (\<exists>i < n. x = a + of_nat i)"
  by (auto simp: blk_def)

lemma blk_subset: "j + k \<le> n \<Longrightarrow> blk (a + of_nat j) k \<subseteq> blk a n"
proof
  fix x assume le: "j + k \<le> n" and "x \<in> blk (a + of_nat j) k"
  then obtain i where "i < k" "x = a + of_nat (j + i)" by (auto simp: blk_iff add.assoc)
  with le show "x \<in> blk a n" unfolding blk_iff by (intro exI[of _ "j + i"]) simp
qed

lemma blk_in_block: "n \<le> 2 ^ 64 - 1 \<Longrightarrow> x \<in> blk a n \<longleftrightarrow> in_block a (of_nat n) x"
  by (auto simp: blk_iff unat_of_nat_small intro!: in_block_offset elim!: in_blockE)

lemma load_bytes_Suc: "load_bytes (Suc n) m a = m a # load_bytes n m (a + 1)"
  by (auto simp: load_bytes_def upt_conv_Cons map_Suc_upt[symmetric] add.assoc simp del: upt_Suc)

lemma length_load_bytes [simp]: "length (load_bytes n m a) = n"
  by (simp add: load_bytes_def)

lemma load_bytes_0 [simp]: "load_bytes 0 m a = []"
  by (simp add: load_bytes_def)

lemma load_bytes_cong: "(\<And>x. x \<in> blk a n \<Longrightarrow> m x = m' x) \<Longrightarrow> load_bytes n m a = load_bytes n m' a"
  by (auto simp: load_bytes_def blk_def)

lemma store_bytes_outside: "x \<notin> blk a (length xs) \<Longrightarrow> store_bytes m a xs x = m x"
  by (induction xs arbitrary: m a) auto

lemma store_bytes_append:
  "store_bytes m a (xs @ ys) = store_bytes (store_bytes m a xs) (a + of_nat (length xs)) ys"
  by (induction xs arbitrary: m a) (auto simp: add.assoc)

lemma blk_not_self: "n < 2 ^ 64 \<Longrightarrow> a \<notin> blk (a + 1) n"
proof
  assume n: "n < 2 ^ 64" and "a \<in> blk (a + 1) n"
  then obtain i where "i < n" "a = a + 1 + of_nat i" by (auto simp: blk_iff)
  then have "of_nat (Suc i) = (0 :: u64)" by (simp add: add.assoc)
  with \<open>i < n\<close> n unat_of_nat_small[of "Suc i"] show False
    by (cases "Suc i < 2 ^ 64") (metis nat.distinct(1) unat_0, simp)
qed

lemma load_store_bytes: "length xs \<le> 2 ^ 64 \<Longrightarrow> load_bytes (length xs) (store_bytes m a xs) a = xs"
proof (induction xs arbitrary: m a)
  case (Cons x xs)
  have "store_bytes (wr8 m a x) (a + 1) xs a = x"
    using Cons.prems blk_not_self[of "length xs" a] by (subst store_bytes_outside) auto
  with Cons show ?case by (simp add: load_bytes_Suc)
qed simp

lemma store_bytes_inside:
  assumes "i < length xs" "length xs \<le> 2 ^ 64"
  shows "store_bytes m a xs (a + of_nat i) = xs ! i"
proof -
  have "load_bytes (length xs) (store_bytes m a xs) a ! i = xs ! i"
    using assms(2) by (simp add: load_store_bytes)
  with assms(1) show ?thesis by (simp add: load_bytes_def)
qed

section \<open>What each function writes and returns\<close>

lemma store_bytes_snoc: "store_bytes m a (xs @ [y]) = wr8 (store_bytes m a xs) (a + of_nat (length xs)) y"
  by (simp add: store_bytes_append)

lemma memset_store: "memset m s c n = (s, store_bytes m s (replicate (unat n) (ucast c)))"
proof -
  have "fold (\<lambda>i m. wr8 m (s + of_nat i) v) [0..<k] m = store_bytes m s (replicate k v)" for k v
    by (induction k) (auto simp: store_bytes_snoc replicate_append_same[symmetric])
  then show ?thesis by (simp add: memset_def)
qed

lemma memcpy_store:
  assumes "blk dest (unat nr) \<inter> blk src (unat nr) = {}"
  shows "memcpy m dest src nr = (dest, store_bytes m dest (load_bytes (unat nr) m src))"
proof -
  have "k \<le> unat nr \<Longrightarrow> fold (\<lambda>i m. wr8 m (dest + of_nat i) (m (src + of_nat i))) [0..<k] m
      = store_bytes m dest (load_bytes k m src)" for k
  proof (induction k)
    case (Suc k)
    have "src + of_nat k \<in> blk src (unat nr)" "blk dest k \<subseteq> blk dest (unat nr)"
      using Suc.prems by (auto simp: blk_def)
    with assms have "src + of_nat k \<notin> blk dest k" by blast
    moreover have "load_bytes (Suc k) m src = load_bytes k m src @ [m (src + of_nat k)]"
      by (simp add: load_bytes_def)
    ultimately show ?case using Suc by (simp add: store_bytes_snoc store_bytes_outside)
  qed simp
  then show ?thesis by (simp add: memcpy_def)
qed

lemma memcmp_loop_eq: "memcmp_loop m s1 s2 n = 0 \<longleftrightarrow> load_bytes n m s1 = load_bytes n m s2"
  by (induction m s1 s2 n rule: memcmp_loop.induct) (auto simp: load_bytes_Suc word_uint_eq_iff)

lemma cstring_cong:
  "(\<And>x. x \<in> blk s (Suc (length xs)) \<Longrightarrow> m x = m' x) \<Longrightarrow> cstring m s xs \<longleftrightarrow> cstring m' s xs"
proof (induction xs arbitrary: s)
  case (Cons y xs)
  have "cstring m (s + 1) xs \<longleftrightarrow> cstring m' (s + 1) xs"
    by (rule Cons.IH, rule Cons.prems) simp
  moreover have "m s = m' s" by (rule Cons.prems) simp
  ultimately show ?case by simp
qed simp

lemma cstring_upd:
  "d \<notin> blk s (Suc (length xs)) \<Longrightarrow> cstring (wr8 m d y) s xs \<longleftrightarrow> cstring m s xs"
  by (rule cstring_cong) (metis wr8_other)

lemma str_end_cstring: "cstring m s xs \<Longrightarrow> str_end m s = Some (s + of_nat (length xs))"
  by (induction xs arbitrary: s) (subst str_end.simps, auto simp: add.assoc)+

lemma cstring_store:
  "0 \<notin> set xs \<Longrightarrow> length xs < 2 ^ 64 \<Longrightarrow> cstring (store_bytes m a (xs @ [0])) a xs"
proof (induction xs arbitrary: m a)
  case (Cons x xs)
  have "store_bytes (wr8 m a x) (a + 1) (xs @ [0]) a = x"
    using Cons.prems blk_not_self[of "length xs + 1" a] 
    by (subst store_bytes_outside) (auto simp: blk_iff)
  with Cons show ?case by auto
qed simp

lemma cstring_nonzero: "cstring m s xs \<Longrightarrow> 0 \<notin> set xs"
  by (induction xs arbitrary: s) auto

lemma strcpy_store:
  "cstring m src xs \<Longrightarrow> blk dest (Suc (length xs)) \<inter> blk src (Suc (length xs)) = {} \<Longrightarrow>
     strcpy_loop m dest src = Some (store_bytes m dest (xs @ [0]))"
proof (induction xs arbitrary: m dest src)
  case Nil
  then show ?case by (subst strcpy_loop.simps) simp
next
  case (Cons x xs)
  then have "cstring (wr8 m dest x) (src + 1) xs" by (subst cstring_upd) auto
  with Cons.IH[of "wr8 m dest x" "src + 1" "dest + 1"] Cons.prems show ?case
    by (subst strcpy_loop.simps) auto
qed

lemma strncpy_fill_store: "strncpy_fill m d n = store_bytes m d (replicate n 0)"
  by (induction m d n rule: strncpy_fill.induct) auto

lemma strncpy_copy_store:
  "cstring m src xs \<Longrightarrow> blk dest n \<inter> blk src (Suc (length xs)) = {} \<Longrightarrow>
     strncpy_copy m dest src n = (store_bytes m dest (take n xs),
       dest + of_nat (length (take n xs)), n - length xs)"
proof (induction xs arbitrary: m dest src n)
  case Nil
  then show ?case by (cases n) auto
next
  case (Cons x xs)
  show ?case
  proof (cases n)
    case (Suc k)
    with Cons.prems have "cstring (wr8 m dest x) (src + 1) xs" by (subst cstring_upd) auto
    with Cons.IH[of "wr8 m dest x" "src + 1" "dest + 1" k] Cons.prems Suc show ?thesis
      by (auto simp: add.assoc)
  qed simp
qed

lemma strncat_copy_store:
  "cstring m src xs \<Longrightarrow> blk dest (min n (length xs)) \<inter> blk src (Suc (length xs)) = {} \<Longrightarrow>
     strncat_copy m dest src n =
       (store_bytes m dest (take n xs), dest + of_nat (length (take n xs)))"
proof (induction xs arbitrary: m dest src n)
  case Nil
  then show ?case by (cases n) auto
next
  case (Cons x xs)
  show ?case
  proof (cases n)
    case (Suc k)
    with Cons.prems have "cstring (wr8 m dest x) (src + 1) xs" by (subst cstring_upd) auto
    with Cons.IH[of "wr8 m dest x" "src + 1" "dest + 1" k] Cons.prems Suc show ?thesis
      by (auto simp: add.assoc)
  qed simp
qed

lemma strcmp_cstring:
  "cstring m s xs \<Longrightarrow> cstring m t ys \<Longrightarrow>
     \<exists>r. strcmp m s t = Some r \<and> (r = 0 \<longleftrightarrow> xs = ys) \<and> (r < 0 \<longleftrightarrow> xs < ys)"
proof (induction xs arbitrary: s t ys)
  case Nil
  then show ?case by (cases ys) (subst strcmp.simps, auto simp: word_neq_0_conv word_less_def)+
next
  case (Cons x xs)
  show ?case
  proof (cases ys)
    case Nil
    with Cons.prems show ?thesis
      by (subst strcmp.simps) (auto simp: word_neq_0_conv word_less_def)
  next
    case (Cons y ys')
    show ?thesis
    proof (cases "x = y")
      case True
      with Cons Cons.prems Cons.IH[of "s + 1" "t + 1" ys'] show ?thesis
        by (subst strcmp.simps) auto
    next
      case False
      with Cons Cons.prems show ?thesis
        by (subst strcmp.simps) (auto simp: word_less_def word_uint_eq_iff)
    qed
  qed
qed

lemma strncmp_cstring:
  "cstring m s xs \<Longrightarrow> cstring m t ys \<Longrightarrow>
     (strncmp_loop m s t n = 0 \<longleftrightarrow> take n xs = take n ys)
     \<and> (strncmp_loop m s t n < 0 \<longleftrightarrow> take n xs < take n ys)"
proof (induction n arbitrary: s t xs ys)
  case (Suc n)
  show ?case
  proof (cases "xs = [] \<or> ys = []")
    case True
    with Suc.prems show ?thesis
      by (cases xs; cases ys) (auto simp: word_less_def word_uint_eq_iff order.strict_iff_order)
  next
    case False
    then obtain x xs' y ys' where "xs = x # xs'" "ys = y # ys'" by (meson neq_Nil_conv)
    with Suc.prems Suc.IH[of "s + 1" xs' "t + 1" ys'] show ?thesis
      by (auto simp: word_less_def word_uint_eq_iff)
  qed
qed simp

section \<open>Properties\<close>


definition witness_mem :: mem where
  "witness_mem = store_bytes (\<lambda>_. 0) 0x1000 [0x61, 0x62, 0x63]"


text \<open>
  The comparisons agree with the unsigned lexicographic order: \<^verbatim>\<open>strcmp\<close> returns, with 0
  exactly for equal strings and a negative value exactly when the first is smaller;
  \<^verbatim>\<open>strncmp\<close> does the same for the strings cut to \<open>n\<close> bytes, and \<^verbatim>\<open>memcmp\<close> is 0 exactly for
  equal blocks.
\<close>

theorem string_comparisons_lexicographic:
  assumes "cstring m s xs" and "cstring m t ys"
  shows "(\<exists>r. strcmp m s t = Some r \<and> (r = 0 \<longleftrightarrow> xs = ys) \<and> (r < 0 \<longleftrightarrow> xs < ys))
    \<and> (strncmp m s t n = 0 \<longleftrightarrow> take (unat n) xs = take (unat n) ys)
    \<and> (strncmp m s t n < 0 \<longleftrightarrow> take (unat n) xs < take (unat n) ys)
    \<and> (memcmp m s t n = 0 \<longleftrightarrow> load_bytes (unat n) m s = load_bytes (unat n) m t)"
  using strcmp_cstring[OF assms] strncmp_cstring[OF assms, of "unat n"]
  by (simp add: strncmp_def memcmp_def memcmp_loop_eq)

theorem string_comparisons_lexicographic_witness:
  "strcmp witness_mem 0x1000 0x1001 = Some (- 1) \<and> [0x61, 0x62, 0x63 :: u8] < [0x62, 0x63]"
proof -
  have s: "cstring witness_mem 0x1000 [0x61, 0x62, 0x63]" "cstring witness_mem 0x1001 [0x62, 0x63]"
    by code_simp+
  have r: "strcmp witness_mem 0x1000 0x1001 = Some (- 1)" by code_simp
  from string_comparisons_lexicographic[OF s, of 0] r show ?thesis by auto
qed

end
