(* ===== verification/Frame_Source.thy ===== *)
theory Frame_Source
  imports Prelude
begin

text \<open>
  The contract behind the function pointer \<^verbatim>\<open>pmm_current_alloc_frame\<close> of
  \<^verbatim>\<open>mm/early_pmm.c\<close>: whatever allocator it points to hands out a free physical
  frame, or null when none is left. Page tables are built through this interface; the
  boot-time allocator and the bitmap allocator both provide it.
\<close>

text \<open>\<open>n\<close> calls in a row, with the frames they returned.\<close>

primrec alloc_many :: "('s \<Rightarrow> u64 \<times> 's) \<Rightarrow> nat \<Rightarrow> 's \<Rightarrow> u64 list \<times> 's" where
  "alloc_many alloc 0 s = ([], s)"
| "alloc_many alloc (Suc n) s =
     (let (f, s1) = alloc s; (fs, s2) = alloc_many alloc n s1 in (f # fs, s2))"

text \<open>\<open>avail s\<close> are the frames that can still be handed out in state \<open>s\<close>.\<close>

locale frame_source =
  fixes alloc :: "'s \<Rightarrow> u64 \<times> 's"
    and ok :: "'s \<Rightarrow> bool"
    and avail :: "'s \<Rightarrow> u64 set"
  assumes alloc_ok: "ok s \<Longrightarrow> alloc s = (f, s') \<Longrightarrow> ok s'"
    and alloc_avail: "ok s \<Longrightarrow> alloc s = (f, s') \<Longrightarrow> f \<noteq> 0 \<Longrightarrow> f \<in> avail s"
    and alloc_least: "ok s \<Longrightarrow> alloc s = (f, s') \<Longrightarrow> f \<noteq> 0 \<Longrightarrow> g \<in> avail s \<Longrightarrow> f \<le> g"
    and alloc_taken: "ok s \<Longrightarrow> alloc s = (f, s') \<Longrightarrow> avail s' = avail s - {f}"
    and alloc_null: "ok s \<Longrightarrow> alloc s = (0, s') \<Longrightarrow> avail s = {}"
    and avail_frame: "ok s \<Longrightarrow> f \<in> avail s \<Longrightarrow> 4096 dvd unat f \<and> 0 < unat f \<and> unat f < 2 ^ 52"
begin

lemma alloc_many_ok: "ok s \<Longrightarrow> alloc_many alloc n s = (fs, s') \<Longrightarrow> ok s'"
  by (induction n arbitrary: s fs) (auto split: prod.splits dest: alloc_ok)

lemma alloc_many_taken:
  "ok s \<Longrightarrow> alloc_many alloc n s = (fs, s') \<Longrightarrow> avail s' = avail s - set fs"
proof (induction n arbitrary: s fs)
  case (Suc n)
  obtain f s1 gs where a: "alloc s = (f, s1)" and r: "alloc_many alloc n s1 = (gs, s')"
    and fs: "fs = f # gs"
    using Suc.prems by (auto split: prod.splits)
  from Suc.IH[OF alloc_ok[OF Suc.prems(1) a] r] alloc_taken[OF Suc.prems(1) a] show ?case
    by (auto simp: fs)
qed simp

lemma alloc_many_avail:
  "ok s \<Longrightarrow> alloc_many alloc n s = (fs, s') \<Longrightarrow> f \<in> set fs \<Longrightarrow> f \<noteq> 0 \<Longrightarrow> f \<in> avail s"
proof (induction n arbitrary: s fs)
  case (Suc n)
  obtain g s1 gs where a: "alloc s = (g, s1)" and r: "alloc_many alloc n s1 = (gs, s')"
    and fs: "fs = g # gs"
    using Suc.prems by (auto split: prod.splits)
  from Suc.IH[OF alloc_ok[OF Suc.prems(1) a] r] alloc_taken[OF Suc.prems(1) a]
    alloc_avail[OF Suc.prems(1) a] Suc.prems(3,4) show ?case
    by (auto simp: fs)
qed simp

text \<open>No frame is handed out twice.\<close>

lemma alloc_many_distinct:
  "ok s \<Longrightarrow> alloc_many alloc n s = (fs, s') \<Longrightarrow> distinct (filter (\<lambda>f. f \<noteq> 0) fs)"
proof (induction n arbitrary: s fs)
  case (Suc n)
  obtain f s1 gs where a: "alloc s = (f, s1)" and r: "alloc_many alloc n s1 = (gs, s')"
    and fs: "fs = f # gs"
    using Suc.prems by (auto split: prod.splits)
  have "f \<notin> set gs" if "f \<noteq> 0"
    using alloc_many_avail[OF alloc_ok[OF Suc.prems(1) a] r, of f] alloc_taken[OF Suc.prems(1) a] that
    by blast
  with Suc.IH[OF alloc_ok[OF Suc.prems(1) a] r] show ?case by (auto simp: fs)
qed simp

text \<open>A null among the results means that every frame has been handed out.\<close>

lemma alloc_many_null:
  "ok s \<Longrightarrow> alloc_many alloc n s = (fs, s') \<Longrightarrow> 0 \<in> set fs \<Longrightarrow> avail s \<subseteq> set fs"
proof (induction n arbitrary: s fs)
  case (Suc n)
  obtain g s1 gs where a: "alloc s = (g, s1)" and r: "alloc_many alloc n s1 = (gs, s')"
    and fs: "fs = g # gs"
    using Suc.prems by (auto split: prod.splits)
  show ?case
  proof (cases "g = 0")
    case True
    with alloc_null[OF Suc.prems(1)] a show ?thesis by simp
  next
    case False
    with Suc.IH[OF alloc_ok[OF Suc.prems(1) a] r] alloc_taken[OF Suc.prems(1) a] Suc.prems(3)
    show ?thesis by (auto simp: fs)
  qed
qed simp

text \<open>A fresh frame cannot fail while one is available.\<close>

lemma alloc_succeeds: "ok s \<Longrightarrow> avail s \<noteq> {} \<Longrightarrow> fst (alloc s) \<noteq> 0"
  using alloc_null[of s "snd (alloc s)"] by (metis prod.collapse)

end

end
