(* ===== verification/Paging.thy ===== *)
theory Paging
  imports Klibc Frame_Source "HOL-Library.Sublist"
begin

text \<open>
  Four-level page tables, \<^verbatim>\<open>arch/x86_64/kernel/paging.c\<close>: walking them, creating the missing
  tables on the way, and mapping ranges with the largest page that fits. Tables are read and
  written in byte memory through the direct map. The frame allocator behind
  \<^verbatim>\<open>pmm_current_alloc_frame\<close> is an argument, of which only the contract
  \<open>frame_source\<close> is used.
\<close>

unbundle bit_operations_syntax

section \<open>Operations\<close>

datatype mmu_level = LVL_PGD | LVL_PUD | LVL_PMD | LVL_PTE

datatype page_size = PAGE_4K | PAGE_2M | PAGE_1G

record pgprot =
  prot_flags :: u64
  allow_overwrite :: bool

abbreviation PAGE_PRESENT :: u64 where "PAGE_PRESENT \<equiv> 0x1"
abbreviation PAGE_RW :: u64 where "PAGE_RW \<equiv> 0x2"
abbreviation PAGE_USER :: u64 where "PAGE_USER \<equiv> 0x4"
abbreviation PAGE_WRITE_THROUGH :: u64 where "PAGE_WRITE_THROUGH \<equiv> 0x8"
abbreviation PAGE_CACHE_DISABLE :: u64 where "PAGE_CACHE_DISABLE \<equiv> 0x10"
abbreviation PAGE_PS :: u64 where "PAGE_PS \<equiv> 0x80"
abbreviation PAGE_NO_EXECUTE :: u64 where "PAGE_NO_EXECUTE \<equiv> 0x8000000000000000"
abbreviation PAGE_SIZE_2M :: u64 where "PAGE_SIZE_2M \<equiv> 0x200000"
abbreviation PAGE_SIZE_1G :: u64 where "PAGE_SIZE_1G \<equiv> 0x40000000"
abbreviation ENTRY_PADDR_MASK :: u64 where "ENTRY_PADDR_MASK \<equiv> 0xFFFFFFFFFF000"

definition is_page_aligned :: "u64 \<Rightarrow> u64 \<Rightarrow> bool" where
  "is_page_aligned addr alignment \<longleftrightarrow> addr AND (alignment - 1) = 0"

definition PGD_INDEX :: "u64 \<Rightarrow> u64" where "PGD_INDEX vaddr = drop_bit 39 vaddr AND 0x1FF"
definition PUD_INDEX :: "u64 \<Rightarrow> u64" where "PUD_INDEX vaddr = drop_bit 30 vaddr AND 0x1FF"
definition PMD_INDEX :: "u64 \<Rightarrow> u64" where "PMD_INDEX vaddr = drop_bit 21 vaddr AND 0x1FF"
definition PTE_INDEX :: "u64 \<Rightarrow> u64" where "PTE_INDEX vaddr = drop_bit 12 vaddr AND 0x1FF"

text \<open>\<^verbatim>\<open>pgd_to_pud\<close>, \<^verbatim>\<open>pud_to_pmd\<close> and \<^verbatim>\<open>pmd_to_pte\<close> are the same function of the entry.\<close>

definition entry_to_table :: "u64 \<Rightarrow> u64" where
  "entry_to_table val = PHYS_TO_VIRT (val AND ENTRY_PADDR_MASK)"

definition present :: "u64 \<Rightarrow> bool" where "present val \<longleftrightarrow> val AND PAGE_PRESENT \<noteq> 0"
definition huge :: "u64 \<Rightarrow> bool" where "huge val \<longleftrightarrow> val AND PAGE_PS \<noteq> 0"

definition mmu_alloc_table :: "('s \<Rightarrow> u64 \<times> 's) \<Rightarrow> u64 \<Rightarrow> 's \<times> mem \<Rightarrow> ('s \<times> mem) exec" where
  "mmu_alloc_table alloc entry_ptr st =
     (let (phys_frame, s1) = alloc (fst st) in
      if phys_frame = 0 then Panic ''mmu_alloc_table: no free frames.''
      else
        let m1 = snd (memset (snd st) (PHYS_TO_VIRT phys_frame) 0 PAGE_SIZE)
        in Ret (s1, wr64 m1 entry_ptr (phys_frame OR PAGE_PRESENT OR PAGE_RW OR PAGE_USER)))"

text \<open>
  The step that \<^verbatim>\<open>mmu_walk\<close> repeats at each level (lines 53--57, 68--72, 83--87): create the
  next table if the entry is not present, then follow the entry.
\<close>

definition mmu_descend :: "('s \<Rightarrow> u64 \<times> 's) \<Rightarrow> u64 \<Rightarrow> 's \<times> mem \<Rightarrow> (u64 \<times> 's \<times> mem) exec" where
  "mmu_descend alloc entry st =
     exec_bind (if \<not> present (rd64 (snd st) entry) then mmu_alloc_table alloc entry st else Ret st)
       (\<lambda>st1. Ret (entry_to_table (rd64 (snd st1) entry), st1))"

text \<open>The result is the entry's address (null when a huge page is in the way), \<^verbatim>\<open>hit_huge\<close>, and
  the new state.\<close>

definition mmu_walk ::
    "('s \<Rightarrow> u64 \<times> 's) \<Rightarrow> u64 \<Rightarrow> u64 \<Rightarrow> mmu_level \<Rightarrow> 's \<times> mem \<Rightarrow> (u64 \<times> bool \<times> 's \<times> mem) exec" where
  "mmu_walk alloc pgd vaddr level st =
     (let pgd_entry = pgd + 8 * PGD_INDEX vaddr in
      if level = LVL_PGD then Ret (pgd_entry, False, st)
      else exec_bind (mmu_descend alloc pgd_entry st) (\<lambda>(pud_base, st1).
      let pud_entry = pud_base + 8 * PUD_INDEX vaddr in
      if level = LVL_PUD then Ret (pud_entry, False, st1)
      else if present (rd64 (snd st1) pud_entry) \<and> huge (rd64 (snd st1) pud_entry)
      then Ret (0, True, st1)
      else exec_bind (mmu_descend alloc pud_entry st1) (\<lambda>(pmd_base, st2).
      let pmd_entry = pmd_base + 8 * PMD_INDEX vaddr in
      if level = LVL_PMD then Ret (pmd_entry, False, st2)
      else if present (rd64 (snd st2) pmd_entry) \<and> huge (rd64 (snd st2) pmd_entry)
      then Ret (0, True, st2)
      else exec_bind (mmu_descend alloc pmd_entry st2) (\<lambda>(pte_base, st3).
        Ret (pte_base + 8 * PTE_INDEX vaddr, False, st3)))))"

definition level_of :: "page_size \<Rightarrow> mmu_level" where
  "level_of sz = (if sz = PAGE_1G then LVL_PUD else if sz = PAGE_2M then LVL_PMD else LVL_PTE)"

definition mmu_map_one ::
    "('s \<Rightarrow> u64 \<times> 's) \<Rightarrow> u64 \<Rightarrow> u64 \<Rightarrow> u64 \<Rightarrow> page_size \<Rightarrow> pgprot \<Rightarrow> 's \<times> mem \<Rightarrow> ('s \<times> mem) exec" where
  "mmu_map_one alloc pgd vaddr paddr sz opts st =
     exec_bind (mmu_walk alloc pgd vaddr (level_of sz) st) (\<lambda>(entry, hit_huge, st1).
       if hit_huge then Panic ''mmu_map_one: vaddr is in an existing huge mapping, i still havent implemented splitting.''
       else
         let val = rd64 (snd st1) entry in
         if present val \<and> \<not> allow_overwrite opts
         then Panic ''mmu_map_one: trying to map an already mapped vaddr with opts.allow_overwrite=false.''
         else
           let ps = (if sz \<noteq> PAGE_4K then PAGE_PS else 0)
           in Ret (fst st1, wr64 (snd st1) entry (paddr OR PAGE_PRESENT OR prot_flags opts OR ps)))"

text \<open>The page that the next step of \<^verbatim>\<open>mmu_map_range\<close> uses (lines 123--132).\<close>

definition choose_page :: "bool \<Rightarrow> u64 \<Rightarrow> u64 \<Rightarrow> u64 \<Rightarrow> page_size \<times> u64" where
  "choose_page cpu_has_1g_pages vaddr paddr len =
     (if cpu_has_1g_pages \<and> is_page_aligned vaddr PAGE_SIZE_1G \<and> is_page_aligned paddr PAGE_SIZE_1G
         \<and> len \<ge> PAGE_SIZE_1G then (PAGE_1G, PAGE_SIZE_1G)
      else if is_page_aligned vaddr PAGE_SIZE_2M \<and> is_page_aligned paddr PAGE_SIZE_2M
         \<and> len \<ge> PAGE_SIZE_2M then (PAGE_2M, PAGE_SIZE_2M)
      else (PAGE_4K, PAGE_SIZE))"

text \<open>
  Every iteration maps at least one page of 4096 bytes, so a length of \<open>len div 4096\<close> iterations
  is enough; the fuel is that number plus one, and running out of it is \<open>Diverge\<close>.
\<close>

fun mmu_map_loop ::
    "nat \<Rightarrow> ('s \<Rightarrow> u64 \<times> 's) \<Rightarrow> bool \<Rightarrow> u64 \<Rightarrow> u64 \<Rightarrow> u64 \<Rightarrow> u64 \<Rightarrow> pgprot \<Rightarrow> 's \<times> mem \<Rightarrow> ('s \<times> mem) exec" where
  "mmu_map_loop 0 alloc g1 pgd vaddr paddr len opts st = Diverge"
| "mmu_map_loop (Suc fuel) alloc g1 pgd vaddr paddr len opts st =
     (if len > 0 then
        let (sz, chunk) = choose_page g1 vaddr paddr len in
        exec_bind (mmu_map_one alloc pgd vaddr paddr sz opts st)
          (mmu_map_loop fuel alloc g1 pgd (vaddr + chunk) (paddr + chunk) (len - chunk) opts)
      else Ret st)"

definition mmu_map_range ::
    "('s \<Rightarrow> u64 \<times> 's) \<Rightarrow> bool \<Rightarrow> u64 \<Rightarrow> u64 \<Rightarrow> u64 \<Rightarrow> u64 \<Rightarrow> pgprot \<Rightarrow> 's \<times> mem \<Rightarrow> ('s \<times> mem) exec" where
  "mmu_map_range alloc g1 pgd vaddr paddr len opts st =
     (if \<not> is_page_aligned vaddr PAGE_SIZE \<or> \<not> is_page_aligned paddr PAGE_SIZE
      then Panic ''mmu_map_range: vaddr/paddr not page algined''
      else if \<not> is_page_aligned len PAGE_SIZE
      then Panic ''mmu_map_range: len not page algined''
      else mmu_map_loop (unat len div 4096 + 1) alloc g1 pgd vaddr paddr len opts st)"

end
