(* ===== verification/Page_Tree.thy ===== *)
theory Page_Tree
  imports Paging
begin

text \<open>
  What a page table means, apart from how it is stored: an entry function maps a table and an
  index to the entry there, a path of indices leads from the root to a table, and four indices
  to the entry that maps an address. The lemmas say what writing one entry does to all paths,
  provided that no table is reached in two ways.
\<close>

type_synonym ents = "u64 \<Rightarrow> nat \<Rightarrow> u64"

text \<open>At depth \<open>d\<close> (0 is the root) an entry leads to a further table, or it maps a page.\<close>

definition is_table :: "nat \<Rightarrow> u64 \<Rightarrow> bool" where
  "is_table d e \<longleftrightarrow> d < 3 \<and> present e \<and> (d = 0 \<or> \<not> huge e)"

fun table_at :: "ents \<Rightarrow> nat \<Rightarrow> u64 \<Rightarrow> nat list \<Rightarrow> u64 option" where
  "table_at E d b [] = Some b"
| "table_at E d b (i # is) =
     (if is_table d (E b i) then table_at E (Suc d) (entry_to_table (E b i)) is else None)"

fun pt_leaf :: "ents \<Rightarrow> nat \<Rightarrow> u64 \<Rightarrow> nat list \<Rightarrow> (nat \<times> u64) option" where
  "pt_leaf E d b [] = None"
| "pt_leaf E d b (i # is) =
     (if is_table d (E b i) then pt_leaf E (Suc d) (entry_to_table (E b i)) is
      else if present (E b i) then Some (d, E b i) else None)"

abbreviation valid_path :: "nat list \<Rightarrow> bool" where
  "valid_path p \<equiv> \<forall>i \<in> set p. i < 512"

definition is_pt :: "ents \<Rightarrow> u64 \<Rightarrow> u64 \<Rightarrow> bool" where
  "is_pt E pgd b \<longleftrightarrow> (\<exists>p. valid_path p \<and> table_at E 0 pgd p = Some b)"

text \<open>No table is reached in two ways.\<close>

definition pt_tree :: "ents \<Rightarrow> u64 \<Rightarrow> bool" where
  "pt_tree E pgd \<longleftrightarrow> (\<forall>p q b. valid_path p \<and> valid_path q
     \<and> table_at E 0 pgd p = Some b \<and> table_at E 0 pgd q = Some b \<longrightarrow> p = q)"

lemma pt_treeD:
  "pt_tree E pgd \<Longrightarrow> table_at E 0 pgd p = Some b \<Longrightarrow> table_at E 0 pgd q = Some b \<Longrightarrow>
     valid_path p \<Longrightarrow> valid_path q \<Longrightarrow> p = q"
  by (auto simp: pt_tree_def)

lemma table_at_append:
  "table_at E d b (p @ q) =
     (case table_at E d b p of None \<Rightarrow> None | Some b' \<Rightarrow> table_at E (d + length p) b' q)"
  by (induction E d b p rule: table_at.induct) (auto split: option.split)

lemma pt_leaf_append:
  "pt_leaf E d b (p @ q) =
     (case table_at E d b p of None \<Rightarrow> pt_leaf E d b p | Some b' \<Rightarrow> pt_leaf E (d + length p) b' q)"
  by (induction E d b p rule: table_at.induct) (auto split: option.split)

lemma pt_leaf_None_Some: "pt_leaf E d b p = Some x \<Longrightarrow> table_at E d b p = None"
  by (induction E d b p rule: pt_leaf.induct) (auto split: if_splits)

lemma table_at_length: "table_at E d b p = Some b' \<Longrightarrow> p = [] \<or> d + length p \<le> 3"
  by (induction E d b p rule: table_at.induct) (auto simp: is_table_def split: if_splits)

section \<open>Writing an entry\<close>

text \<open>\<open>E'\<close> differs from \<open>E\<close>, on the tables of \<open>E\<close>, at most in one entry.\<close>

definition same_but :: "ents \<Rightarrow> ents \<Rightarrow> u64 \<Rightarrow> u64 \<Rightarrow> nat \<Rightarrow> bool" where
  "same_but E E' pgd b0 i0 \<longleftrightarrow>
     (\<forall>b i. is_pt E pgd b \<and> i < 512 \<and> (b, i) \<noteq> (b0, i0) \<longrightarrow> E' b i = E b i)"

text \<open>Paths that do not run through the entry do not change.\<close>

lemma table_at_outside:
  assumes "pt_tree E pgd" "valid_path p0" "table_at E 0 pgd p0 = Some b0"
    and same: "same_but E E' pgd b0 i0"
  shows "table_at E 0 pgd p = Some b \<Longrightarrow> valid_path (p @ r) \<Longrightarrow> \<not> prefix (p0 @ [i0]) (p @ r) \<Longrightarrow>
    table_at E' (length p) b r = table_at E (length p) b r
    \<and> pt_leaf E' (length p) b r = pt_leaf E (length p) b r"
proof (induction r arbitrary: p b)
  case (Cons i r)
  have "(b, i) \<noteq> (b0, i0)"
  proof
    assume "(b, i) = (b0, i0)"
    with pt_treeD[OF assms(1) Cons.prems(1), of p0] assms(2,3) Cons.prems(2) have "p = p0" by auto
    with \<open>(b, i) = (b0, i0)\<close> Cons.prems(3) show False by auto
  qed
  then have e: "E' b i = E b i"
    using same Cons.prems(1,2) by (auto simp: is_pt_def same_but_def)
  show ?case
  proof (cases "is_table (length p) (E b i)")
    case True
    with Cons.prems(1) have "table_at E 0 pgd (p @ [i]) = Some (entry_to_table (E b i))"
      by (simp add: table_at_append)
    from Cons.IH[OF this] Cons.prems show ?thesis by (simp add: e)
  qed (simp add: e)
qed simp

lemma table_at_outside_root:
  assumes "pt_tree E pgd" "valid_path p0" "table_at E 0 pgd p0 = Some b0"
    and "same_but E E' pgd b0 i0"
    and "valid_path q" "\<not> prefix (p0 @ [i0]) q"
  shows "table_at E' 0 pgd q = table_at E 0 pgd q" "pt_leaf E' 0 pgd q = pt_leaf E 0 pgd q"
  using table_at_outside[OF assms(1-4), where p = "[]" and b = pgd and r = q] assms(5,6) by auto

lemma table_at_inside:
  assumes "pt_tree E pgd" "valid_path p0" "table_at E 0 pgd p0 = Some b0"
    and "same_but E E' pgd b0 i0"
    and "E' b0 i0 = v"
  shows "table_at E' 0 pgd (p0 @ i0 # r) =
      (if is_table (length p0) v then table_at E' (Suc (length p0)) (entry_to_table v) r else None)"
    and "pt_leaf E' 0 pgd (p0 @ i0 # r) =
      (if is_table (length p0) v then pt_leaf E' (Suc (length p0)) (entry_to_table v) r
       else if present v then Some (length p0, v) else None)"
proof -
  have "table_at E' 0 pgd p0 = Some b0"
    using table_at_outside_root(1)[OF assms(1-4) assms(2)] assms(3) by (auto simp: prefix_def)
  then show "table_at E' 0 pgd (p0 @ i0 # r) =
      (if is_table (length p0) v then table_at E' (Suc (length p0)) (entry_to_table v) r else None)"
    "pt_leaf E' 0 pgd (p0 @ i0 # r) =
      (if is_table (length p0) v then pt_leaf E' (Suc (length p0)) (entry_to_table v) r
       else if present v then Some (length p0, v) else None)"
    by (simp_all add: table_at_append pt_leaf_append assms(5))
qed

text \<open>An entry that maps a page (or nothing) is written: only the paths through it change.\<close>

lemma write_leaf:
  assumes "pt_tree E pgd" "valid_path p0" "table_at E 0 pgd p0 = Some b0"
    and same: "same_but E E' pgd b0 i0"
    and v: "E' b0 i0 = v" "\<not> is_table (length p0) v"
  shows "valid_path q \<Longrightarrow> table_at E' 0 pgd q = (if prefix (p0 @ [i0]) q then None else table_at E 0 pgd q)"
    and "valid_path q \<Longrightarrow> pt_leaf E' 0 pgd q =
      (if prefix (p0 @ [i0]) q then (if present v then Some (length p0, v) else None)
       else pt_leaf E 0 pgd q)"
    and "pt_tree E' pgd"
    and "is_pt E' pgd b \<Longrightarrow> is_pt E pgd b"
proof -
  note out = table_at_outside_root[OF assms(1-3) same]
  note ins = table_at_inside[OF assms(1-3) same v(1)]
  show t: "valid_path q \<Longrightarrow> table_at E' 0 pgd q = (if prefix (p0 @ [i0]) q then None else table_at E 0 pgd q)" for q
    using out(1)[of q] ins(1) v(2) by (auto elim!: prefixE)
  show "valid_path q \<Longrightarrow> pt_leaf E' 0 pgd q =
      (if prefix (p0 @ [i0]) q then (if present v then Some (length p0, v) else None)
       else pt_leaf E 0 pgd q)"
    using out(2)[of q] ins(2) v(2) by (auto elim!: prefixE)
  show "pt_tree E' pgd"
    using assms(1) by (auto simp: pt_tree_def t split: if_splits)
  show "is_pt E' pgd b \<Longrightarrow> is_pt E pgd b"
    by (auto simp: is_pt_def t split: if_splits)
qed

text \<open>
  A fresh, empty table is hung into an entry that was not present: it is a table of its own,
  and no address is mapped differently.
\<close>

lemma write_fresh_table:
  assumes "pt_tree E pgd" "valid_path p0" "table_at E 0 pgd p0 = Some b0" "i0 < 512"
    and same: "same_but E E' pgd b0 i0"
    and v: "E' b0 i0 = v" "is_table (length p0) v"
    and fresh: "entry_to_table v = f" "\<not> is_pt E pgd f" "\<forall>i < 512. E' f i = 0"
    and old: "\<not> present (E b0 i0)"
  shows "table_at E' 0 pgd (p0 @ [i0]) = Some f"
    and "valid_path q \<Longrightarrow> pt_leaf E' 0 pgd q = pt_leaf E 0 pgd q"
    and "pt_tree E' pgd"
    and "is_pt E' pgd b \<Longrightarrow> is_pt E pgd b \<or> b = f"
proof -
  note out = table_at_outside_root[OF assms(1-3) same]
  note ins = table_at_inside[OF assms(1-3) same v(1)]
  have empty: "table_at E' d f (i # is) = None" "pt_leaf E' d f (i # is) = None" if "i < 512" for d i "is"
    using fresh(3) that by (auto simp: is_table_def present_def)
  show new: "table_at E' 0 pgd (p0 @ [i0]) = Some f" using ins(1)[of "[]"] v(2) fresh(1) by simp
  have t: "table_at E' 0 pgd q = (if q = p0 @ [i0] then Some f
      else if prefix (p0 @ [i0]) q then None else table_at E 0 pgd q)" if "valid_path q" for q
  proof (cases "prefix (p0 @ [i0]) q")
    case True
    then obtain r where q: "q = p0 @ i0 # r" by (auto elim!: prefixE)
    show ?thesis
      using new ins(1)[of r] v(2) fresh(1) empty that by (cases r) (auto simp: q)
  qed (use out(1)[of q] that in auto)
  have old_leaf: "pt_leaf E 0 pgd (p0 @ i0 # r) = None" for r
    using assms(3) old by (simp add: pt_leaf_append is_table_def)
  show "pt_leaf E' 0 pgd q = pt_leaf E 0 pgd q" if "valid_path q"
  proof (cases "prefix (p0 @ [i0]) q")
    case True
    then obtain r where q: "q = p0 @ i0 # r" by (auto elim!: prefixE)
    show ?thesis
      using ins(2)[of r] v(2) fresh(1) empty that old_leaf[of r] by (cases r) (auto simp: q)
  qed (use out(2)[of q] that in auto)
  have nf: "table_at E 0 pgd q \<noteq> Some f" if "valid_path q" for q
    using fresh(2) that by (auto simp: is_pt_def)
  show "pt_tree E' pgd"
    unfolding pt_tree_def
  proof (intro allI impI, elim conjE)
    fix p q b assume p: "valid_path p" "table_at E' 0 pgd p = Some b"
      and q: "valid_path q" "table_at E' 0 pgd q = Some b"
    show "p = q"
      using p q nf[OF p(1)] nf[OF q(1)] pt_treeD[OF assms(1) _ _ p(1) q(1)]
      by (auto simp: t split: if_splits)
  qed
  show "is_pt E' pgd b \<Longrightarrow> is_pt E pgd b \<or> b = f"
    by (auto simp: is_pt_def t split: if_splits)
qed

end
