(* ===== verification/Memory_Map.thy ===== *)
theory Memory_Map
  imports Prelude "HOL-Library.Multiset"
begin

text \<open>
  The physical memory map: the BIOS e820 table as \<^verbatim>\<open>arch/x86_64/kernel/setup.c\<close>
  reads it into an array of \<open>phys_region\<close>, and the sanitising pass of
  \<^verbatim>\<open>mm/early_pmm.c\<close> (\<^verbatim>\<open>sort_u64\<close>, \<^verbatim>\<open>pmm_sanitize_memory_map\<close>)
  that turns overlapping, unordered regions into a sorted, disjoint map in which every
  address has the type of the highest-priority region that covers it.
\<close>

section \<open>Regions (include/mm.h)\<close>

datatype phys_region_type =
    PHYS_REGION_USABLE
  | PHYS_REGION_RESERVED
  | PHYS_REGION_ACPI_RECLAIMABLE
  | PHYS_REGION_ACPI_NVS
  | PHYS_REGION_BAD

record phys_region =
  pr_start :: u64
  pr_end :: u64
  pr_type :: phys_region_type

abbreviation PHYS_REGION_MAX_SIZE :: nat where "PHYS_REGION_MAX_SIZE \<equiv> 128"

section \<open>The e820 table (arch/x86_64/kernel/setup.c)\<close>

record e820_entry =
  e820_base :: u64
  e820_len :: u64
  e820_type :: u32
  e820_extended_attr :: u32

definition e820_region_type :: "u32 \<Rightarrow> phys_region_type" where
  "e820_region_type t =
     (if t = 1 then PHYS_REGION_USABLE
      else if t = 2 then PHYS_REGION_RESERVED
      else if t = 3 then PHYS_REGION_ACPI_RECLAIMABLE
      else if t = 4 then PHYS_REGION_ACPI_NVS
      else if t = 5 then PHYS_REGION_BAD
      else PHYS_REGION_RESERVED)"

definition phys_region_push ::
    "phys_region list \<Rightarrow> nat \<Rightarrow> u64 \<Rightarrow> u64 \<Rightarrow> u32 \<Rightarrow> (phys_region list \<times> nat) exec" where
  "phys_region_push regions i base len typ =
     (if len = 0 then Ret (regions, i)
      else exec_bind
        (array_set regions i
           \<lparr>pr_start = base, pr_end = base + len, pr_type = e820_region_type typ\<rparr>)
        (\<lambda>regions'. Ret (regions', i + 1)))"

text \<open>
  The table is read from fixed addresses that the boot loader filled: \<open>nr\<close> is the 16-bit
  count, \<open>entry\<close> the entries that follow.
\<close>

definition arch_get_memory_map ::
    "u16 \<Rightarrow> (nat \<Rightarrow> e820_entry) \<Rightarrow> phys_region list \<Rightarrow> (phys_region list \<times> nat) exec" where
  "arch_get_memory_map nr entry regions =
     exec_fold (\<lambda>i (rs, index).
        phys_region_push rs index (e820_base (entry i)) (e820_len (entry i)) (e820_type (entry i)))
       [0..<unat nr] (regions, 0)"

section \<open>Sorting the boundaries\<close>

definition sort_u64_min :: "u64 list \<Rightarrow> nat \<Rightarrow> nat \<Rightarrow> nat" where
  "sort_u64_min arr n i = fold (\<lambda>j m. if arr ! m \<le> arr ! j then m else j) [i + 1..<n] i"

definition sort_u64_step :: "nat \<Rightarrow> nat \<Rightarrow> u64 list \<Rightarrow> u64 list" where
  "sort_u64_step n i arr =
     (let min_idx = sort_u64_min arr n i in
      if min_idx \<noteq> i then (arr[i := arr ! min_idx])[min_idx := arr ! i] else arr)"

definition sort_u64 :: "u64 list \<Rightarrow> nat \<Rightarrow> u64 list" where
  "sort_u64 arr n = fold (sort_u64_step n) [0..<n] arr"

section \<open>Sanitising the map\<close>

fun region_priority :: "phys_region_type \<Rightarrow> int" where
  "region_priority PHYS_REGION_USABLE = 0"
| "region_priority PHYS_REGION_RESERVED = 1"
| "region_priority PHYS_REGION_ACPI_RECLAIMABLE = 1"
| "region_priority PHYS_REGION_ACPI_NVS = 2"
| "region_priority PHYS_REGION_BAD = 3"

text \<open>Lines 52--57: both ends of every region go to the static array \<^verbatim>\<open>boundaries\<close>.\<close>

definition collect_boundaries :: "phys_region list \<Rightarrow> u64 list \<Rightarrow> (u64 list \<times> nat) exec" where
  "collect_boundaries ins boundaries =
     exec_fold (\<lambda>r (bs, nb).
        exec_bind (array_set bs nb (pr_start r)) (\<lambda>bs1.
        exec_bind (array_set bs1 (nb + 1) (pr_end r)) (\<lambda>bs2. Ret (bs2, nb + 2))))
       ins (boundaries, 0)"

text \<open>Lines 61--65: duplicates are dropped in place; \<open>nu\<close> counts what is kept.\<close>

definition dedup_boundaries :: "u64 list \<Rightarrow> nat \<Rightarrow> u64 list \<times> nat" where
  "dedup_boundaries boundaries nb =
     fold (\<lambda>i (bs, nu).
        if i = 0 \<or> bs ! i \<noteq> bs ! (nu - 1) then (bs[nu := bs ! i], nu + 1) else (bs, nu))
       [0..<nb] (boundaries, 0)"

text \<open>Lines 72--85: the type of one sub-interval.\<close>

definition classify_subrange ::
    "phys_region list \<Rightarrow> u64 \<Rightarrow> u64 \<Rightarrow> bool \<times> int \<times> phys_region_type" where
  "classify_subrange ins sub_start sub_end =
     fold (\<lambda>r (covered, best_priority, best_type).
        if pr_start r \<le> sub_start \<and> pr_end r \<ge> sub_end then
          (let p = region_priority (pr_type r) in
           if p > best_priority then (True, p, pr_type r) else (True, best_priority, best_type))
        else (covered, best_priority, best_type))
       ins (False, -1, PHYS_REGION_USABLE)"

text \<open>Lines 87--101: extend the last region written, or write a new one.\<close>

definition emit_subrange ::
    "phys_region list \<Rightarrow> nat \<Rightarrow> u64 list \<Rightarrow> nat \<Rightarrow> phys_region list \<Rightarrow> phys_region list exec" where
  "emit_subrange ins out_max boundaries i out =
     (let sub_start = boundaries ! i; sub_end = boundaries ! (i + 1);
          (covered, best_priority, best_type) = classify_subrange ins sub_start sub_end
      in
        if \<not> covered then Ret out
        else if out \<noteq> [] \<and> pr_type (last out) = best_type \<and> pr_end (last out) = sub_start
          then Ret (butlast out @ [(last out)\<lparr>pr_end := sub_end\<rparr>])
        else if length out \<ge> out_max then Panic ''pmm_sanitize_memory_map: out full.''
        else Ret (out @ [\<lparr>pr_start = sub_start, pr_end = sub_end, pr_type = best_type\<rparr>]))"

text \<open>
  \<open>ins\<close> are the first \<^verbatim>\<open>in_count\<close> entries of \<^verbatim>\<open>in\<close>; the result are the first
  \<^verbatim>\<open>out_count\<close> entries of \<^verbatim>\<open>out\<close>. The static array of boundaries has
  \<^verbatim>\<open>2 * PHYS_REGION_MAX_SIZE\<close> cells.
\<close>

definition pmm_sanitize_memory_map ::
    "phys_region list \<Rightarrow> nat \<Rightarrow> phys_region list exec" where
  "pmm_sanitize_memory_map ins out_max =
     (if length ins = 0 then Ret []
      else exec_bind (collect_boundaries ins (replicate (PHYS_REGION_MAX_SIZE * 2) 0))
        (\<lambda>(bs, nb).
           let (us, nu) = dedup_boundaries (sort_u64 bs nb) nb
           in exec_fold (emit_subrange ins out_max us) [0..<nu - 1] []))"

section \<open>Specification\<close>

text \<open>
  What the map should say of an address: the type of the first region among those that cover
  it with the highest priority; and what a list of regions says of it.
\<close>

definition covers :: "phys_region \<Rightarrow> u64 \<Rightarrow> bool" where
  "covers r a \<longleftrightarrow> pr_start r \<le> a \<and> a < pr_end r"

definition region_type_at :: "phys_region list \<Rightarrow> u64 \<Rightarrow> phys_region_type option" where
  "region_type_at ins a = map_option pr_type
     (find (\<lambda>r. covers r a \<and> (\<forall>r' \<in> set ins. covers r' a \<longrightarrow>
        region_priority (pr_type r') \<le> region_priority (pr_type r))) ins)"

definition region_lookup :: "phys_region list \<Rightarrow> u64 \<Rightarrow> phys_region_type option" where
  "region_lookup rs a = map_option pr_type (find (\<lambda>r. covers r a) rs)"

text \<open>A sorted map of disjoint, non-empty regions.\<close>

definition wf_map :: "phys_region list \<Rightarrow> bool" where
  "wf_map rs \<longleftrightarrow> sorted_wrt (\<lambda>r r'. pr_end r \<le> pr_start r') rs
     \<and> (\<forall>r \<in> set rs. pr_start r < pr_end r)"

section \<open>Lemmas\<close>

subsection \<open>Selection sort\<close>

lemma sort_u64_min_bounds:
  assumes "i < n"
  shows "i \<le> sort_u64_min arr n i \<and> sort_u64_min arr n i < n
    \<and> (\<forall>j. i \<le> j \<and> j < n \<longrightarrow> arr ! sort_u64_min arr n i \<le> arr ! j)"
proof -
  let ?P = "\<lambda>k m. i \<le> m \<and> m < k \<and> (\<forall>j. i \<le> j \<and> j < k \<longrightarrow> arr ! m \<le> arr ! j)"
  have "?P n (sort_u64_min arr n i)"
    unfolding sort_u64_min_def
  proof (rule fold_upt_rule[where P = ?P])
    fix k m assume "i + 1 \<le> k" "k < n" "?P k m"
    then show "?P (Suc k) (if arr ! m \<le> arr ! k then m else k)"
      by (auto simp: less_Suc_eq intro: order.trans less_imp_le)
  qed (use assms in \<open>auto simp: less_Suc_eq_le\<close>)
  then show ?thesis by blast
qed

text \<open>Everything before \<open>i\<close> is in its final place.\<close>

definition sorted_upto :: "nat \<Rightarrow> nat \<Rightarrow> u64 list \<Rightarrow> bool" where
  "sorted_upto n i arr \<longleftrightarrow> (\<forall>a b. a < i \<and> a \<le> b \<and> b < n \<longrightarrow> arr ! a \<le> arr ! b)"

lemma sort_u64_step_sorted:
  assumes "i < n" "n \<le> length arr" "sorted_upto n i arr"
  shows "sorted_upto n (Suc i) (sort_u64_step n i arr)"
proof -
  let ?m = "sort_u64_min arr n i"
  from sort_u64_min_bounds[OF assms(1), of arr]
  have m: "i \<le> ?m" "?m < n" "\<And>j. i \<le> j \<Longrightarrow> j < n \<Longrightarrow> arr ! ?m \<le> arr ! j" by auto
  have nth: "sort_u64_step n i arr ! k
      = (if k = i then arr ! ?m else if k = ?m then arr ! i else arr ! k)" if "k < n" for k
    using that m assms by (auto simp: sort_u64_step_def Let_def nth_list_update)
  show ?thesis
    unfolding sorted_upto_def
  proof (intro allI impI)
    fix a b assume "a < Suc i \<and> a \<le> b \<and> b < n"
    then show "sort_u64_step n i arr ! a \<le> sort_u64_step n i arr ! b"
      using m assms by (auto simp: nth sorted_upto_def less_Suc_eq)
  qed
qed

lemma sort_u64_step_mset:
  assumes "i < n" "n \<le> length arr"
  shows "mset (sort_u64_step n i arr) = mset arr \<and> length (sort_u64_step n i arr) = length arr
    \<and> drop n (sort_u64_step n i arr) = drop n arr"
  using sort_u64_min_bounds[OF assms(1), of arr] assms
  by (auto simp: sort_u64_step_def Let_def mset_swap)

lemma sort_u64_invariant:
  assumes "n \<le> length arr"
  shows "sorted_upto n n (sort_u64 arr n) \<and> length (sort_u64 arr n) = length arr
    \<and> mset (sort_u64 arr n) = mset arr \<and> drop n (sort_u64 arr n) = drop n arr"
  unfolding sort_u64_def
  by (rule fold_upt_rule[where P = "\<lambda>i xs. sorted_upto n i xs \<and> length xs = length arr
        \<and> mset xs = mset arr \<and> drop n xs = drop n arr"])
     (use assms in \<open>auto simp: sort_u64_step_mset sort_u64_step_sorted sorted_upto_def[of _ 0]\<close>)

text \<open>The first \<open>n\<close> cells are sorted and permuted, the others are left alone.\<close>

lemma sort_u64_correct:
  assumes "n \<le> length arr"
  shows "sorted (take n (sort_u64 arr n))"
    and "mset (take n (sort_u64 arr n)) = mset (take n arr)"
    and "drop n (sort_u64 arr n) = drop n arr"
    and "length (sort_u64 arr n) = length arr"
proof -
  note inv = sort_u64_invariant[OF assms]
  then show "drop n (sort_u64 arr n) = drop n arr" "length (sort_u64 arr n) = length arr" by auto
  show "sorted (take n (sort_u64 arr n))"
    using inv assms by (auto simp: sorted_iff_nth_mono sorted_upto_def)
  have "mset (take n (sort_u64 arr n)) + mset (drop n arr) = mset (take n arr) + mset (drop n arr)"
    using inv by (metis append_take_drop_id mset_append)
  then show "mset (take n (sort_u64 arr n)) = mset (take n arr)" by simp
qed

subsection \<open>Boundaries\<close>

definition boundaries_of :: "phys_region list \<Rightarrow> u64 list" where
  "boundaries_of ins = concat (map (\<lambda>r. [pr_start r, pr_end r]) ins)"

lemma boundaries_of_simps [simp]:
  "boundaries_of [] = []"
  "boundaries_of (r # rs) = pr_start r # pr_end r # boundaries_of rs"
  by (auto simp: boundaries_of_def)

lemma length_boundaries_of [simp]: "length (boundaries_of ins) = 2 * length ins"
  by (induction ins) auto

lemma set_boundaries_of: "set (boundaries_of ins) = pr_start ` set ins \<union> pr_end ` set ins"
  by (induction ins) auto

abbreviation collect_step :: "phys_region \<Rightarrow> u64 list \<times> nat \<Rightarrow> (u64 list \<times> nat) exec" where
  "collect_step \<equiv> \<lambda>r (bs, nb).
        exec_bind (array_set bs nb (pr_start r)) (\<lambda>bs1.
        exec_bind (array_set bs1 (nb + 1) (pr_end r)) (\<lambda>bs2. Ret (bs2, nb + 2)))"

lemma collect_boundaries_aux:
  "nb + 2 * length ins \<le> length bs \<Longrightarrow>
   \<exists>bs'. exec_fold collect_step ins (bs, nb) = Ret (bs', nb + 2 * length ins)
      \<and> length bs' = length bs \<and> take (nb + 2 * length ins) bs' = take nb bs @ boundaries_of ins"
proof (induction ins arbitrary: bs nb)
  case Nil
  then show ?case by simp
next
  case (Cons r rs)
  let ?bs = "bs[nb := pr_start r, nb + 1 := pr_end r]"
  from Cons.prems have b: "Suc nb < length bs" by simp
  then have step: "collect_step r (bs, nb) = Ret (?bs, nb + 2)" by simp
  have "take (nb + 2) ?bs = take nb bs @ [pr_start r, pr_end r]"
    using b by (simp add: take_Suc_conv_app_nth list_update_append nth_append)
  with Cons.IH[of "nb + 2" ?bs] Cons.prems show ?case
    by (auto simp: step simp del: take_append)
qed

lemma collect_boundaries_Ret:
  assumes "2 * length ins \<le> length bs"
  obtains bs' where "collect_boundaries ins bs = Ret (bs', 2 * length ins)"
    "length bs' = length bs" "take (2 * length ins) bs' = boundaries_of ins"
  using collect_boundaries_aux[of 0 ins bs] assms by (auto simp: collect_boundaries_def)

text \<open>One region too many for the array, and the loop writes past its end.\<close>

lemma collect_boundaries_aux_Oob:
  "length bs < nb + 2 * length ins \<Longrightarrow> exec_fold collect_step ins (bs, nb) = Oob \<or> ins = []"
proof (induction ins arbitrary: bs nb)
  case (Cons r rs)
  show ?case
  proof (cases "nb + 1 < length bs")
    case True
    with Cons.prems have "rs \<noteq> []" by auto
    with True Cons.IH[of "bs[nb := pr_start r, nb + 1 := pr_end r]" "nb + 2"] Cons.prems
    show ?thesis by simp
  next
    case False
    then show ?thesis by (auto simp: array_set_def)
  qed
qed simp

lemma collect_boundaries_Oob:
  "length bs < 2 * length ins \<Longrightarrow> collect_boundaries ins bs = Oob"
  using collect_boundaries_aux_Oob[of bs 0 ins] by (auto simp: collect_boundaries_def)

lemma dedup_boundaries_correct:
  assumes srt: "sorted (take nb b)" and le: "nb \<le> length b"
    and d: "dedup_boundaries b nb = (us, nu)"
  shows "sorted_wrt (<) (take nu us)" and "set (take nu us) = set (take nb b)"
    and "nu \<le> nb" and "length us = length b"
proof -
  let ?P = "\<lambda>i (bs, nu). nu \<le> i \<and> length bs = length b \<and> drop i bs = drop i b
     \<and> sorted_wrt (<) (take nu bs) \<and> set (take nu bs) = set (take i b)
     \<and> (0 < i \<longrightarrow> 0 < nu \<and> bs ! (nu - 1) = b ! (i - 1))"
  let ?f = "\<lambda>i (bs :: u64 list, nu).
     if i = 0 \<or> bs ! i \<noteq> bs ! (nu - 1) then (bs[nu := bs ! i], nu + 1) else (bs, nu)"
  have "?P nb (fold ?f [0..<nb] (b, 0))"
  proof (rule fold_upt_rule[where P = ?P])
    fix i s assume i: "i < nb" and P: "?P i s"
    obtain bs nu where s: "s = (bs, nu)" by force
    from P s have nu: "nu \<le> i" "length bs = length b" "drop i bs = drop i b"
      and so: "sorted_wrt (<) (take nu bs)" and se: "set (take nu bs) = set (take i b)"
      and la: "0 < i \<Longrightarrow> 0 < nu \<and> bs ! (nu - 1) = b ! (i - 1)" by auto
    have bi: "bs ! i = b ! i"
      using nu(3) i le nu(2) by (metis hd_drop_conv_nth order.strict_trans2)
    have dr: "drop (Suc i) bs = drop (Suc i) b"
      using nu(3) by (metis drop_Suc tl_drop)
    have tk: "take (Suc i) b = take i b @ [b ! i]"
      using i le by (simp add: take_Suc_conv_app_nth)
    have mono: "x \<le> b ! i" if "x \<in> set (take i b)" for x
      using srt that i le by (auto simp: in_set_conv_nth sorted_iff_nth_mono)
    show "?P (Suc i) (?f i s)"
    proof (cases "i = 0 \<or> bs ! i \<noteq> bs ! (nu - 1)")
      case True
      have lt: "x < b ! i" if "x \<in> set (take i b)" for x
      proof -
        from that have "0 < i" by (cases i) auto
        with True la bi have ne: "b ! (i - 1) \<noteq> b ! i" by auto
        from that obtain k where "k < i" "x = b ! k"
          using i le by (auto simp: in_set_conv_nth)
        then have "x \<le> b ! (i - 1)"
          using srt i le by (auto simp: sorted_iff_nth_mono)
        moreover have "b ! (i - 1) \<le> b ! i"
          using srt i le by (auto simp: sorted_iff_nth_mono)
        ultimately show ?thesis using ne by auto
      qed
      have "take (Suc nu) (bs[nu := b ! i]) = take nu bs @ [b ! i]"
        using nu i le by (simp add: take_Suc_conv_app_nth)
      then show ?thesis
        using True s bi nu i le dr so se lt tk by (auto simp: sorted_wrt_append)
    next
      case False
      then have "0 < i" "bs ! i = bs ! (nu - 1)" by auto
      moreover from this la bi have "b ! i = b ! (i - 1)" by auto
      moreover have "b ! (i - 1) \<in> set (take i b)"
        using \<open>0 < i\<close> i le by (auto simp: in_set_conv_nth intro!: exI[of _ "i - 1"])
      ultimately show ?thesis
        using False s bi nu i le dr so se la tk by (auto simp: insert_absorb)
    qed
  qed auto
  with d show "sorted_wrt (<) (take nu us)" "set (take nu us) = set (take nb b)"
    "nu \<le> nb" "length us = length b"
    by (auto simp: dedup_boundaries_def)
qed

subsection \<open>The type of a sub-interval\<close>

definition top_region :: "(phys_region \<Rightarrow> bool) \<Rightarrow> phys_region list \<Rightarrow> phys_region option" where
  "top_region P ins = find (\<lambda>r. P r \<and> (\<forall>r' \<in> set ins. P r' \<longrightarrow>
     region_priority (pr_type r') \<le> region_priority (pr_type r))) ins"

lemma top_region_Some:
  "top_region P ins = Some r \<Longrightarrow> r \<in> set ins \<and> P r \<and>
     (\<forall>r' \<in> set ins. P r' \<longrightarrow> region_priority (pr_type r') \<le> region_priority (pr_type r))"
  by (auto simp: top_region_def find_Some_iff)

lemma top_region_snoc:
  assumes "top_region P ins = Some r0" and "P r"
  shows "top_region P (ins @ [r]) =
    (if region_priority (pr_type r) > region_priority (pr_type r0) then Some r else Some r0)"
proof (cases "region_priority (pr_type r) > region_priority (pr_type r0)")
  case True
  then have "find (\<lambda>x. P x \<and> (\<forall>r' \<in> set (ins @ [r]). P r' \<longrightarrow>
     region_priority (pr_type r') \<le> region_priority (pr_type x))) ins = None"
    using top_region_Some[OF assms(1)] assms(2) by (auto simp: find_None_iff)
  with True assms show ?thesis
    using top_region_Some[OF assms(1)] by (fastforce simp: top_region_def find_append)
next
  case False
  have "find (\<lambda>x. P x \<and> (\<forall>r' \<in> set (ins @ [r]). P r' \<longrightarrow>
      region_priority (pr_type r') \<le> region_priority (pr_type x))) ins
    = find (\<lambda>x. P x \<and> (\<forall>r' \<in> set ins. P r' \<longrightarrow>
      region_priority (pr_type r') \<le> region_priority (pr_type x))) ins"
  proof (rule find_cong[OF refl])
    fix x assume "x \<in> set ins"
    then show "(P x \<and> (\<forall>r' \<in> set (ins @ [r]). P r' \<longrightarrow>
        region_priority (pr_type r') \<le> region_priority (pr_type x)))
      = (P x \<and> (\<forall>r' \<in> set ins. P r' \<longrightarrow>
        region_priority (pr_type r') \<le> region_priority (pr_type x)))"
      using top_region_Some[OF assms(1)] False by fastforce
  qed
  with False assms(1) show ?thesis by (simp add: top_region_def find_append)
qed

lemma top_region_snoc_not:
  "\<not> P r \<Longrightarrow> top_region P (ins @ [r]) = top_region P ins"
  by (auto simp: top_region_def find_append split: option.splits)

lemma top_region_snoc_first:
  assumes "\<forall>r \<in> set ins. \<not> P r" and "P r"
  shows "top_region P (ins @ [r]) = Some r"
proof -
  have "find (\<lambda>x. P x \<and> (\<forall>r' \<in> set (ins @ [r]). P r' \<longrightarrow>
      region_priority (pr_type r') \<le> region_priority (pr_type x))) ins = None"
    using assms by (auto simp: find_None_iff)
  with assms show ?thesis by (auto simp: top_region_def find_append)
qed

lemma top_region_None: "top_region P ins = None \<longleftrightarrow> (\<forall>r \<in> set ins. \<not> P r)"
proof
  assume "\<forall>r \<in> set ins. \<not> P r"
  then show "top_region P ins = None" by (auto simp: top_region_def find_None_iff)
next
  have "(\<exists>r \<in> set ins. P r) \<Longrightarrow> top_region P ins \<noteq> None"
  proof (induction ins rule: rev_induct)
    case (snoc r ins)
    show ?case
    proof (cases "top_region P ins")
      case None
      with snoc have nP: "\<forall>r \<in> set ins. \<not> P r" "P r" by auto
      then show ?thesis by (simp add: top_region_snoc_first)
    next
      case (Some r0)
      then show ?thesis by (cases "P r") (auto simp: top_region_snoc top_region_snoc_not)
    qed
  qed simp
  then show "top_region P ins = None \<Longrightarrow> \<forall>r \<in> set ins. \<not> P r" by blast
qed

lemma classify_subrange_top:
  "classify_subrange ins s e =
     (case top_region (\<lambda>r. pr_start r \<le> s \<and> pr_end r \<ge> e) ins of
        None \<Rightarrow> (False, -1, PHYS_REGION_USABLE)
      | Some r \<Rightarrow> (True, region_priority (pr_type r), pr_type r))"
proof (induction ins rule: rev_induct)
  case Nil
  then show ?case by (simp add: classify_subrange_def top_region_def)
next
  case (snoc r ins)
  let ?P = "\<lambda>r. pr_start r \<le> s \<and> pr_end r \<ge> e"
  have prio: "region_priority t > -1" for t by (cases t) auto
  show ?case
  proof (cases "?P r")
    case False
    with snoc show ?thesis
      by (auto simp: classify_subrange_def top_region_snoc_not split: option.splits)
  next
    case True
    show ?thesis
    proof (cases "top_region ?P ins")
      case None
      then have "\<forall>r \<in> set ins. \<not> ?P r" by (simp only: top_region_None)
      then have "top_region ?P (ins @ [r]) = Some r"
        using True by (rule top_region_snoc_first)
      with snoc None True prio[of "pr_type r"] show ?thesis
        by (simp add: classify_subrange_def)
    next
      case (Some r0)
      with snoc True show ?thesis
        by (simp add: classify_subrange_def top_region_snoc[OF Some True])
    qed
  qed
qed

lemma region_type_at_top: "region_type_at ins a = map_option pr_type (top_region (\<lambda>r. covers r a) ins)"
  by (simp add: region_type_at_def top_region_def)

lemma top_region_cong:
  "(\<And>r. r \<in> set ins \<Longrightarrow> P r = Q r) \<Longrightarrow> top_region P ins = top_region Q ins"
  unfolding top_region_def by (intro find_cong) auto

text \<open>Between two neighbouring boundaries, covering one address is covering them all.\<close>

lemma covers_subrange:
  assumes us: "sorted_wrt (<) us" "set us = set (boundaries_of ins)"
    and i: "Suc i < length us" and a: "us ! i \<le> a" "a < us ! Suc i" and r: "r \<in> set ins"
  shows "covers r a \<longleftrightarrow> pr_start r \<le> us ! i \<and> us ! Suc i \<le> pr_end r"
proof -
  from r us(2) obtain k l where k: "k < length us" "us ! k = pr_start r"
    and l: "l < length us" "us ! l = pr_end r"
    by (metis Un_iff image_eqI in_set_conv_nth set_boundaries_of)
  have mono: "us ! x \<le> us ! y" if "x \<le> y" "y < length us" for x y
    using us(1) that by (metis le_neq_implies_less order.refl order_less_imp_le sorted_wrt_nth_less)
  show ?thesis
  proof
    assume "covers r a"
    then have c: "pr_start r \<le> a" "a < pr_end r" by (auto simp: covers_def)
    have "k \<le> i"
    proof (rule ccontr)
      assume "\<not> k \<le> i"
      then have "us ! Suc i \<le> us ! k" using k by (intro mono) auto
      with c a k show False by auto
    qed
    moreover have "Suc i \<le> l"
    proof (rule ccontr)
      assume "\<not> Suc i \<le> l"
      then have "us ! l \<le> us ! i" using i by (intro mono) auto
      with c a l show False by auto
    qed
    ultimately show "pr_start r \<le> us ! i \<and> us ! Suc i \<le> pr_end r"
      using mono[of k i] mono[of "Suc i" l] k l i by auto
  next
    assume "pr_start r \<le> us ! i \<and> us ! Suc i \<le> pr_end r"
    with a show "covers r a" by (auto simp: covers_def)
  qed
qed

lemma classify_subrange_at:
  assumes "sorted_wrt (<) us" "set us = set (boundaries_of ins)"
    and "Suc i < length us" and "us ! i \<le> a" "a < us ! Suc i"
  shows "region_type_at ins a =
    (case classify_subrange ins (us ! i) (us ! Suc i) of (c, p, t) \<Rightarrow> if c then Some t else None)"
proof -
  have "top_region (\<lambda>r. covers r a) ins
      = top_region (\<lambda>r. pr_start r \<le> us ! i \<and> us ! Suc i \<le> pr_end r) ins"
    by (rule top_region_cong) (rule covers_subrange[OF assms])
  then show ?thesis
    by (auto simp: region_type_at_top classify_subrange_top split: option.splits)
qed

subsection \<open>Emitting the map\<close>

lemma region_lookup_simps [simp]:
  "region_lookup [] a = None"
  "region_lookup (r # rs) a = (if covers r a then Some (pr_type r) else region_lookup rs a)"
  by (auto simp: region_lookup_def)

lemma region_lookup_append:
  "region_lookup (xs @ ys) a =
     (case region_lookup xs a of None \<Rightarrow> region_lookup ys a | Some t \<Rightarrow> Some t)"
  by (induction xs) auto

lemma region_lookup_Some:
  "region_lookup rs a = Some t \<Longrightarrow> \<exists>r \<in> set rs. covers r a \<and> pr_type r = t"
  by (induction rs) (auto split: if_splits)

lemma region_lookup_beyond:
  "(\<And>r. r \<in> set rs \<Longrightarrow> pr_end r \<le> a) \<Longrightarrow> region_lookup rs a = None"
  using region_lookup_Some[of rs a] by (cases "region_lookup rs a") (force simp: covers_def)+

lemma wf_map_append:
  "wf_map (xs @ ys) \<longleftrightarrow> wf_map xs \<and> wf_map ys
     \<and> (\<forall>r \<in> set xs. \<forall>r' \<in> set ys. pr_end r \<le> pr_start r')"
  by (auto simp: wf_map_def sorted_wrt_append)

lemma wf_map_single [simp]: "wf_map [r] \<longleftrightarrow> pr_start r < pr_end r"
  by (auto simp: wf_map_def)

text \<open>Neighbours that could be one region are one region.\<close>

definition merged :: "phys_region list \<Rightarrow> bool" where
  "merged = successively (\<lambda>r r'. pr_type r \<noteq> pr_type r' \<or> pr_end r \<noteq> pr_start r')"

definition emit_inv :: "phys_region list \<Rightarrow> u64 list \<Rightarrow> nat \<Rightarrow> phys_region list \<Rightarrow> bool" where
  "emit_inv ins us i out \<longleftrightarrow> wf_map out \<and> merged out \<and> length out \<le> i
     \<and> (\<forall>r \<in> set out. pr_end r \<le> us ! i)
     \<and> (\<forall>a. a < us ! i \<longrightarrow> region_lookup out a = region_type_at ins a)"

lemma emit_inv_skip:
  assumes "emit_inv ins us i out" and "us ! i < us ! Suc i"
    and "\<And>a. us ! i \<le> a \<Longrightarrow> a < us ! Suc i \<Longrightarrow> region_type_at ins a = None"
  shows "emit_inv ins us (Suc i) out"
  unfolding emit_inv_def
proof (intro conjI allI impI)
  fix a assume "a < us ! Suc i"
  with assms show "region_lookup out a = region_type_at ins a"
    by (cases "a < us ! i") (auto simp: emit_inv_def intro!: region_lookup_beyond intro: order.trans)
qed (use assms in \<open>auto simp: emit_inv_def intro: order.trans\<close>)

lemma emit_inv_extend:
  assumes inv: "emit_inv ins us i (out @ [l])" and lt: "us ! i < us ! Suc i"
    and l: "pr_end l = us ! i"
    and t: "\<And>a. us ! i \<le> a \<Longrightarrow> a < us ! Suc i \<Longrightarrow> region_type_at ins a = Some (pr_type l)"
  shows "emit_inv ins us (Suc i) (out @ [l\<lparr>pr_end := us ! Suc i\<rparr>])"
  unfolding emit_inv_def
proof (intro conjI allI impI)
  fix a assume a: "a < us ! Suc i"
  have sl: "pr_start l < us ! i" and oe: "\<And>r. r \<in> set out \<Longrightarrow> pr_end r \<le> pr_start l"
    using inv l by (auto simp: emit_inv_def wf_map_append)
  show "region_lookup (out @ [l\<lparr>pr_end := us ! Suc i\<rparr>]) a = region_type_at ins a"
  proof (cases "a < us ! i")
    case True
    then have "covers (l\<lparr>pr_end := us ! Suc i\<rparr>) a = covers l a"
      using l a by (auto simp: covers_def)
    then have "region_lookup [l\<lparr>pr_end := us ! Suc i\<rparr>] a = region_lookup [l] a" by simp
    moreover have "region_lookup (out @ [l]) a = region_type_at ins a"
      using inv True by (auto simp: emit_inv_def)
    ultimately show ?thesis by (simp only: region_lookup_append)
  next
    case False
    then have "region_lookup out a = None"
      using oe sl by (intro region_lookup_beyond) (meson order.trans less_imp_le not_le)
    with False a sl t show ?thesis by (auto simp: region_lookup_append covers_def)
  qed
qed (use inv lt l in \<open>auto simp: emit_inv_def wf_map_append merged_def successively_append_iff
      intro: order.trans less_imp_le\<close>)

lemma emit_inv_new:
  assumes inv: "emit_inv ins us i out" and lt: "us ! i < us ! Suc i"
    and t: "\<And>a. us ! i \<le> a \<Longrightarrow> a < us ! Suc i \<Longrightarrow> region_type_at ins a = Some ty"
    and nl: "out \<noteq> [] \<Longrightarrow> pr_type (last out) \<noteq> ty \<or> pr_end (last out) \<noteq> us ! i"
  shows "emit_inv ins us (Suc i) (out @ [\<lparr>pr_start = us ! i, pr_end = us ! Suc i, pr_type = ty\<rparr>])"
  unfolding emit_inv_def
proof (intro conjI allI impI)
  fix a assume a: "a < us ! Suc i"
  show "region_lookup (out @ [\<lparr>pr_start = us ! i, pr_end = us ! Suc i, pr_type = ty\<rparr>]) a
      = region_type_at ins a"
  proof (cases "a < us ! i")
    case True
    then show ?thesis
      using inv by (auto simp: emit_inv_def region_lookup_append covers_def split: option.splits)
  next
    case False
    then have "region_lookup out a = None"
      using inv by (intro region_lookup_beyond) (auto simp: emit_inv_def intro: order.trans)
    with False a t show ?thesis by (auto simp: region_lookup_append covers_def)
  qed
qed (use inv lt nl in \<open>auto simp: emit_inv_def wf_map_append merged_def successively_append_iff
      intro: order.trans less_imp_le\<close>)

lemma emit_subrange_inv:
  assumes us: "sorted_wrt (<) us" "set us = set (boundaries_of ins)" and i: "Suc i < length us"
    and inv: "emit_inv ins us i out"
  shows "(\<exists>out'. emit_subrange ins out_max us i out = Ret out' \<and> emit_inv ins us (Suc i) out')
    \<or> (out_max \<le> length out \<and> (\<exists>s. emit_subrange ins out_max us i out = Panic s))"
proof -
  obtain c p t where cl: "classify_subrange ins (us ! i) (us ! Suc i) = (c, p, t)"
    by (cases "classify_subrange ins (us ! i) (us ! Suc i)") auto
  have lt: "us ! i < us ! Suc i" using us(1) i by (simp add: sorted_wrt_nth_less)
  have at: "region_type_at ins a = (if c then Some t else None)"
    if "us ! i \<le> a" "a < us ! Suc i" for a
    using classify_subrange_at[OF us i that] cl by simp
  consider (skip) "\<not> c"
    | (extend) out' l where "c" "out = out' @ [l]" "pr_type l = t" "pr_end l = us ! i"
    | (new) "c" "out = [] \<or> pr_type (last out) \<noteq> t \<or> pr_end (last out) \<noteq> us ! i"
    by (metis append_butlast_last_id)
  then show ?thesis
  proof cases
    case skip
    with emit_inv_skip[OF inv lt] at cl show ?thesis by (simp add: emit_subrange_def)
  next
    case extend
    with emit_inv_extend[of ins us i out' l] inv lt at cl show ?thesis
      by (simp add: emit_subrange_def)
  next
    case new
    with emit_inv_new[OF inv lt, of t] at cl show ?thesis
      by (auto simp: emit_subrange_def Let_def)
  qed
qed

subsection \<open>The whole pass\<close>

text \<open>The boundaries as the emitting loop sees them.\<close>

lemma sanitize_boundaries:
  assumes "length ins \<le> PHYS_REGION_MAX_SIZE"
  obtains bs us nu where
    "collect_boundaries ins (replicate (PHYS_REGION_MAX_SIZE * 2) 0) = Ret (bs, 2 * length ins)"
    "dedup_boundaries (sort_u64 bs (2 * length ins)) (2 * length ins) = (us, nu)"
    "sorted_wrt (<) (take nu us)" "set (take nu us) = set (boundaries_of ins)"
    "nu \<le> 2 * length ins" "nu \<le> length us"
proof -
  obtain bs where bs: "collect_boundaries ins (replicate (PHYS_REGION_MAX_SIZE * 2) 0)
      = Ret (bs, 2 * length ins)" "length bs = PHYS_REGION_MAX_SIZE * 2"
      "take (2 * length ins) bs = boundaries_of ins"
    using collect_boundaries_Ret[of ins "replicate (PHYS_REGION_MAX_SIZE * 2) 0"] assms by auto
  have le: "2 * length ins \<le> length bs" using bs(2) assms by simp
  obtain us nu where d: "dedup_boundaries (sort_u64 bs (2 * length ins)) (2 * length ins) = (us, nu)"
    by force
  note srt = sort_u64_correct[OF le]
  have "set (take (2 * length ins) (sort_u64 bs (2 * length ins))) = set (boundaries_of ins)"
    using srt(2) bs(3) by (metis set_mset_mset)
  with dedup_boundaries_correct[OF srt(1) _ d] srt(4) le bs d show thesis
    by (intro that[of bs us nu]) auto
qed

lemma region_type_at_outside:
  assumes us: "sorted_wrt (<) us" "set us = set (boundaries_of ins)" and ne: "us \<noteq> []"
    and a: "a < us ! 0 \<or> us ! (length us - 1) \<le> a"
  shows "region_type_at ins a = None"
proof -
  have mono: "us ! x \<le> us ! y" if "x \<le> y" "y < length us" for x y
    using us(1) that by (metis le_neq_implies_less order.refl order_less_imp_le sorted_wrt_nth_less)
  have "us ! 0 \<le> b \<and> b \<le> us ! (length us - 1)" if "b \<in> set us" for b
    using that ne by (auto simp: in_set_conv_nth intro!: mono)
  then have "\<not> covers r a" if "r \<in> set ins" for r
    using that us(2) a by (force simp: covers_def set_boundaries_of)
  then show ?thesis by (simp add: region_type_at_top top_region_None)
qed

lemma emit_inv_final:
  assumes "sorted_wrt (<) us" "set us = set (boundaries_of ins)" "us \<noteq> []"
    and "emit_inv ins us (length us - 1) out"
  shows "wf_map out \<and> merged out \<and> (\<forall>a. region_lookup out a = region_type_at ins a)"
proof (intro conjI allI)
  fix a
  show "region_lookup out a = region_type_at ins a"
  proof (cases "a < us ! (length us - 1)")
    case False
    then have "region_lookup out a = None"
      using assms(4) by (intro region_lookup_beyond) (auto simp: emit_inv_def intro: order.trans)
    with False region_type_at_outside[OF assms(1-3), of a] show ?thesis by (simp add: not_less)
  qed (use assms in \<open>auto simp: emit_inv_def\<close>)
qed (use assms in \<open>auto simp: emit_inv_def\<close>)

lemma emit_subrange_take:
  "Suc i < nu \<Longrightarrow> emit_subrange ins m (take nu us) i out = emit_subrange ins m us i out"
  by (simp add: emit_subrange_def)

lemma emit_inv_start:
  assumes "sorted_wrt (<) us" "set us = set (boundaries_of ins)" "us \<noteq> []"
  shows "emit_inv ins us 0 []"
  using region_type_at_outside[OF assms] by (auto simp: emit_inv_def wf_map_def merged_def)

lemma emit_loop_inv:
  assumes us: "sorted_wrt (<) (take nu us)" "set (take nu us) = set (boundaries_of ins)"
    and nu: "0 < nu" "nu \<le> length us"
  shows "exec_fold (emit_subrange ins m us) [0..<nu - 1] [] = Ret out \<Longrightarrow>
      emit_inv ins (take nu us) (nu - 1) out"
    and "nu \<le> m + 1 \<Longrightarrow> \<exists>out. exec_fold (emit_subrange ins m us) [0..<nu - 1] [] = Ret out"
proof -
  let ?vs = "take nu us"
  have len: "length ?vs = nu" and ne: "?vs \<noteq> []" using nu by auto
  note start = emit_inv_start[OF us ne]
  have step: "(\<exists>out'. emit_subrange ins m us i out = Ret out' \<and> emit_inv ins ?vs (Suc i) out')
      \<or> (m \<le> length out \<and> (\<exists>s. emit_subrange ins m us i out = Panic s))"
    if "i < nu - 1" "emit_inv ins ?vs i out" for i out
    using emit_subrange_inv[OF us _ that(2), of m] that(1) nu by (simp add: emit_subrange_take less_diff_conv)
  show "emit_inv ins ?vs (nu - 1) out"
    if "exec_fold (emit_subrange ins m us) [0..<nu - 1] [] = Ret out"
    by (rule exec_fold_upt_partial[where P = "emit_inv ins ?vs", OF that _ start])
       (use step in \<open>fastforce+\<close>)
  show "\<exists>out. exec_fold (emit_subrange ins m us) [0..<nu - 1] [] = Ret out" if "nu \<le> m + 1"
  proof -
    have "\<exists>out. exec_fold (emit_subrange ins m us) [0..<nu - 1] [] = Ret out
        \<and> emit_inv ins ?vs (nu - 1) out"
    proof (rule exec_fold_upt_rule[where P = "emit_inv ins ?vs"])
      fix i out assume i: "i < nu - 1" and inv: "emit_inv ins ?vs i out"
      then have "length out < m" using that by (auto simp: emit_inv_def)
      with step[OF i inv] show "\<exists>s'. emit_subrange ins m us i out = Ret s' \<and> emit_inv ins ?vs (Suc i) s'"
        by auto
    qed (use start in auto)
    then show ?thesis by blast
  qed
qed

lemma sanitize_memory_map_sound:
  assumes "pmm_sanitize_memory_map ins out_max = Ret out"
  shows "wf_map out \<and> merged out \<and> (\<forall>a. region_lookup out a = region_type_at ins a)"
proof (cases "ins = []")
  case True
  with assms show ?thesis
    by (auto simp: pmm_sanitize_memory_map_def wf_map_def merged_def region_type_at_def)
next
  case False
  show ?thesis
  proof (cases "length ins \<le> PHYS_REGION_MAX_SIZE")
    case True
    from True obtain bs us nu where
      bs: "collect_boundaries ins (replicate (PHYS_REGION_MAX_SIZE * 2) 0) = Ret (bs, 2 * length ins)"
      and d: "dedup_boundaries (sort_u64 bs (2 * length ins)) (2 * length ins) = (us, nu)"
      and us: "sorted_wrt (<) (take nu us)" "set (take nu us) = set (boundaries_of ins)"
      and nu: "nu \<le> 2 * length ins" "nu \<le> length us"
      by (rule sanitize_boundaries)
    have "0 < nu" using us(2) \<open>ins \<noteq> []\<close> by (cases ins; cases nu) auto
    moreover have "exec_fold (emit_subrange ins out_max us) [0..<nu - 1] [] = Ret out"
      using assms \<open>ins \<noteq> []\<close> d bs[simplified] by (simp add: pmm_sanitize_memory_map_def)
    ultimately have "emit_inv ins (take nu us) (length (take nu us) - 1) out"
      using emit_loop_inv(1)[OF us] nu(2) by (simp add: min_absorb2)
    with \<open>0 < nu\<close> nu(2) show ?thesis by (intro emit_inv_final[OF us]) auto
  next
    case False
    then have "collect_boundaries ins (replicate (PHYS_REGION_MAX_SIZE * 2) 0) = Oob"
      by (intro collect_boundaries_Oob) simp
    with assms \<open>ins \<noteq> []\<close> show ?thesis by (simp add: pmm_sanitize_memory_map_def)
  qed
qed

lemma sanitize_memory_map_total:
  assumes "length ins \<le> PHYS_REGION_MAX_SIZE" and "2 * length ins \<le> out_max + 1"
  shows "\<exists>out. pmm_sanitize_memory_map ins out_max = Ret out"
proof (cases "ins = []")
  case True
  then show ?thesis by (simp add: pmm_sanitize_memory_map_def)
next
  case False
  from assms(1) obtain bs us nu where
    bs: "collect_boundaries ins (replicate (PHYS_REGION_MAX_SIZE * 2) 0) = Ret (bs, 2 * length ins)"
    and d: "dedup_boundaries (sort_u64 bs (2 * length ins)) (2 * length ins) = (us, nu)"
    and us: "sorted_wrt (<) (take nu us)" "set (take nu us) = set (boundaries_of ins)"
    and nu: "nu \<le> 2 * length ins" "nu \<le> length us"
    by (rule sanitize_boundaries)
  have "0 < nu" using us(2) False by (cases ins; cases nu) auto
  with emit_loop_inv(2)[OF us this nu(2), of out_max] nu assms(2) False show ?thesis
    using d bs[simplified] by (auto simp: pmm_sanitize_memory_map_def)
qed

lemma sanitize_memory_map_Oob:
  "PHYS_REGION_MAX_SIZE < length ins \<Longrightarrow> pmm_sanitize_memory_map ins out_max = Oob"
  using collect_boundaries_Oob[of "replicate (PHYS_REGION_MAX_SIZE * 2) 0" ins]
  by (auto simp: pmm_sanitize_memory_map_def)

lemma sanitize_memory_map_length:
  assumes "pmm_sanitize_memory_map ins out_max = Ret out"
  shows "length out \<le> out_max"
proof (cases "ins = []")
  case False
  with assms obtain us nu where
    e: "exec_fold (emit_subrange ins out_max us) [0..<nu - 1] [] = Ret out"
    by (auto simp: pmm_sanitize_memory_map_def exec_bind_Ret_iff case_prod_beta Let_def)
  show ?thesis
    by (rule exec_fold_upt_partial[OF e, where P = "\<lambda>_ out. length out \<le> out_max"])
       (auto simp: emit_subrange_def Let_def split: prod.splits if_splits)
qed (use assms in \<open>simp add: pmm_sanitize_memory_map_def\<close>)

subsection \<open>Reading the e820 table\<close>

definition e820_region :: "e820_entry \<Rightarrow> phys_region" where
  "e820_region e = \<lparr>pr_start = e820_base e, pr_end = e820_base e + e820_len e,
     pr_type = e820_region_type (e820_type e)\<rparr>"

definition e820_regions :: "u16 \<Rightarrow> (nat \<Rightarrow> e820_entry) \<Rightarrow> phys_region list" where
  "e820_regions nr entry =
     map e820_region (filter (\<lambda>e. e820_len e \<noteq> 0) (map entry [0..<unat nr]))"

lemma arch_get_memory_map_regions:
  assumes "arch_get_memory_map nr entry rs = Ret (rs', n)"
  shows "length rs' = length rs \<and> n \<le> length rs \<and> take n rs' = e820_regions nr entry"
proof -
  let ?P = "\<lambda>k (xs, n). length xs = length rs \<and> n \<le> length rs
     \<and> take n xs = map e820_region (filter (\<lambda>e. e820_len e \<noteq> 0) (map entry [0..<k]))"
  have "?P (unat nr) (rs', n)"
    by (rule exec_fold_upt_partial[OF assms[unfolded arch_get_memory_map_def], where P = ?P])
       (auto simp: phys_region_push_def exec_simps e820_region_def take_Suc_conv_app_nth
         split: if_splits)
  then show ?thesis by (simp add: e820_regions_def)
qed

subsection \<open>Usable frames\<close>

text \<open>Physical addresses have at most 52 bits on this architecture.\<close>

definition phys_bounded :: "phys_region list \<Rightarrow> bool" where
  "phys_bounded rs \<longleftrightarrow> (\<forall>r \<in> set rs. unat (pr_end r) \<le> 2 ^ 52)"

text \<open>A whole page of one usable region, above the first megabyte.\<close>

definition frame_in :: "phys_region \<Rightarrow> u64 \<Rightarrow> bool" where
  "frame_in r f \<longleftrightarrow> pr_type r = PHYS_REGION_USABLE \<and> 4096 dvd unat f \<and> 0x100000 \<le> unat f
     \<and> unat (pr_start r) \<le> unat f \<and> unat f + 4096 \<le> unat (pr_end r)"

text \<open>A page above the first megabyte that an unsanitised map makes usable, byte by byte.\<close>

definition usable_frame :: "phys_region list \<Rightarrow> u64 \<Rightarrow> bool" where
  "usable_frame ins f \<longleftrightarrow> 4096 dvd unat f \<and> 0x100000 \<le> unat f
     \<and> (\<forall>k < 4096. region_type_at ins (f + of_nat k) = Some PHYS_REGION_USABLE)"

lemma region_lookup_in:
  "wf_map rs \<Longrightarrow> r \<in> set rs \<Longrightarrow> covers r a \<Longrightarrow> region_lookup rs a = Some (pr_type r)"
  by (induction rs) (fastforce simp: wf_map_def covers_def)+

lemma merged_no_neighbour:
  "wf_map rs \<Longrightarrow> merged rs \<Longrightarrow> r \<in> set rs \<Longrightarrow> r' \<in> set rs \<Longrightarrow> pr_type r' = pr_type r \<Longrightarrow>
     \<not> covers r' (pr_end r)"
proof (induction rs)
  case (Cons x xs)
  have wf: "wf_map xs" "\<And>y. y \<in> set xs \<Longrightarrow> pr_end x \<le> pr_start y \<and> pr_start y < pr_end y"
    using Cons.prems(1) by (auto simp: wf_map_def)
  have m: "merged xs" using Cons.prems(2) by (cases xs) (auto simp: merged_def)
  consider "r \<in> set xs" "r' \<in> set xs" | "r' = x" | "r = x" "r' \<in> set xs" using Cons.prems by auto
  then show ?case
  proof cases
    case 1
    then show ?thesis using Cons.IH[OF wf(1) m] Cons.prems by blast
  next
    case 2
    then show ?thesis using wf(2) Cons.prems(3) by (fastforce simp: covers_def)
  next
    case 3
    then obtain y ys where xs: "xs = y # ys" by (cases xs) auto
    have y: "pr_end y \<le> pr_start r'" if "r' \<noteq> y"
      using that 3 wf(1) xs by (auto simp: wf_map_def)
    show ?thesis
    proof
      assume c: "covers r' (pr_end r)"
      with 3 wf(2) have s: "pr_start r' = pr_end x" by (fastforce simp: covers_def)
      have "r' = y" using y s wf(2)[of y] xs by fastforce
      with s 3 xs Cons.prems(2,5) show False by (auto simp: merged_def)
    qed
  qed
qed simp

lemma frames_exact:
  assumes wf: "wf_map out" "merged out" and eq: "\<And>a. region_lookup out a = region_type_at ins a"
  shows "(\<exists>r \<in> set out. frame_in r f) \<longleftrightarrow> usable_frame ins f"
proof
  assume "\<exists>r \<in> set out. frame_in r f"
  then obtain r where r: "r \<in> set out" "frame_in r f" by blast
  then have "covers r (f + of_nat k)" if "k < 4096" for k
    using unat_add_frame[OF _ that, of f] that
    by (auto simp: frame_in_def covers_def word_le_nat_alt word_less_nat_alt)
  with r region_lookup_in[OF wf(1) r(1)] show "usable_frame ins f"
    by (auto simp: usable_frame_def eq[symmetric] frame_in_def)
next
  assume u: "usable_frame ins f"
  then have l: "region_lookup out (f + of_nat k) = Some PHYS_REGION_USABLE" if "k < 4096" for k
    using that by (auto simp: usable_frame_def eq)
  obtain r where r: "r \<in> set out" "covers r f" "pr_type r = PHYS_REGION_USABLE"
    using region_lookup_Some[OF l[of 0]] by auto
  have "unat f + 4096 \<le> unat (pr_end r)"
  proof (rule ccontr)
    let ?k = "unat (pr_end r) - unat f"
    assume "\<not> ?thesis"
    with r(2) have k: "?k < 4096" by (auto simp: covers_def word_less_nat_alt)
    have "f + of_nat ?k = pr_end r"
      using r(2) by (auto simp: covers_def word_less_nat_alt)
    with region_lookup_Some[OF l[OF k]] obtain r' where
      "r' \<in> set out" "covers r' (pr_end r)" "pr_type r' = PHYS_REGION_USABLE" by auto
    with merged_no_neighbour[OF wf r(1)] r(3) show False by auto
  qed
  with r u show "\<exists>r \<in> set out. frame_in r f"
    by (auto simp: frame_in_def usable_frame_def covers_def word_le_nat_alt)
qed

lemma sanitize_phys_bounded:
  assumes wf: "wf_map out" and eq: "\<And>a. region_lookup out a = region_type_at ins a"
    and b: "phys_bounded ins"
  shows "phys_bounded out"
  unfolding phys_bounded_def
proof
  fix r assume r: "r \<in> set out"
  then have "pr_start r < pr_end r" using wf by (auto simp: wf_map_def)
  then have "pr_end r \<noteq> 0" by auto
  then have u: "unat (pr_end r - 1) = unat (pr_end r) - 1" "0 < unat (pr_end r)"
    by (simp_all add: unat_minus_one unat_gt_0)
  with \<open>pr_start r < pr_end r\<close> have "covers r (pr_end r - 1)"
    by (auto simp: covers_def word_less_nat_alt word_le_nat_alt)
  from region_lookup_in[OF wf r this] obtain r' where "r' \<in> set ins" "covers r' (pr_end r - 1)"
    unfolding eq region_type_at_top by (auto dest: top_region_Some)
  with b u show "unat (pr_end r) \<le> 2 ^ 52"
    by (auto simp: phys_bounded_def covers_def word_less_nat_alt dest!: bspec)
qed

section \<open>Properties\<close>

text \<open>
  C10. The sanitised memory map is exact: it is sorted, its regions are disjoint and non-empty,
  neighbours of one type are merged, and it gives every one of the \<open>2 ^ 64\<close> addresses the type
  of the first highest-priority input region that covers it, and no type where none does. The
  pass returns such a map whenever the input has at most 128 regions and at most
  \<^verbatim>\<open>out_max\<close> sub-intervals can arise from it.
\<close>

theorem sanitize_memory_map_exact:
  assumes "length ins \<le> PHYS_REGION_MAX_SIZE"
  shows "(2 * length ins \<le> out_max + 1 \<longrightarrow> (\<exists>out. pmm_sanitize_memory_map ins out_max = Ret out))
    \<and> (\<forall>out. pmm_sanitize_memory_map ins out_max = Ret out \<longrightarrow>
         wf_map out \<and> merged out \<and> (\<forall>a. region_lookup out a = region_type_at ins a))"
  using sanitize_memory_map_sound sanitize_memory_map_total[OF assms] by blast

theorem sanitize_memory_map_exact_witness:
  "let ins = [\<lparr>pr_start = 0, pr_end = 0x9000, pr_type = PHYS_REGION_USABLE\<rparr>,
      \<lparr>pr_start = 0x4000, pr_end = 0x6000, pr_type = PHYS_REGION_RESERVED\<rparr>];
     out = [\<lparr>pr_start = 0, pr_end = 0x4000, pr_type = PHYS_REGION_USABLE\<rparr>,
      \<lparr>pr_start = 0x4000, pr_end = 0x6000, pr_type = PHYS_REGION_RESERVED\<rparr>,
      \<lparr>pr_start = 0x6000, pr_end = 0x9000, pr_type = PHYS_REGION_USABLE\<rparr>]
   in length ins \<le> PHYS_REGION_MAX_SIZE \<and> pmm_sanitize_memory_map ins 128 = Ret out
      \<and> wf_map out \<and> merged out \<and> (\<forall>a. region_lookup out a = region_type_at ins a)"
proof -
  have h: "pmm_sanitize_memory_map
     [\<lparr>pr_start = 0, pr_end = 0x9000, pr_type = PHYS_REGION_USABLE\<rparr>,
      \<lparr>pr_start = 0x4000, pr_end = 0x6000, pr_type = PHYS_REGION_RESERVED\<rparr>] 128
   = Ret [\<lparr>pr_start = 0, pr_end = 0x4000, pr_type = PHYS_REGION_USABLE\<rparr>,
      \<lparr>pr_start = 0x4000, pr_end = 0x6000, pr_type = PHYS_REGION_RESERVED\<rparr>,
      \<lparr>pr_start = 0x6000, pr_end = 0x9000, pr_type = PHYS_REGION_USABLE\<rparr>]"
    by code_simp
  have l: "length [\<lparr>pr_start = 0, pr_end = 0x9000, pr_type = PHYS_REGION_USABLE\<rparr>,
      \<lparr>pr_start = 0x4000, pr_end = 0x6000, pr_type = PHYS_REGION_RESERVED\<rparr>] \<le> PHYS_REGION_MAX_SIZE"
    by simp
  from sanitize_memory_map_exact[OF l, of 128] h show ?thesis by (simp add: Let_def)
qed

text \<open>
  C39. The static array \<^verbatim>\<open>boundaries\<close> is one region too short: with more than 128 input
  regions, which is what a full e820 table and the kernel's own region make, the pass writes
  past its end.
\<close>

theorem sanitize_memory_map_overflow:
  assumes "PHYS_REGION_MAX_SIZE < length ins"
  shows "pmm_sanitize_memory_map ins out_max = Oob"
  using assms by (rule sanitize_memory_map_Oob)

theorem sanitize_memory_map_overflow_witness:
  "pmm_sanitize_memory_map (replicate (PHYS_REGION_MAX_SIZE + 1)
      \<lparr>pr_start = 0, pr_end = 0x1000, pr_type = PHYS_REGION_USABLE\<rparr>) PHYS_REGION_MAX_SIZE = Oob"
  by (rule sanitize_memory_map_overflow) simp

end
