(* ===== verification/Early_pmm.thy ===== *)
theory Early_pmm
  imports Memory_Map Frame_Source
begin

text \<open>
  The boot-time frame allocator of \<^verbatim>\<open>mm/early_pmm.c\<close>: a cursor that walks the usable
  regions of the sanitised memory map and never gives a frame back. It serves
  \<^verbatim>\<open>pmm_current_alloc_frame\<close> until \<^verbatim>\<open>pmm_init\<close> installs the bitmap allocator.
\<close>

section \<open>State and operations\<close>

text \<open>
  \<open>clean\<close> holds the first \<^verbatim>\<open>clean_count\<close> entries of the C array. \<^verbatim>\<open>pa.reg\<close> is
  null or points to an entry of it, so it is an optional index.
\<close>

record early_pmm =
  clean :: "phys_region list"
  pa_reg :: "u64 option"
  pa_idx :: u64
  pa_cursor :: u64

definition clean_count :: "early_pmm \<Rightarrow> u64" where
  "clean_count st = of_nat (length (clean st))"

definition max_u64 :: "u64 \<Rightarrow> u64 \<Rightarrow> u64" where
  "max_u64 a b = (if a > b then a else b)"

definition early_pmm_get_max_usable :: "early_pmm \<Rightarrow> u64" where
  "early_pmm_get_max_usable st =
     fold (\<lambda>r m. if pr_type r \<noteq> PHYS_REGION_USABLE then m else pr_end r) (clean st) 0"

definition ealry_pmm_get_cursor :: "early_pmm \<Rightarrow> u64" where
  "ealry_pmm_get_cursor st = pa_cursor st"

text \<open>The search loop of \<^verbatim>\<open>pa_next\<close>: the first usable region from \<open>i\<close> on.\<close>

function pa_next_from :: "phys_region list \<Rightarrow> u64 \<Rightarrow> u64 option" where
  "pa_next_from rs i =
     (if i < of_nat (length rs) then
        (if pr_type (rs ! unat i) \<noteq> PHYS_REGION_USABLE then pa_next_from rs (i + 1)
         else if pr_end (rs ! unat i) \<le> MIN_USABLE_PADDR then pa_next_from rs (i + 1)
         else Some i)
      else None)"
  by pat_completeness auto
termination
  by (relation "measure (\<lambda>(rs, i). unat (of_nat (length rs) :: u64) - unat i)")
     (auto simp: unat_Suc_less word_less_nat_alt)

definition pa_next :: "early_pmm \<Rightarrow> early_pmm" where
  "pa_next st =
     (case pa_next_from (clean st) (pa_idx st + 1) of
        Some i \<Rightarrow> st\<lparr>pa_reg := Some i, pa_idx := i,
          pa_cursor := PAGE_ALIGN_UP (max_u64 MIN_USABLE_PADDR (pr_start (clean st ! unat i)))\<rparr>
      | None \<Rightarrow> st\<lparr>pa_reg := None, pa_idx := clean_count st\<rparr>)"

definition pa_init :: "early_pmm \<Rightarrow> early_pmm" where
  "pa_init st = pa_next (st\<lparr>pa_idx := - 1\<rparr>)"

declare pa_next_from.simps [simp del]

text \<open>
  What \<^verbatim>\<open>arch_get_memory_map\<close> returns is passed in as the entries of \<^verbatim>\<open>raw\<close> and
  their count, and \<open>kernel_end\<close> is the address of the linker symbol \<^verbatim>\<open>_kernel_end\<close>.
\<close>

abbreviation KERNEL_START_PHYS_ADDR :: u64 where "KERNEL_START_PHYS_ADDR \<equiv> 0x1000000"
abbreviation KERNEL_START_VIRT_ADDR :: u64 where "KERNEL_START_VIRT_ADDR \<equiv> 0xFFFFFFFF81000000"

definition kernel_region :: "u64 \<Rightarrow> phys_region" where
  "kernel_region kernel_end =
     \<lparr>pr_start = PAGE_ALIGN_DOWN KERNEL_START_PHYS_ADDR,
      pr_end = PAGE_ALIGN_UP (KERNEL_START_PHYS_ADDR + kernel_end - KERNEL_START_VIRT_ADDR),
      pr_type = PHYS_REGION_RESERVED\<rparr>"

definition early_pmm_init ::
    "u16 \<Rightarrow> (nat \<Rightarrow> e820_entry) \<Rightarrow> u64 \<Rightarrow> phys_region list \<Rightarrow> early_pmm \<Rightarrow> (int \<times> early_pmm) exec" where
  "early_pmm_init nr entry kernel_end raw st =
     exec_bind (arch_get_memory_map nr entry raw) (\<lambda>(raw1, raw_count).
     exec_bind (array_set raw1 raw_count (kernel_region kernel_end)) (\<lambda>raw2.
     exec_bind (pmm_sanitize_memory_map (take (raw_count + 1) raw2) PHYS_REGION_MAX_SIZE) (\<lambda>out.
       let st1 = st\<lparr>clean := out\<rparr> in
       if raw_count + 1 = 0 \<or> clean_count st1 = 0 then Ret (- EINVAL, st1)
       else let st2 = pa_init st1 in
         if pa_reg st2 = None then Ret (- ENOMEM, st2) else Ret (0, st2))))"

text \<open>The regions still to visit; it bounds the \<^verbatim>\<open>while (pa.reg)\<close> loops.\<close>

definition pa_left :: "early_pmm \<Rightarrow> nat" where
  "pa_left st = (case pa_reg st of None \<Rightarrow> 0
     | Some r \<Rightarrow> Suc (unat (clean_count st) - unat (pa_idx st + 1)))"

definition visited_region :: "phys_region \<Rightarrow> bool" where
  "visited_region r \<longleftrightarrow> pr_type r = PHYS_REGION_USABLE \<and> MIN_USABLE_PADDR < pr_end r"

lemma pa_next_from_step:
  "pa_next_from rs i =
     (if i < of_nat (length rs)
      then (if visited_region (rs ! unat i) then Some i else pa_next_from rs (i + 1)) else None)"
  by (subst pa_next_from.simps) (auto simp: visited_region_def)

lemma pa_next_from_induct:
  assumes "\<And>rs (i :: u64). (i < of_nat (length rs) \<Longrightarrow> \<not> visited_region (rs ! unat i) \<Longrightarrow> P rs (i + 1)) \<Longrightarrow> P rs i"
  shows "P rs i"
proof (induction rs i rule: pa_next_from.induct)
  case (1 rs i)
  show ?case
    by (rule assms) (use 1 in \<open>auto simp: visited_region_def not_less\<close>)
qed

lemma pa_next_from_Some:
  "pa_next_from rs i = Some j \<Longrightarrow> unat i \<le> unat j \<and> j < of_nat (length rs)
     \<and> visited_region (rs ! unat j) \<and> (\<forall>k. unat i \<le> k \<and> k < unat j \<longrightarrow> \<not> visited_region (rs ! k))"
proof (induction rs i rule: pa_next_from_induct)
  case (1 rs i)
  show ?case
  proof (cases "i < of_nat (length rs) \<and> \<not> visited_region (rs ! unat i)")
    case True
    then have s: "unat (i + 1) = Suc (unat i)" by (auto simp: unat_Suc_less)
    from True "1.prems" have "pa_next_from rs (i + 1) = Some j"
      by (simp add: pa_next_from_step[of rs i])
    with True "1.IH" show ?thesis by (auto simp: s Suc_le_eq) (metis le_neq_implies_less)
  qed (use "1.prems" in \<open>auto simp: pa_next_from_step[of rs i] split: if_splits\<close>)
qed

lemma pa_next_from_None:
  "pa_next_from rs i = None \<Longrightarrow> unat i \<le> k \<Longrightarrow> k < unat (of_nat (length rs) :: u64) \<Longrightarrow>
     \<not> visited_region (rs ! k)"
proof (induction rs i rule: pa_next_from_induct)
  case (1 rs i)
  then have i: "i < of_nat (length rs)" by (auto simp: word_less_nat_alt)
  then have s: "unat (i + 1) = Suc (unat i)" by (auto simp: unat_Suc_less)
  from i "1.prems"(1) have n: "pa_next_from rs (i + 1) = None" and bad: "\<not> visited_region (rs ! unat i)"
    by (auto simp: pa_next_from_step[of rs i] split: if_splits)
  show ?case
  proof (cases "k = unat i")
    case False
    with "1.prems" have "unat (i + 1) \<le> k" by (simp add: s)
    with i bad n "1.IH" "1.prems" show ?thesis by blast
  qed (use bad in simp)
qed

lemma pa_next_left: "pa_reg st = Some r \<Longrightarrow> pa_left (pa_next st) < pa_left st"
  by (auto simp: pa_left_def pa_next_def clean_count_def unat_Suc_less word_less_nat_alt word_le_nat_alt
      split: option.split dest!: pa_next_from_Some)

function early_pmm_alloc_frame :: "early_pmm \<Rightarrow> u64 \<times> early_pmm" where
  "early_pmm_alloc_frame st =
     (case pa_reg st of
        None \<Rightarrow> (0, st)
      | Some r \<Rightarrow>
          if pa_cursor st + PAGE_SIZE \<le> pr_end (clean st ! unat r)
          then (pa_cursor st, st\<lparr>pa_cursor := pa_cursor st + PAGE_SIZE\<rparr>)
          else early_pmm_alloc_frame (pa_next st))"
  by pat_completeness auto
termination by (relation "measure pa_left") (auto simp: pa_next_left)

function early_pmm_alloc_continuous_frames :: "u64 \<Rightarrow> early_pmm \<Rightarrow> u64 \<times> early_pmm" where
  "early_pmm_alloc_continuous_frames nr st =
     (let sz = PAGE_SIZE * nr in
      case pa_reg st of
        None \<Rightarrow> (0, st)
      | Some r \<Rightarrow>
          if pa_cursor st + sz \<le> pr_end (clean st ! unat r)
          then (pa_cursor st, st\<lparr>pa_cursor := pa_cursor st + sz\<rparr>)
          else early_pmm_alloc_continuous_frames nr (pa_next st))"
  by pat_completeness auto
termination by (relation "measure (pa_left \<circ> snd)") (auto simp: pa_next_left)

declare early_pmm_alloc_frame.simps [simp del] early_pmm_alloc_continuous_frames.simps [simp del]

lemma early_pmm_alloc_frame_eq:
  "early_pmm_alloc_frame st = early_pmm_alloc_continuous_frames 1 st"
  by (induction st rule: early_pmm_alloc_frame.induct)
     (subst early_pmm_alloc_frame.simps, subst early_pmm_alloc_continuous_frames.simps,
      auto simp: Let_def split: option.split)

section \<open>Invariant and available frames\<close>

definition region_first :: "phys_region \<Rightarrow> u64" where
  "region_first r = PAGE_ALIGN_UP (max_u64 MIN_USABLE_PADDR (pr_start r))"

definition early_ok :: "early_pmm \<Rightarrow> bool" where
  "early_ok st \<longleftrightarrow> wf_map (clean st) \<and> phys_bounded (clean st) \<and> length (clean st) \<le> PHYS_REGION_MAX_SIZE + 1 \<and>
     (case pa_reg st of None \<Rightarrow> True
      | Some i \<Rightarrow> pa_idx st = i \<and> unat i < length (clean st) \<and> visited_region (clean st ! unat i)
          \<and> 4096 dvd unat (pa_cursor st)
          \<and> unat (region_first (clean st ! unat i)) \<le> unat (pa_cursor st)
          \<and> (pa_cursor st \<le> pr_end (clean st ! unat i)
             \<or> pa_cursor st = region_first (clean st ! unat i)))"

definition early_avail :: "early_pmm \<Rightarrow> u64 set" where
  "early_avail st = {f. \<exists>i j. pa_reg st = Some i \<and> unat i \<le> j \<and> j < length (clean st)
     \<and> frame_in (clean st ! j) f \<and> (j = unat i \<longrightarrow> pa_cursor st \<le> f)}"

lemma frame_in_visited: "frame_in r f \<Longrightarrow> visited_region r"
  by (auto simp: frame_in_def visited_region_def word_less_nat_alt)

lemma region_first_bounds:
  assumes "unat (pr_start r) \<le> 2 ^ 52"
  shows "4096 dvd unat (region_first r)" and "0x100000 \<le> unat (region_first r)"
    and "unat (pr_start r) \<le> unat (region_first r)"
    and "unat (region_first r) < 2 ^ 52 + 2 ^ 21"
    and "4096 dvd n \<Longrightarrow> 0x100000 \<le> n \<Longrightarrow> unat (pr_start r) \<le> n \<Longrightarrow> unat (region_first r) \<le> n"
proof -
  let ?m = "max (0x100000) (unat (pr_start r))"
  have "unat (max_u64 MIN_USABLE_PADDR (pr_start r)) = ?m"
    by (auto simp: max_u64_def word_less_nat_alt)
  with assms have e: "unat (region_first r) = (?m + 4095) div 4096 * 4096"
    by (simp add: region_first_def unat_PAGE_ALIGN_UP max_def)
  show "4096 dvd unat (region_first r)" by (simp add: e)
  show "0x100000 \<le> unat (region_first r)" "unat (pr_start r) \<le> unat (region_first r)"
    unfolding e by linarith+
  have "?m \<le> 2 ^ 52" using assms by simp
  then show "unat (region_first r) < 2 ^ 52 + 2 ^ 21"
    unfolding e by (simp add: less_eq_div_iff_mult_less_eq)
  show "unat (region_first r) \<le> n" if "4096 dvd n" "0x100000 \<le> n" "unat (pr_start r) \<le> n"
  proof -
    from that obtain k where "n = 4096 * k" by auto
    moreover from this that have "(?m + 4095) div 4096 \<le> k" by (auto simp: max_def)
    ultimately show ?thesis by (simp add: e)
  qed
qed

lemma wf_map_order:
  "wf_map rs \<Longrightarrow> i < j \<Longrightarrow> j < length rs \<Longrightarrow> unat (pr_end (rs ! i)) \<le> unat (pr_start (rs ! j))"
  by (auto simp: wf_map_def sorted_wrt_iff_nth_less word_le_nat_alt)

lemma wf_map_start: "wf_map rs \<Longrightarrow> i < length rs \<Longrightarrow> unat (pr_start (rs ! i)) < unat (pr_end (rs ! i))"
  by (auto simp: wf_map_def word_less_nat_alt)

lemma phys_boundedD: "phys_bounded rs \<Longrightarrow> i < length rs \<Longrightarrow> unat (pr_end (rs ! i)) \<le> 2 ^ 52"
  by (auto simp: phys_bounded_def)

lemma early_cursor_bound:
  assumes "early_ok st" "pa_reg st = Some i"
  shows "unat (pa_cursor st) < 2 ^ 53"
proof -
  let ?r = "clean st ! unat i"
  have "unat (pr_end ?r) \<le> 2 ^ 52" "unat (pr_start ?r) \<le> 2 ^ 52"
    using assms wf_map_start[of "clean st" "unat i"] phys_boundedD[of "clean st" "unat i"]
    by (auto simp: early_ok_def)
  with assms region_first_bounds(4)[of ?r] show ?thesis
    by (auto simp: early_ok_def word_le_nat_alt)
qed

lemma pa_next_same [simp]: "clean (pa_next st) = clean st"
  by (auto simp: pa_next_def split: option.split)

lemma pa_next_Some:
  assumes "early_ok st" "pa_next_from (clean st) (pa_idx st + 1) = Some k"
  shows "early_ok (pa_next st)"
    and "early_avail (pa_next st) = {f. \<exists>j \<ge> unat (pa_idx st + 1). j < length (clean st)
      \<and> frame_in (clean st ! j) f}"
proof -
  let ?rs = "clean st"
  from pa_next_from_Some[OF assms(2)] assms(1)
  have k: "unat (pa_idx st + 1) \<le> unat k" "unat k < length ?rs" "visited_region (?rs ! unat k)"
    and gap: "\<And>j. unat (pa_idx st + 1) \<le> j \<Longrightarrow> j < unat k \<Longrightarrow> \<not> visited_region (?rs ! j)"
    by (auto simp: early_ok_def word_less_nat_alt unat_of_nat_small)
  have s: "unat (pr_start (?rs ! unat k)) \<le> 2 ^ 52"
    using assms(1) k(2) wf_map_start[of ?rs "unat k"] phys_boundedD[of ?rs "unat k"]
    by (auto simp: early_ok_def)
  have n: "pa_next st = st\<lparr>pa_reg := Some k, pa_idx := k, pa_cursor := region_first (?rs ! unat k)\<rparr>"
    by (simp add: pa_next_def assms(2) region_first_def)
  show "early_ok (pa_next st)"
    using assms(1) k region_first_bounds[OF s] by (auto simp: n early_ok_def)
  have above: "region_first (?rs ! unat k) \<le> f" if "frame_in (?rs ! unat k) f" for f
    using that region_first_bounds(5)[OF s] by (auto simp: frame_in_def word_le_nat_alt)
  have from_k: "unat k \<le> j" if "unat (pa_idx st + 1) \<le> j" "frame_in (?rs ! j) f" for f j
    using gap[OF that(1)] frame_in_visited[OF that(2)] by (meson not_le)
  show "early_avail (pa_next st) = {f. \<exists>j \<ge> unat (pa_idx st + 1). j < length ?rs \<and> frame_in (?rs ! j) f}"
    unfolding early_avail_def n using k(1) above from_k by (auto intro: le_trans) blast
qed

lemma pa_next_None:
  assumes "early_ok st" "pa_next_from (clean st) (pa_idx st + 1) = None"
  shows "early_ok (pa_next st)" and "pa_reg (pa_next st) = None"
    and "{f. \<exists>j \<ge> unat (pa_idx st + 1). j < length (clean st) \<and> frame_in (clean st ! j) f} = {}"
  using assms pa_next_from_None[OF assms(2)] frame_in_visited
  by (auto simp: pa_next_def early_ok_def unat_of_nat_small)

lemma early_avail_None [simp]: "pa_reg st = None \<Longrightarrow> early_avail st = {}"
  by (simp add: early_avail_def)

lemma pa_next_ok: "early_ok st \<Longrightarrow> early_ok (pa_next st)"
  by (cases "pa_next_from (clean st) (pa_idx st + 1)") (auto simp: pa_next_Some pa_next_None)

lemma pa_next_avail:
  "early_ok st \<Longrightarrow> early_avail (pa_next st) =
     {f. \<exists>j \<ge> unat (pa_idx st + 1). j < length (clean st) \<and> frame_in (clean st ! j) f}"
  by (cases "pa_next_from (clean st) (pa_idx st + 1)") (simp_all add: pa_next_Some pa_next_None)

lemma early_idx_Suc:
  assumes "early_ok st" "pa_reg st = Some i"
  shows "unat (pa_idx st + 1) = Suc (unat i)"
  using assms by (subst unat_add_small) (auto simp: early_ok_def)

lemma pa_next_cursor:
  assumes "early_ok st" "pa_reg st = Some i"
  shows "unat (pa_cursor st) \<le> unat (pa_cursor (pa_next st))"
proof (cases "pa_next_from (clean st) (pa_idx st + 1)")
  case (Some k)
  let ?rs = "clean st"
  from pa_next_from_Some[OF Some] assms early_idx_Suc[OF assms]
  have k: "unat i < unat k" "unat k < length ?rs"
    by (auto simp: early_ok_def word_less_nat_alt unat_of_nat_small)
  with assms wf_map_order[of ?rs "unat i" "unat k"] wf_map_start[of ?rs] phys_boundedD[of ?rs]
  have o: "unat (pr_end (?rs ! unat i)) \<le> unat (pr_start (?rs ! unat k))"
    "unat (pr_start (?rs ! unat i)) < unat (pr_end (?rs ! unat i))"
    "unat (pr_start (?rs ! unat k)) \<le> 2 ^ 52" "unat (pr_start (?rs ! unat i)) \<le> 2 ^ 52"
    by (auto simp: early_ok_def) (meson le_trans less_imp_le order.strict_trans)+
  from region_first_bounds[OF o(3)] region_first_bounds(5)[OF o(4)] o
  have "unat (region_first (?rs ! unat i)) \<le> unat (region_first (?rs ! unat k))"
    "unat (pr_end (?rs ! unat i)) \<le> unat (region_first (?rs ! unat k))" by auto
  with assms Some show ?thesis
    by (auto simp: pa_next_def early_ok_def word_le_nat_alt region_first_def)
qed (simp add: pa_next_def)

section \<open>Allocation\<close>

text \<open>
  What one allocation of \<open>n\<close> frames does: it hands out a run of available frames that starts
  at the cursor, and everything still available lies above it.
\<close>

lemma early_alloc_step:
  assumes ok: "early_ok st" and r: "pa_reg st = Some i" and n: "0 < unat n" "unat n < 2 ^ 50"
    and fits: "pa_cursor st + PAGE_SIZE * n \<le> pr_end (clean st ! unat i)"
  defines "st' \<equiv> st\<lparr>pa_cursor := pa_cursor st + PAGE_SIZE * n\<rparr>"
  shows "unat (pa_cursor st') = unat (pa_cursor st) + 4096 * unat n" (is ?cursor)
    and "early_ok st'" (is ?ok)
    and "\<And>k. k < unat n \<Longrightarrow> pa_cursor st + PAGE_SIZE * of_nat k \<in> early_avail st"
    and "early_avail st' = {g \<in> early_avail st. unat (pa_cursor st) + 4096 * unat n \<le> unat g}"
    and "0x100000 \<le> unat (pa_cursor st)"
    and "\<And>g. g \<in> early_avail st \<Longrightarrow> pa_cursor st \<le> g"
proof -
  let ?rs = "clean st" and ?r = "clean st ! unat i"
  have i: "unat i < length ?rs" and idx: "pa_idx st = i" and v: "visited_region ?r"
    and dvd: "4096 dvd unat (pa_cursor st)" and first: "unat (region_first ?r) \<le> unat (pa_cursor st)"
    and wf: "wf_map ?rs" "phys_bounded ?rs"
    using ok r by (auto simp: early_ok_def)
  have s: "unat (pr_start ?r) \<le> 2 ^ 52"
    using wf_map_start[OF wf(1) i] phys_boundedD[OF wf(2) i] by auto
  note fb = region_first_bounds[OF s]
  note c = early_cursor_bound[OF ok r]
  have m: "unat (PAGE_SIZE * n) = 4096 * unat n"
    using n by (subst unat_mult_small) auto
  have cn: "unat (pa_cursor st + PAGE_SIZE * n) = unat (pa_cursor st) + 4096 * unat n"
    using c n by (subst unat_add_small) (auto simp: m)
  with fits have fit: "unat (pa_cursor st) + 4096 * unat n \<le> unat (pr_end ?r)"
    by (simp add: word_le_nat_alt)
  show ?cursor by (simp add: st'_def cn)
  show ?ok
    using ok r fb first dvd fits by (auto simp: early_ok_def st'_def cn)
  show "0x100000 \<le> unat (pa_cursor st)" using fb(2) first by linarith
  have later: "unat (pr_end ?r) \<le> unat g" if "frame_in (?rs ! j) g" "unat i < j" "j < length ?rs" for g j
    using wf_map_order[OF wf(1) that(2,3)] that(1) by (auto simp: frame_in_def)
  show "pa_cursor st \<le> g" if "g \<in> early_avail st" for g
    using that r later fit by (force simp: early_avail_def word_le_nat_alt le_less)
  show "early_avail st' = {g \<in> early_avail st. unat (pa_cursor st) + 4096 * unat n \<le> unat g}"
    using r later fit by (force simp: early_avail_def st'_def word_le_nat_alt cn le_less)
  show "pa_cursor st + PAGE_SIZE * of_nat k \<in> early_avail st" if "k < unat n" for k
  proof -
    have u: "unat (pa_cursor st + PAGE_SIZE * of_nat k) = unat (pa_cursor st) + 4096 * k"
      using c n that by (subst unat_add_small) (auto simp: unat_page_mult)
    have "frame_in ?r (pa_cursor st + PAGE_SIZE * of_nat k)"
      using v dvd first fb(2,3) fit that by (auto simp: frame_in_def visited_region_def u)
    with r i show ?thesis by (auto simp: early_avail_def word_le_nat_alt u)
  qed
qed

lemma early_avail_next:
  assumes "early_ok st" "pa_reg st = Some i"
  shows "early_avail (pa_next st) = {g \<in> early_avail st. unat (pr_end (clean st ! unat i)) \<le> unat g}"
proof -
  have later: "unat (pr_end (clean st ! unat i)) \<le> unat g"
    if "frame_in (clean st ! j) g" "unat i < j" "j < length (clean st)" for g j
    using wf_map_order[OF _ that(2,3)] that(1) assms(1) by (auto simp: frame_in_def early_ok_def)
  have here: "\<not> unat (pr_end (clean st ! unat i)) \<le> unat g" if "frame_in (clean st ! unat i) g" for g
    using that by (auto simp: frame_in_def)
  have "early_avail (pa_next st) = {g. \<exists>j > unat i. j < length (clean st) \<and> frame_in (clean st ! j) g}"
    unfolding pa_next_avail[OF assms(1)] early_idx_Suc[OF assms] by (simp add: Suc_le_eq)
  also have "\<dots> = {g \<in> early_avail st. unat (pr_end (clean st ! unat i)) \<le> unat g}"
    using assms(2) later here unfolding early_avail_def by (auto simp: le_less)
  finally show ?thesis .
qed


lemma early_alloc_continuous:
  "early_ok st \<Longrightarrow> early_pmm_alloc_continuous_frames n st = (f, st') \<Longrightarrow> 0 < unat n \<Longrightarrow> unat n < 2 ^ 50 \<Longrightarrow>
    early_ok st' \<and> clean st' = clean st \<and> unat (pa_cursor st) \<le> unat (pa_cursor st') \<and>
    (if f = 0 then early_avail st' = {}
     else (\<forall>k < unat n. f + PAGE_SIZE * of_nat k \<in> early_avail st)
       \<and> early_avail st' = {g \<in> early_avail st. unat f + 4096 * unat n \<le> unat g}
       \<and> unat (pa_cursor st') = unat f + 4096 * unat n \<and> pa_reg st' \<noteq> None)"
proof (induction n st rule: early_pmm_alloc_continuous_frames.induct)
  case (1 n st)
  note unfold = early_pmm_alloc_continuous_frames.simps[of n st]
  show ?case
  proof (cases "pa_reg st")
    case None
    with "1.prems" show ?thesis by (auto simp: unfold Let_def)
  next
    case (Some i)
    show ?thesis
    proof (cases "pa_cursor st + PAGE_SIZE * n \<le> pr_end (clean st ! unat i)")
      case True
      note step = early_alloc_step[OF "1.prems"(1) Some "1.prems"(3,4) True]
      from True Some "1.prems"(2) have e: "f = pa_cursor st" "st' = st\<lparr>pa_cursor := pa_cursor st + PAGE_SIZE * n\<rparr>"
        by (auto simp: unfold Let_def)
      with step(5) have "f \<noteq> 0" by auto
      with step Some show ?thesis by (simp add: e)
    next
      case False
      with Some "1.prems"(2) have "early_pmm_alloc_continuous_frames n (pa_next st) = (f, st')"
        by (simp add: unfold Let_def)
      note IH = "1.IH"[OF refl Some False pa_next_ok[OF "1.prems"(1)] this "1.prems"(3,4)]
      from IH "1.prems"(3) have "f = 0 \<or> f \<in> early_avail (pa_next st)"
        by (auto split: if_splits dest: spec[of _ 0])
      with IH pa_next_cursor[OF "1.prems"(1) Some] show ?thesis
        by (auto simp: early_avail_next[OF "1.prems"(1) Some] split: if_splits)
    qed
  qed
qed


text \<open>Moving on from a region with no whole frame left in it loses nothing.\<close>

lemma early_skip_avail:
  assumes ok: "early_ok st" and i: "pa_reg st = Some i"
    and no: "\<not> pa_cursor st + PAGE_SIZE \<le> pr_end (clean st ! unat i)"
  shows "early_avail (pa_next st) = early_avail st"
proof -
  have "unat (pr_end (clean st ! unat i)) \<le> unat g" if g: "g \<in> early_avail st" for g
  proof (rule ccontr)
    assume *: "\<not> ?thesis"
    have "\<not> frame_in (clean st ! j) g" if "unat i < j" "j < length (clean st)" for j
      using wf_map_order[OF _ that] * ok by (auto simp: frame_in_def early_ok_def)
    with g i have "frame_in (clean st ! unat i) g" "pa_cursor st \<le> g"
      by (auto simp: early_avail_def le_less)
    then have "unat (pa_cursor st + PAGE_SIZE) \<le> unat (pr_end (clean st ! unat i))"
      using u64_less[of "pr_end (clean st ! unat i)"]
      by (subst unat_add_small) (auto simp: frame_in_def word_le_nat_alt)
    with no show False by (simp add: word_le_nat_alt)
  qed
  then show ?thesis by (auto simp: early_avail_next[OF ok i])
qed

text \<open>For a single frame the search is complete: null means that nothing was left.\<close>

lemma early_alloc_null_least:
  "early_ok st \<Longrightarrow> early_pmm_alloc_frame st = (f, st') \<Longrightarrow> g \<in> early_avail st \<Longrightarrow> f \<noteq> 0 \<and> f \<le> g"
proof (induction st rule: early_pmm_alloc_frame.induct)
  case (1 st)
  then obtain i where i: "pa_reg st = Some i" by (cases "pa_reg st") auto
  show ?case
  proof (cases "pa_cursor st + PAGE_SIZE * 1 \<le> pr_end (clean st ! unat i)")
    case True
    with "1.prems" i early_alloc_step(5,6)[OF "1.prems"(1) i _ _ True] show ?thesis
      by (auto simp: early_pmm_alloc_frame.simps[of st])
  next
    case False
    with 1 i early_skip_avail[OF "1.prems"(1) i] pa_next_ok show ?thesis
      by (simp add: early_pmm_alloc_frame.simps[of st])
  qed
qed

lemma early_alloc_one:
  assumes "early_ok st" "early_pmm_alloc_frame st = (f, st')"
  shows "early_ok st'" and "clean st' = clean st" and "unat (pa_cursor st) \<le> unat (pa_cursor st')"
    and "f \<noteq> 0 \<Longrightarrow> f \<in> early_avail st"
    and "f \<noteq> 0 \<Longrightarrow> early_avail st' = {g \<in> early_avail st. unat f + 4096 \<le> unat g}"
    and "f \<noteq> 0 \<Longrightarrow> unat (pa_cursor st') = unat f + 4096"
  using early_alloc_continuous[OF assms(1), of 1 f st'] assms(2)
  by (auto simp: early_pmm_alloc_frame_eq split: if_splits)

lemma early_avail_dvd: "f \<in> early_avail st \<Longrightarrow> 4096 dvd unat f"
  by (auto simp: early_avail_def frame_in_def)

lemma early_avail_bounds:
  "early_ok st \<Longrightarrow> f \<in> early_avail st \<Longrightarrow> 4096 dvd unat f \<and> 0x100000 \<le> unat f \<and> unat f + 4096 \<le> 2 ^ 52"
  by (auto simp: early_avail_def frame_in_def early_ok_def dest: phys_boundedD)

lemma early_alloc_taken:
  assumes "early_ok st" "early_pmm_alloc_frame st = (f, st')"
  shows "early_avail st' = early_avail st - {f}"
proof (cases "f = 0")
  case True
  with assms early_alloc_null_least[OF assms] early_alloc_continuous[OF assms(1), of 1 f st']
  show ?thesis by (auto simp: early_pmm_alloc_frame_eq)
next
  case False
  have "unat f + 4096 \<le> unat g" if "g \<in> early_avail st" "g \<noteq> f" for g
  proof -
    have "f \<le> g" "4096 dvd unat f" "4096 dvd unat g"
      using early_alloc_null_least[OF assms that(1)] early_alloc_one(4)[OF assms False] that(1)
      by (auto simp: early_avail_dvd)
    moreover from this(1) that(2) have "unat f < unat g" by (simp add: word_less_nat_alt[symmetric])
    ultimately show ?thesis by (auto simp: dvd_def)
  qed
  with False show ?thesis by (auto simp: early_alloc_one(5)[OF assms False])
qed

interpretation early: frame_source early_pmm_alloc_frame early_ok early_avail
proof unfold_locales
  fix s f s' g assume "early_ok s" "early_pmm_alloc_frame s = (f, s')"
  note a = this
  show "early_ok s'" "early_avail s' = early_avail s - {f}"
    using early_alloc_one(1)[OF a] early_alloc_taken[OF a] by auto
  show "f \<in> early_avail s" "g \<in> early_avail s \<Longrightarrow> f \<le> g" if "f \<noteq> 0"
    using early_alloc_one(4)[OF a that] early_alloc_null_least[OF a] by auto
next
  show "early_avail s = {}" if "early_ok s" "early_pmm_alloc_frame s = (0, s')" for s s'
    using early_alloc_null_least[OF that] by auto
next
  show "4096 dvd unat f \<and> 0 < unat f \<and> unat f < 2 ^ 52" if "early_ok s" "f \<in> early_avail s" for s f
    using early_avail_bounds[OF that] by auto
qed

text \<open>Every frame below the cursor is gone.\<close>

lemma early_avail_cursor:
  assumes "early_ok st" "pa_reg st = Some i"
  shows "early_avail st = {f. pa_cursor st \<le> f \<and> (\<exists>r \<in> set (clean st). frame_in r f)}"
proof -
  let ?rs = "clean st"
  have i: "unat i < length ?rs" "unat (region_first (?rs ! unat i)) \<le> unat (pa_cursor st)"
    and c: "pa_cursor st \<le> pr_end (?rs ! unat i) \<or> pa_cursor st = region_first (?rs ! unat i)"
    and wf: "wf_map ?rs" "phys_bounded ?rs"
    using assms by (auto simp: early_ok_def)
  have s: "unat (pr_start (?rs ! j)) \<le> 2 ^ 52" if "j < length ?rs" for j
    using wf_map_start[OF wf(1) that] phys_boundedD[OF wf(2) that] by linarith
  have later: "pa_cursor st \<le> f" if "frame_in (?rs ! j) f" "unat i < j" "j < length ?rs" for f j
  proof -
    have o: "unat (pr_end (?rs ! unat i)) \<le> unat f" "unat (pr_start (?rs ! unat i)) \<le> unat f"
      using wf_map_order[OF wf(1) that(2,3)] wf_map_start[OF wf(1) i(1)] that(1)
      by (auto simp: frame_in_def)
    with region_first_bounds(5)[OF s[OF i(1)], of "unat f"] c that(1) show ?thesis
      by (auto simp: word_le_nat_alt frame_in_def)
  qed
  have earlier: "unat i \<le> j" if "frame_in (?rs ! j) f" "pa_cursor st \<le> f" "j < length ?rs" for f j
  proof (rule ccontr)
    assume "\<not> ?thesis"
    with wf_map_order[OF wf(1) _ i(1), of j] region_first_bounds(3)[OF s[OF i(1)]] i(2) that
    show False by (auto simp: frame_in_def word_le_nat_alt)
  qed
  show ?thesis
    unfolding early_avail_def using assms(2) later earlier
    by (auto simp: Bex_def in_set_conv_nth le_less) blast+
qed

section \<open>Initialisation\<close>

lemma pa_init_correct:
  assumes "wf_map (clean st)" "phys_bounded (clean st)" "length (clean st) \<le> PHYS_REGION_MAX_SIZE + 1" "pa_reg st = None"
  shows "early_ok (pa_init st)"
    and "early_avail (pa_init st) = {f. \<exists>r \<in> set (clean st). frame_in r f}"
    and "clean (pa_init st) = clean st"
proof -
  have ok: "early_ok (st\<lparr>pa_idx := - 1\<rparr>)" using assms by (simp add: early_ok_def)
  then show "early_ok (pa_init st)" "clean (pa_init st) = clean st"
    by (auto simp: pa_init_def pa_next_ok)
  show "early_avail (pa_init st) = {f. \<exists>r \<in> set (clean st). frame_in r f}"
    by (auto simp: pa_init_def pa_next_avail[OF ok] Bex_def in_set_conv_nth)
qed

text \<open>The input of the sanitising pass: the e820 regions and the kernel image.\<close>

definition boot_regions :: "u16 \<Rightarrow> (nat \<Rightarrow> e820_entry) \<Rightarrow> u64 \<Rightarrow> phys_region list" where
  "boot_regions nr entry kernel_end = e820_regions nr entry @ [kernel_region kernel_end]"

lemma early_pmm_init_cases:
  assumes "early_pmm_init nr entry kernel_end raw st = Ret (res, st')"
  obtains out where "pmm_sanitize_memory_map (boot_regions nr entry kernel_end) PHYS_REGION_MAX_SIZE = Ret out"
    and "res = 0 \<Longrightarrow> st' = pa_init (st\<lparr>clean := out\<rparr>)"
    and "res = 0 \<longleftrightarrow> out \<noteq> [] \<and> pa_reg (pa_init (st\<lparr>clean := out\<rparr>)) \<noteq> None"
proof -
  from assms obtain raw1 n raw2 out where
    a: "arch_get_memory_map nr entry raw = Ret (raw1, n)"
    and s: "array_set raw1 n (kernel_region kernel_end) = Ret raw2"
    and o: "pmm_sanitize_memory_map (take (n + 1) raw2) PHYS_REGION_MAX_SIZE = Ret out"
    and r: "(let st1 = st\<lparr>clean := out\<rparr> in
       if clean_count st1 = 0 then Ret (- EINVAL, st1)
       else let st2 = pa_init st1 in
         if pa_reg st2 = None then Ret (- ENOMEM, st2) else Ret (0, st2)) = Ret (res, st')"
    by (auto simp: early_pmm_init_def exec_bind_Ret_iff)
  have "take (n + 1) raw2 = boot_regions nr entry kernel_end"
    using arch_get_memory_map_regions[OF a] s
    by (auto simp: array_set_Ret boot_regions_def take_Suc_conv_app_nth)
  moreover have "unat (of_nat (length out) :: u64) = length out"
    using sanitize_memory_map_length[OF o] by (intro unat_of_nat_small) simp
  then have "(of_nat (length out) :: u64) = 0 \<longleftrightarrow> out = []"
    using unat_eq_zero[of "of_nat (length out) :: u64"] by auto
  then have "clean_count (st\<lparr>clean := out\<rparr>) = 0 \<longleftrightarrow> out = []"
    by (simp add: clean_count_def)
  ultimately show ?thesis
    using o r by (intro that[of out]) (auto simp: Let_def split: if_splits)
qed

lemma early_pmm_init_ok:
  assumes init: "early_pmm_init nr entry kernel_end raw st = Ret (0, st')" and "pa_reg st = None"
    and "phys_bounded (boot_regions nr entry kernel_end)"
  shows "early_ok st'" and "early_avail st' = {f. usable_frame (boot_regions nr entry kernel_end) f}"
    and "f \<in> early_avail st' \<longleftrightarrow> (\<exists>r \<in> set (clean st'). frame_in r f)"
proof -
  from init obtain out where
    o: "pmm_sanitize_memory_map (boot_regions nr entry kernel_end) PHYS_REGION_MAX_SIZE = Ret out"
    and e: "st' = pa_init (st\<lparr>clean := out\<rparr>)"
    by (rule early_pmm_init_cases) blast
  have m: "wf_map out" "merged out" "\<And>a. region_lookup out a = region_type_at (boot_regions nr entry kernel_end) a"
    using sanitize_memory_map_sound[OF o] by auto
  have b: "phys_bounded out" by (rule sanitize_phys_bounded[OF m(1,3) assms(3)])
  have "length out \<le> PHYS_REGION_MAX_SIZE + 1" using sanitize_memory_map_length[OF o] by simp
  then have i: "early_ok st'" "early_avail st' = {f. \<exists>r \<in> set out. frame_in r f}" "clean st' = out"
    using pa_init_correct[of "st\<lparr>clean := out\<rparr>"] m(1) b assms(2) by (simp_all add: e)
  then show "early_ok st'" "f \<in> early_avail st' \<longleftrightarrow> (\<exists>r \<in> set (clean st'). frame_in r f)" by auto
  show "early_avail st' = {f. usable_frame (boot_regions nr entry kernel_end) f}"
    unfolding i(2) frames_exact[OF m] ..
qed

lemma usable_frame_not_reserved:
  assumes "usable_frame ins f" "r \<in> set ins" "pr_type r \<noteq> PHYS_REGION_USABLE" "k < 4096"
  shows "\<not> covers r (f + of_nat k)"
proof
  assume c: "covers r (f + of_nat k)"
  from assms obtain r' where "top_region (\<lambda>r. covers r (f + of_nat k)) ins = Some r'"
    "pr_type r' = PHYS_REGION_USABLE"
    by (auto simp: usable_frame_def region_type_at_top)
  with top_region_Some c assms(2) have "region_priority (pr_type r) \<le> 0" by fastforce
  with assms(3) show False by (cases "pr_type r") auto
qed

section \<open>Properties\<close>

text \<open>
  C14. A successful \<^verbatim>\<open>early_pmm_init\<close> makes exactly the right frames allocatable: the
  page-aligned frames above the first megabyte every byte of which the e820 table and the kernel's
  own region leave usable. In particular no byte of such a frame belongs to the kernel image or to
  a region the e820 table reserves.
\<close>

theorem early_pmm_init_usable:
  assumes "early_pmm_init nr entry kernel_end raw st = Ret (0, st')" and "pa_reg st = None"
    and "phys_bounded (boot_regions nr entry kernel_end)"
  shows "early_avail st' = {f. usable_frame (boot_regions nr entry kernel_end) f}
    \<and> (\<forall>f \<in> early_avail st'. \<forall>k < 4096. \<forall>r \<in> set (boot_regions nr entry kernel_end).
         pr_type r \<noteq> PHYS_REGION_USABLE \<longrightarrow> \<not> covers r (f + of_nat k))"
  using early_pmm_init_ok[OF assms] usable_frame_not_reserved by blast

definition witness_entry :: "nat \<Rightarrow> e820_entry" where
  "witness_entry i = (if i = 0
     then \<lparr>e820_base = 0, e820_len = 0x2000000, e820_type = 1, e820_extended_attr = 0\<rparr>
     else \<lparr>e820_base = 0xF0000, e820_len = 0x20000, e820_type = 2, e820_extended_attr = 0\<rparr>)"

definition witness_clean :: "phys_region list" where
  "witness_clean =
     [\<lparr>pr_start = 0, pr_end = 0xF0000, pr_type = PHYS_REGION_USABLE\<rparr>,
      \<lparr>pr_start = 0xF0000, pr_end = 0x110000, pr_type = PHYS_REGION_RESERVED\<rparr>,
      \<lparr>pr_start = 0x110000, pr_end = 0x1000000, pr_type = PHYS_REGION_USABLE\<rparr>,
      \<lparr>pr_start = 0x1000000, pr_end = 0x1005000, pr_type = PHYS_REGION_RESERVED\<rparr>,
      \<lparr>pr_start = 0x1005000, pr_end = 0x2000000, pr_type = PHYS_REGION_USABLE\<rparr>]"

definition witness_early :: early_pmm where
  "witness_early = \<lparr>clean = witness_clean, pa_reg = Some 2, pa_idx = 2, pa_cursor = 0x110000\<rparr>"

lemma witness_init:
  "early_pmm_init 2 witness_entry 0xFFFFFFFF81004F00
     (replicate 129 \<lparr>pr_start = 0, pr_end = 0, pr_type = PHYS_REGION_USABLE\<rparr>)
     \<lparr>clean = [], pa_reg = None, pa_idx = 0, pa_cursor = 0\<rparr> = Ret (0, witness_early)"
  by code_simp

lemma witness_boot_regions:
  "boot_regions 2 witness_entry 0xFFFFFFFF81004F00 =
     [\<lparr>pr_start = 0, pr_end = 0x2000000, pr_type = PHYS_REGION_USABLE\<rparr>,
      \<lparr>pr_start = 0xF0000, pr_end = 0x110000, pr_type = PHYS_REGION_RESERVED\<rparr>,
      \<lparr>pr_start = 0x1000000, pr_end = 0x1005000, pr_type = PHYS_REGION_RESERVED\<rparr>]"
  by code_simp

lemma witness_bounded: "phys_bounded (boot_regions 2 witness_entry 0xFFFFFFFF81004F00)"
  by (simp add: witness_boot_regions phys_bounded_def)

lemma witness_early_ok: "early_ok witness_early"
  by (simp add: early_ok_def witness_early_def witness_clean_def wf_map_def phys_bounded_def
      visited_region_def region_first_def max_u64_def PAGE_ALIGN_UP_def)

theorem early_pmm_init_usable_witness:
  "early_avail witness_early = {f. usable_frame (boot_regions 2 witness_entry 0xFFFFFFFF81004F00) f}"
  using early_pmm_init_usable[OF witness_init _ witness_bounded] by simp

text \<open>
  C24. The frames that a series of \<^verbatim>\<open>early_pmm_alloc_frame\<close> calls returns are pairwise
  different, all of them frames of the initial state, and null is only returned once every
  allocatable frame has been handed out.
\<close>

theorem early_pmm_alloc_frame_series:
  assumes "early_ok st" and "alloc_many early_pmm_alloc_frame n st = (fs, st')"
  shows "distinct (filter (\<lambda>f. f \<noteq> 0) fs) \<and> set fs \<subseteq> insert 0 (early_avail st)
    \<and> early_avail st' = early_avail st - set fs \<and> (0 \<in> set fs \<longrightarrow> early_avail st \<subseteq> set fs)"
  using early.alloc_many_distinct[OF assms] early.alloc_many_avail[OF assms]
    early.alloc_many_taken[OF assms] early.alloc_many_null[OF assms] by blast

theorem early_pmm_alloc_frame_series_witness:
  "distinct (filter (\<lambda>f. f \<noteq> 0) (fst (alloc_many early_pmm_alloc_frame 2 witness_early)))
    \<and> fst (alloc_many early_pmm_alloc_frame 2 witness_early) = [0x110000, 0x111000]"
proof -
  have r: "alloc_many early_pmm_alloc_frame 2 witness_early =
    ([0x110000, 0x111000], witness_early\<lparr>pa_cursor := 0x112000\<rparr>)"
    by code_simp
  from early_pmm_alloc_frame_series[OF witness_early_ok r] show ?thesis by (simp add: r)
qed

end
