(* ===== verification/Pmm.thy ===== *)
theory Pmm
  imports Early_pmm
begin

text \<open>
  The bitmap frame allocator of \<^verbatim>\<open>mm/pmm.c\<close>: one bit per physical frame, set when the
  frame is taken. \<^verbatim>\<open>pmm_init\<close> builds the bitmap in frames of the boot-time allocator and
  then replaces it.
\<close>

unbundle bit_operations_syntax

section \<open>State and operations\<close>

text \<open>
  \<open>bitmap\<close> are the \<^verbatim>\<open>size\<close> bytes behind the pointer \<^verbatim>\<open>bitmap\<close>, whose value is
  \<open>bitmap_addr\<close>. Byte and bit indices are natural numbers: the bitmap of a 52-bit physical
  address space has at most \<open>2 ^ 37\<close> bytes, so the index arithmetic of the code does not wrap.
\<close>

record pmm =
  bitmap_addr :: u64
  bitmap :: "u8 list"

definition bit_taken :: "u8 \<Rightarrow> nat \<Rightarrow> bool" where
  "bit_taken x b \<longleftrightarrow> x AND push_bit b 1 \<noteq> 0"

primrec pmm_alloc_scan :: "u8 list \<Rightarrow> nat list \<Rightarrow> u64 \<times> u8 list" where
  "pmm_alloc_scan bm [] = (0, bm)"
| "pmm_alloc_scan bm (i # is) =
     (if bm ! i = 0xff then pmm_alloc_scan bm is
      else case find (\<lambda>b. \<not> bit_taken (bm ! i) b) [0..<8] of
             None \<Rightarrow> pmm_alloc_scan bm is
           | Some b \<Rightarrow> ((of_nat i * 8 + of_nat b) * PAGE_SIZE, bm[i := bm ! i OR push_bit b 1]))"

definition pmm_alloc_frame :: "pmm \<Rightarrow> u64 \<times> pmm" where
  "pmm_alloc_frame st =
     (let (f, bm) = pmm_alloc_scan (bitmap st) [0..<length (bitmap st)] in (f, st\<lparr>bitmap := bm\<rparr>))"

definition pmm_free_frame :: "u64 \<Rightarrow> pmm \<Rightarrow> pmm exec" where
  "pmm_free_frame paddr st =
     (if IS_PAGE_ALIGNED paddr = 0
      then Panic ''pmm_free_frame: trying to free unlaigned addr''
      else
        let frame_no = unat (PAGE_ALIGN_DOWN paddr div PAGE_SIZE);
            byte_idx = frame_no div 8;
            bit_idx = frame_no mod 8
        in exec_bind (array_get (bitmap st) byte_idx) (\<lambda>x.
             if \<not> bit_taken x bit_idx
             then Panic ''pmm_free_frame: trying to free a frame that doesn't exist.''
             else exec_bind (array_set (bitmap st) byte_idx (x AND NOT (push_bit bit_idx 1)))
               (\<lambda>bm. Ret (st\<lparr>bitmap := bm\<rparr>))))"

definition mark_taken :: "nat \<Rightarrow> nat \<Rightarrow> u8 list \<Rightarrow> u8 list exec" where
  "mark_taken pfn_start nr bm =
     exec_fold (\<lambda>i bm. exec_bind (array_get bm (i div 8)) (\<lambda>x.
        array_set bm (i div 8) (x OR push_bit (i mod 8) 1))) [pfn_start..<pfn_start + nr] bm"

text \<open>The empty-bodied loop of \<^verbatim>\<open>check_for_contiguous_frames\<close>: the bit it stops at and the
  number of frames still missing.\<close>

fun check_loop :: "u8 list \<Rightarrow> nat \<Rightarrow> nat \<Rightarrow> nat \<times> nat" where
  "check_loop bm i 0 = (i, 0)"
| "check_loop bm i (Suc nr) =
     (if i div 8 < length bm \<and> \<not> bit_taken (bm ! (i div 8)) (i mod 8)
      then check_loop bm (i + 1) nr else (i, Suc nr))"

definition check_for_contiguous_frames ::
    "u8 list \<Rightarrow> nat \<Rightarrow> nat \<Rightarrow> nat \<Rightarrow> bool \<times> nat \<times> nat" where
  "check_for_contiguous_frames bm nr idx b =
     (let (i, left) = check_loop bm (idx * 8 + b) nr;
          i' = (if left \<noteq> 0 then i + 1 else i)
      in (left = 0, i' div 8, i' mod 8))"

lemma check_loop_ge: "check_loop bm i nr = (j, left) \<Longrightarrow> i \<le> j \<and> j - i + left = nr"
  by (induction bm i nr rule: check_loop.induct) (auto split: if_splits)

lemma check_for_contiguous_frames_progress:
  assumes "check_for_contiguous_frames bm nr idx b = (False, idx', b')"
  shows "idx < idx' \<or> idx = idx' \<and> b < b' \<and> b' < 8"
proof -
  obtain j left where "check_loop bm (idx * 8 + b) nr = (j, left)" by force
  with assms check_loop_ge[OF this]
  have "idx * 8 + b < Suc j" "idx' = Suc j div 8" "b' = Suc j mod 8"
    by (auto simp: check_for_contiguous_frames_def Let_def split: if_splits)
  then have "idx * 8 + b < 8 * idx' + b'" "b' < 8" by auto
  then show ?thesis by linarith
qed

function pmm_contiguous_scan :: "u8 list \<Rightarrow> nat \<Rightarrow> nat \<Rightarrow> nat \<Rightarrow> (u64 \<times> u8 list) exec" where
  "pmm_contiguous_scan bm nr idx b =
     (if idx < length bm then
        if bm ! idx = 0xff then pmm_contiguous_scan bm nr (idx + 1) 0
        else
          let (found, idx', b') = check_for_contiguous_frames bm nr idx b in
          if found
          then exec_bind (mark_taken (idx * 8 + b) nr bm)
                 (\<lambda>bm'. Ret ((of_nat idx * 8 + of_nat b) * PAGE_SIZE, bm'))
          else pmm_contiguous_scan bm nr idx' b'
      else Ret (0, bm))"
  by pat_completeness auto
termination
proof (relation "measures [\<lambda>(bm, nr, idx, b). length bm - idx, \<lambda>(bm, nr, idx, b). 8 - b]", goal_cases)
  case (3 bm nr idx b x found y idx' b')
  then have "check_for_contiguous_frames bm nr idx b = (False, idx', b')" by simp
  from check_for_contiguous_frames_progress[OF this] 3(1)
  have "length bm - idx' < length bm - idx \<or> length bm - idx' = length bm - idx \<and> 8 - b' < 8 - b"
    by (elim disjE conjE) (simp_all add: diff_less_mono2)
  then show ?case by simp
qed (simp_all add: diff_less_mono2)

declare pmm_contiguous_scan.simps [simp del]

definition pmm_alloc_contiguous_frames :: "u64 \<Rightarrow> pmm \<Rightarrow> (u64 \<times> pmm) exec" where
  "pmm_alloc_contiguous_frames nr st =
     (if nr = 0 then Panic ''pmm_alloc_contiguous_frames: count must be > 0.''
      else if nr = 1 then Ret (pmm_alloc_frame st)
      else exec_bind (pmm_contiguous_scan (bitmap st) (unat nr) 0 0)
        (\<lambda>(f, bm). Ret (f, st\<lparr>bitmap := bm\<rparr>)))"

definition pmm_free_contiguous_frames :: "u64 \<Rightarrow> u64 \<Rightarrow> pmm \<Rightarrow> pmm exec" where
  "pmm_free_contiguous_frames paddr nr st =
     (if IS_PAGE_ALIGNED paddr = 0
      then Panic ''pmm_free_contiguous_frames: paddr not page aligned.''
      else
        let pfn = paddr div PAGE_SIZE in
        exec_bind (exec_fold (\<lambda>i bm. exec_bind (array_get bm (i div 8)) (\<lambda>x.
            array_set bm (i div 8) (x AND NOT (push_bit (i mod 8) 1))))
          [unat pfn..<unat (pfn + nr)] (bitmap st))
        (\<lambda>bm. Ret (st\<lparr>bitmap := bm\<rparr>)))"

section \<open>Initialisation\<close>

definition clear_bits :: "nat \<Rightarrow> nat \<Rightarrow> nat \<Rightarrow> u8 list \<Rightarrow> u8 list exec" where
  "clear_bits k lo hi bm =
     exec_fold (\<lambda>b bm. exec_bind (array_get bm k) (\<lambda>x. array_set bm k (x AND NOT (push_bit b 1))))
       [lo..<hi] bm"

text \<open>Lines 40--53: the frames \<open>sframe\<close> to \<open>eframe\<close> become free.\<close>

definition clear_frames :: "nat \<Rightarrow> nat \<Rightarrow> u8 list \<Rightarrow> u8 list exec" where
  "clear_frames sframe eframe bm =
     (let sbyte = sframe div 8; ebyte = eframe div 8; sbit = sframe mod 8; ebit = eframe mod 8 in
      if sbyte = ebyte then clear_bits sbyte sbit ebit bm
      else
        exec_bind (clear_bits sbyte sbit 8 bm) (\<lambda>bm1.
        exec_bind (clear_bits ebyte 0 ebit bm1) (\<lambda>bm2.
          exec_fold (\<lambda>i bm. array_set bm i 0) [sbyte + 1..<ebyte] bm2)))"

definition pmm_init_region :: "u64 \<Rightarrow> phys_region \<Rightarrow> u8 list \<Rightarrow> u8 list exec" where
  "pmm_init_region cur_cursor r bm =
     (if pr_type r \<noteq> PHYS_REGION_USABLE \<or> pr_end r \<le> cur_cursor then Ret bm
      else
        let start0 = pr_start r;
            start1 = (if start0 < MIN_USABLE_PADDR then MIN_USABLE_PADDR else start0);
            start = (if start1 < cur_cursor then cur_cursor else start1);
            sframe = unat (PAGE_ALIGN_UP start div PAGE_SIZE);
            eframe = unat (PAGE_ALIGN_DOWN (pr_end r) div PAGE_SIZE)
        in if sframe \<ge> eframe then Ret bm else clear_frames sframe eframe bm)"

definition pmm_init :: "early_pmm \<Rightarrow> pmm \<Rightarrow> (int \<times> early_pmm \<times> pmm) exec" where
  "pmm_init early st =
     (let max_paddr = early_pmm_get_max_usable early;
          frame_count = PAGE_ALIGN_UP max_paddr div PAGE_SIZE;
          sz = (frame_count + 7) div 8;
          size_in_frame = PAGE_ALIGN_UP sz div PAGE_SIZE;
          (bm, early1) = early_pmm_alloc_continuous_frames size_in_frame early
      in if bm = 0 then Ret (- ENOMEM, early1, st\<lparr>bitmap_addr := 0\<rparr>)
         else exec_bind
           (exec_fold (pmm_init_region (ealry_pmm_get_cursor early1)) (clean early1)
              (replicate (unat sz) 0xFF))
           (\<lambda>bits. Ret (0, early1, st\<lparr>bitmap_addr := PHYS_TO_VIRT bm, bitmap := bits\<rparr>)))"

section \<open>Free frames\<close>

definition is_free :: "u8 list \<Rightarrow> nat \<Rightarrow> bool" where
  "is_free bm n \<longleftrightarrow> n div 8 < length bm \<and> \<not> bit (bm ! (n div 8)) (n mod 8)"

definition take_frame :: "nat \<Rightarrow> u8 list \<Rightarrow> u8 list" where
  "take_frame n bm = bm[n div 8 := bm ! (n div 8) OR push_bit (n mod 8) 1]"

definition release_frame :: "nat \<Rightarrow> u8 list \<Rightarrow> u8 list" where
  "release_frame n bm = bm[n div 8 := bm ! (n div 8) AND NOT (push_bit (n mod 8) 1)]"

lemma is_free_less: "is_free bm n \<Longrightarrow> n < length bm * 8"
  by (auto simp: is_free_def less_mult_imp_div_less div_less_iff_less_mult)

lemma is_free_byte_less: "is_free bm n \<Longrightarrow> length bm \<le> n div 8 \<Longrightarrow> P"
  by (simp add: is_free_def)

lemma bit_taken_iff: "bit_taken x b \<longleftrightarrow> bit x b"
  by (simp add: bit_taken_def and_exp_eq_0_iff_not_bit)

lemma length_take_frame [simp]: "length (take_frame n bm) = length bm"
  and length_release_frame [simp]: "length (release_frame n bm) = length bm"
  by (simp_all add: take_frame_def release_frame_def)

lemma is_free_take [simp]: "is_free (take_frame n bm) m \<longleftrightarrow> is_free bm m \<and> (m \<noteq> n \<or> n div 8 \<ge> length bm)"
  by (cases "m div 8 = n div 8")
     (auto simp: is_free_def take_frame_def nth_list_update bit_simps,
      (metis div_mult_mod_eq)+)

lemma is_free_release [simp]:
  "is_free (release_frame n bm) m \<longleftrightarrow> is_free bm m \<or> m = n \<and> n div 8 < length bm"
  by (cases "m div 8 = n div 8")
     (auto simp: is_free_def release_frame_def nth_list_update bit_simps,
      (metis div_mult_mod_eq)+)

lemma u8_full_iff: "x = 0xff \<longleftrightarrow> (\<forall>b < 8. bit x b)" for x :: u8
proof -
  have "(0xff :: u8) = mask 8" by (simp add: mask_eq_exp_minus_1)
  then show ?thesis by (auto simp: bit_eq_iff bit_simps)
qed

lemma find_clear_bit:
  assumes "x \<noteq> (0xff :: u8)"
  obtains b where "find (\<lambda>b. \<not> bit_taken x b) [0..<8] = Some b" "b < 8" "\<not> bit x b" "\<forall>c < b. bit x c"
proof -
  from assms have "find (\<lambda>b. \<not> bit_taken x b) [0..<8] \<noteq> None"
    by (auto simp: u8_full_iff find_None_iff bit_taken_iff)
  then obtain b where b: "find (\<lambda>b. \<not> bit_taken x b) [0..<8] = Some b" by auto
  then have "b < 8 \<and> \<not> bit x b \<and> (\<forall>c < b. bit x c)"
    by (auto simp: find_Some_iff bit_taken_iff)
  with b that show ?thesis by blast
qed

lemma is_free_byte: "i < length bm \<Longrightarrow> b < 8 \<Longrightarrow> is_free bm (i * 8 + b) \<longleftrightarrow> \<not> bit (bm ! i) b"
  by (simp add: is_free_def)

definition first_free :: "u8 list \<Rightarrow> nat \<Rightarrow> bool" where
  "first_free bm n \<longleftrightarrow> is_free bm n \<and> (\<forall>m < n. \<not> is_free bm m)"

lemma pmm_alloc_scan_first:
  assumes "\<And>n. is_free bm n \<Longrightarrow> i * 8 \<le> n"
  shows "(\<exists>n. first_free bm n \<and>
      pmm_alloc_scan bm [i..<length bm] = (of_nat n * PAGE_SIZE, take_frame n bm))
    \<or> (\<forall>n. \<not> is_free bm n) \<and> pmm_alloc_scan bm [i..<length bm] = (0, bm)"
  using assms
proof (induction "length bm - i" arbitrary: i)
  case 0
  have "\<not> is_free bm n" for n
    using "0.prems"[of n] "0.hyps" is_free_less[of bm n] by linarith
  with 0 show ?case by simp
next
  case (Suc k)
  then have i: "i < length bm" and upt: "[i..<length bm] = i # [Suc i..<length bm]"
    by (auto simp: upt_conv_Cons)
  show ?case
  proof (cases "bm ! i = 0xff")
    case True
    have "Suc i * 8 \<le> n" if f: "is_free bm n" for n
    proof (rule ccontr)
      assume "\<not> ?thesis"
      with Suc.prems[OF f] have "n = i * 8 + (n - i * 8)" "n - i * 8 < 8" by auto
      with f True i show False by (metis is_free_byte u8_full_iff)
    qed
    with Suc.hyps(1)[of "Suc i"] Suc.hyps(2) True show ?thesis by (auto simp: upt)
  next
    case False
    then obtain b where b: "find (\<lambda>b. \<not> bit_taken (bm ! i) b) [0..<8] = Some b" "b < 8"
      "\<not> bit (bm ! i) b" "\<forall>c < b. bit (bm ! i) c" by (rule find_clear_bit)
    have "\<not> is_free bm m" if "m < i * 8 + b" for m
    proof
      assume f: "is_free bm m"
      with Suc.prems[OF f] that have "m = i * 8 + (m - i * 8)" "m - i * 8 < b" by linarith+
      with b(2,4) f i show False by (metis is_free_byte less_trans)
    qed
    with b i have "first_free bm (i * 8 + b)" by (auto simp: first_free_def is_free_byte)
    moreover have "pmm_alloc_scan bm [i..<length bm] = (of_nat (i * 8 + b) * PAGE_SIZE, take_frame (i * 8 + b) bm)"
      using False b by (simp add: upt take_frame_def)
    ultimately show ?thesis by blast
  qed
qed

lemma pmm_alloc_frame_first:
  "(\<exists>n. first_free (bitmap st) n \<and>
      pmm_alloc_frame st = (of_nat n * PAGE_SIZE, st\<lparr>bitmap := take_frame n (bitmap st)\<rparr>))
   \<or> (\<forall>n. \<not> is_free (bitmap st) n) \<and> pmm_alloc_frame st = (0, st)"
  using pmm_alloc_scan_first[of "bitmap st" 0] by (auto simp: pmm_alloc_frame_def Let_def)

section \<open>The invariant and the contract\<close>

text \<open>
  Frame 0 is never free, so that no allocation returns a null pointer, and the bitmap covers at
  most the 52-bit physical address space.
\<close>

definition pmm_ok :: "pmm \<Rightarrow> bool" where
  "pmm_ok st \<longleftrightarrow> length (bitmap st) \<le> 2 ^ 37 \<and> \<not> is_free (bitmap st) 0"

definition pmm_avail :: "pmm \<Rightarrow> u64 set" where
  "pmm_avail st = {f. 4096 dvd unat f \<and> is_free (bitmap st) (unat f div 4096)}"

lemma pmm_free_bound: "pmm_ok st \<Longrightarrow> is_free (bitmap st) n \<Longrightarrow> 0 < n \<and> n < 2 ^ 40"
  using is_free_less[of "bitmap st" n] by (cases n) (auto simp: pmm_ok_def)

lemma unat_frame: "n < 2 ^ 52 \<Longrightarrow> unat (of_nat n * PAGE_SIZE :: u64) = n * 4096"
  using unat_page_mult[of n] by (simp add: mult.commute)

lemma frame_of_nat:
  assumes "4096 dvd unat (f :: u64)"
  shows "of_nat (unat f div 4096) * PAGE_SIZE = f"
proof -
  from assms obtain k where k: "unat f = 4096 * k" by auto
  then have "k < 2 ^ 52" using u64_less[of f] by simp
  with k have "unat (of_nat (unat f div 4096) * PAGE_SIZE :: u64) = unat f" by (simp add: unat_frame)
  then show ?thesis by (simp only: word_unat_eq_iff)
qed

lemma pmm_avail_of_nat:
  "n < 2 ^ 52 \<Longrightarrow> of_nat n * PAGE_SIZE \<in> pmm_avail st \<longleftrightarrow> is_free (bitmap st) n"
  by (simp add: pmm_avail_def unat_frame)

lemma pmm_avail_take:
  assumes "n div 8 < length (bitmap st)" "n < 2 ^ 52"
  shows "pmm_avail (st\<lparr>bitmap := take_frame n (bitmap st)\<rparr>) = pmm_avail st - {of_nat n * PAGE_SIZE}"
  using assms frame_of_nat by (auto simp: pmm_avail_def unat_frame)

interpretation bitmap: frame_source pmm_alloc_frame pmm_ok pmm_avail
proof unfold_locales
  fix s f s' g assume ok: "pmm_ok s" and a: "pmm_alloc_frame s = (f, s')"
  consider (some) n where "first_free (bitmap s) n" "f = of_nat n * PAGE_SIZE"
      "s' = s\<lparr>bitmap := take_frame n (bitmap s)\<rparr>" "0 < n" "n < 2 ^ 40"
    | (none) "\<forall>n. \<not> is_free (bitmap s) n" "f = 0" "s' = s"
    using pmm_alloc_frame_first[of s] a pmm_free_bound[OF ok] by (auto simp: first_free_def)
  note c = this
  show "pmm_ok s'"
    using c by cases (use ok in \<open>auto simp: pmm_ok_def\<close>)
  show "pmm_avail s' = pmm_avail s - {f}"
    using c
  proof cases
    case some
    then show ?thesis by (simp add: pmm_avail_take first_free_def is_free_def)
  qed (auto simp: pmm_avail_def)
  show "f \<in> pmm_avail s" if "f \<noteq> 0"
    using c that by cases (auto simp: pmm_avail_of_nat first_free_def)
  show "f \<le> g" if "f \<noteq> 0" "g \<in> pmm_avail s"
    using c that
  proof cases
    case some
    with that(2) have "n \<le> unat g div 4096" by (auto simp: pmm_avail_def first_free_def) (meson not_less)
    with some show ?thesis by (simp add: word_le_nat_alt unat_frame)
  qed simp
next
  fix s s' assume ok: "pmm_ok s" and a: "pmm_alloc_frame s = (0, s')"
  have "of_nat n * PAGE_SIZE \<noteq> (0 :: u64)" if "is_free (bitmap s) n" for n
    using pmm_free_bound[OF ok that] unat_frame[of n] by auto
  with a pmm_alloc_frame_first[of s] show "pmm_avail s = {}"
    by (auto simp: pmm_avail_def first_free_def)
next
  fix s f assume "pmm_ok s" "f \<in> pmm_avail s"
  with pmm_free_bound show "4096 dvd unat f \<and> 0 < unat f \<and> unat f < 2 ^ 52"
    by (fastforce simp: pmm_avail_def)
qed

section \<open>Contiguous runs\<close>

definition free_run :: "u8 list \<Rightarrow> nat \<Rightarrow> nat \<Rightarrow> bool" where
  "free_run bm p nr \<longleftrightarrow> (\<forall>k. p \<le> k \<and> k < p + nr \<longrightarrow> is_free bm k)"

lemma mark_taken_step:
  "i div 8 < length bm \<Longrightarrow>
   exec_bind (array_get bm (i div 8)) (\<lambda>x. array_set bm (i div 8) (x OR push_bit (i mod 8) 1))
     = Ret (take_frame i bm)"
  by (simp add: take_frame_def)

lemma release_step:
  "i div 8 < length bm \<Longrightarrow>
   exec_bind (array_get bm (i div 8)) (\<lambda>x. array_set bm (i div 8) (x AND NOT (push_bit (i mod 8) 1)))
     = Ret (release_frame i bm)"
  by (simp add: release_frame_def)

lemma fold_take_frames:
  "length (fold take_frame ns bm) = length bm"
  "(\<And>n. n \<in> set ns \<Longrightarrow> n div 8 < length bm) \<Longrightarrow>
     is_free (fold take_frame ns bm) m \<longleftrightarrow> is_free bm m \<and> m \<notin> set ns"
  by (induction ns arbitrary: bm) (auto dest: is_free_byte_less)

lemma fold_release_frames:
  "length (fold release_frame ns bm) = length bm"
  "(\<And>n. n \<in> set ns \<Longrightarrow> n div 8 < length bm) \<Longrightarrow>
     is_free (fold release_frame ns bm) m \<longleftrightarrow> is_free bm m \<or> m \<in> set ns"
  by (induction ns arbitrary: bm) auto

lemma mark_taken_correct:
  assumes "p + nr \<le> length bm * 8"
  shows "mark_taken p nr bm = Ret (fold take_frame [p..<p + nr] bm)"
    and "is_free (fold take_frame [p..<p + nr] bm) m \<longleftrightarrow> is_free bm m \<and> \<not> (p \<le> m \<and> m < p + nr)"
proof -
  have r: "i div 8 < length bm" if "i \<in> set [p..<p + nr]" for i
    using that assms by (auto simp: div_less_iff_less_mult)
  show "mark_taken p nr bm = Ret (fold take_frame [p..<p + nr] bm)"
    unfolding mark_taken_def
    by (rule exec_fold_array[where n = "length bm"]) (rule mark_taken_step, use r in auto)
  show "is_free (fold take_frame [p..<p + nr] bm) m \<longleftrightarrow> is_free bm m \<and> \<not> (p \<le> m \<and> m < p + nr)"
    using fold_take_frames(2)[of "[p..<p + nr]" bm m] r by auto
qed

lemma check_loop_free:
  "check_loop bm i nr = (j, left) \<Longrightarrow>
     (\<forall>k. i \<le> k \<and> k < j \<longrightarrow> is_free bm k) \<and> (left \<noteq> 0 \<longrightarrow> \<not> is_free bm j)"
proof (induction bm i nr rule: check_loop.induct)
  case (2 bm i nr)
  show ?case
  proof (cases "is_free bm i")
    case True
    then have c: "i div 8 < length bm \<and> \<not> bit_taken (bm ! (i div 8)) (i mod 8)"
      by (simp add: is_free_def bit_taken_iff)
    with "2.prems" have "check_loop bm (i + 1) nr = (j, left)" by simp
    from "2.IH"[OF c this] True show ?thesis
      by (metis Suc_eq_plus1 antisym_conv2 not_less_eq_eq not_less)
  next
    case False
    with "2.prems" show ?thesis by (auto simp: is_free_def bit_taken_iff)
  qed
qed auto

text \<open>A run that starts before the first taken frame contains it.\<close>

lemma check_for_contiguous_frames_correct:
  assumes "check_for_contiguous_frames bm nr idx b = (found, idx', b')" "0 < nr"
  shows "found \<Longrightarrow> free_run bm (idx * 8 + b) nr"
    and "\<not> found \<Longrightarrow> free_run bm p nr \<Longrightarrow> idx * 8 + b \<le> p \<Longrightarrow> idx' * 8 + b' \<le> p"
    and "b' < 8"
proof -
  obtain j left where l: "check_loop bm (idx * 8 + b) nr = (j, left)" by force
  note ge = check_loop_ge[OF l] and fr = check_loop_free[OF l]
  from assms l have e: "found \<longleftrightarrow> left = 0" "b' < 8"
    "\<not> found \<Longrightarrow> idx' * 8 + b' = Suc j"
    by (auto simp: check_for_contiguous_frames_def Let_def split: if_splits)
  from e(2) show "b' < 8" .
  show "free_run bm (idx * 8 + b) nr" if found
    using that e ge fr by (auto simp: free_run_def)
  show "idx' * 8 + b' \<le> p" if "\<not> found" "free_run bm p nr" "idx * 8 + b \<le> p"
  proof (rule ccontr)
    assume "\<not> ?thesis"
    with e(3)[OF that(1)] have "p \<le> j" by simp
    moreover have "j < p + nr" using ge that(3) e(1) that(1) by linarith
    ultimately have "is_free bm j" using that(2) by (auto simp: free_run_def)
    with fr e(1) that(1) show False by auto
  qed
qed

definition first_run :: "u8 list \<Rightarrow> nat \<Rightarrow> nat \<Rightarrow> bool" where
  "first_run bm p nr \<longleftrightarrow> free_run bm p nr \<and> (\<forall>q < p. \<not> free_run bm q nr)"

lemma free_run_bound: "free_run bm p nr \<Longrightarrow> 0 < nr \<Longrightarrow> p + nr \<le> length bm * 8"
  using is_free_less[of bm "p + nr - 1"] by (auto simp: free_run_def)

lemma pmm_contiguous_scan_first:
  "0 < nr \<Longrightarrow> b < 8 \<Longrightarrow> (\<And>p. free_run bm p nr \<Longrightarrow> idx * 8 + b \<le> p) \<Longrightarrow>
   (\<exists>p. first_run bm p nr \<and>
      pmm_contiguous_scan bm nr idx b = Ret (of_nat p * PAGE_SIZE, fold take_frame [p..<p + nr] bm))
   \<or> (\<forall>p. \<not> free_run bm p nr) \<and> pmm_contiguous_scan bm nr idx b = Ret (0, bm)"
proof (induction bm nr idx b rule: pmm_contiguous_scan.induct)
  case (1 bm nr idx b)
  note unfold = pmm_contiguous_scan.simps[of bm nr idx b]
  consider "length bm \<le> idx" | "idx < length bm" "bm ! idx = 0xff" | "idx < length bm" "bm ! idx \<noteq> 0xff"
    by linarith
  then show ?case
  proof cases
    case 1
    have "\<not> free_run bm p nr" for p
      using "1.prems"(3)[of p] "1.prems"(1) free_run_bound[of bm p nr] 1 by linarith
    with 1 show ?thesis by (simp add: unfold)
  next
    case 2
    have "Suc idx * 8 \<le> p" if r: "free_run bm p nr" for p
    proof (rule ccontr)
      assume "\<not> ?thesis"
      with "1.prems"(3)[OF r] have "p = idx * 8 + (p - idx * 8)" "p - idx * 8 < 8" by auto
      moreover have "is_free bm p" using r "1.prems"(1) by (auto simp: free_run_def)
      ultimately show False using 2 by (metis is_free_byte u8_full_iff)
    qed
    with "1.IH"(1)[OF 2] "1.prems"(1) 2 show ?thesis by (simp add: unfold)
  next
    case 3
    obtain found idx' b' where c: "check_for_contiguous_frames bm nr idx b = (found, idx', b')"
      by (metis surj_pair)
    note cc = check_for_contiguous_frames_correct[OF c "1.prems"(1)]
    show ?thesis
    proof (cases found)
      case True
      with cc(1) "1.prems"(3) have "first_run bm (idx * 8 + b) nr"
        using not_less by (auto simp: first_run_def)
      moreover note mark_taken_correct(1)[OF free_run_bound[OF cc(1)[OF True] "1.prems"(1)]]
      ultimately show ?thesis
        using 3 c True by (auto simp: unfold intro!: exI[of _ "idx * 8 + b"])
    next
      case False
      with "1.IH"(2)[OF 3 c[symmetric] refl refl False "1.prems"(1) cc(3)] cc(2)[OF False] "1.prems"(3) 3 c
      show ?thesis by (simp add: unfold)
    qed
  qed
qed

lemma first_run_one: "first_run bm n 1 \<longleftrightarrow> first_free bm n"
  by (auto simp: first_run_def first_free_def free_run_def le_Suc_eq less_Suc_eq)

lemma pmm_alloc_contiguous_frames_first:
  assumes "nr \<noteq> 0"
  shows "(\<exists>p. first_run (bitmap st) p (unat nr) \<and> pmm_alloc_contiguous_frames nr st =
      Ret (of_nat p * PAGE_SIZE, st\<lparr>bitmap := fold take_frame [p..<p + unat nr] (bitmap st)\<rparr>))
    \<or> (\<forall>p. \<not> free_run (bitmap st) p (unat nr)) \<and> pmm_alloc_contiguous_frames nr st = Ret (0, st)"
proof (cases "nr = 1")
  case True
  have "free_run (bitmap st) p 1 \<longleftrightarrow> is_free (bitmap st) p" for p by (auto simp: free_run_def le_Suc_eq less_Suc_eq)
  with True pmm_alloc_frame_first[of st] first_run_one[of "bitmap st"] show ?thesis
    by (auto simp: pmm_alloc_contiguous_frames_def)
next
  case False
  from assms have "0 < unat nr" by (simp add: unat_gt_0)
  from pmm_contiguous_scan_first[OF this, of 0 "bitmap st" 0] False assms show ?thesis
    by (auto simp: pmm_alloc_contiguous_frames_def)
qed

lemma bitmap_eqI:
  assumes "length bm = length bm'" "\<And>n. is_free bm n = is_free bm' n"
  shows "bm = bm'"
proof (rule nth_equalityI[OF assms(1)])
  fix i assume i: "i < length bm"
  have "bit (bm ! i) b = bit (bm' ! i) b" if "b < 8" for b
    using is_free_byte[OF i that] is_free_byte[of i bm' b] i assms that by auto
  then show "bm ! i = bm' ! i" by (auto simp: bit_eq_iff)
qed

lemma IS_PAGE_ALIGNED_never_0: "IS_PAGE_ALIGNED x \<noteq> 0"
proof -
  have "bit (IS_PAGE_ALIGNED x) 63"
    unfolding IS_PAGE_ALIGNED_def page_mask by (simp add: bit_simps)
  then show ?thesis by auto
qed

lemma pmm_free_contiguous_correct:
  assumes "p + unat nr \<le> length (bitmap st) * 8" "length (bitmap st) \<le> 2 ^ 37"
  shows "pmm_free_contiguous_frames (of_nat p * PAGE_SIZE) nr st =
    Ret (st\<lparr>bitmap := fold release_frame [p..<p + unat nr] (bitmap st)\<rparr>)"
proof -
  have p: "p < 2 ^ 52" "p + unat nr < 2 ^ 64" using assms by auto
  have pfn: "unat (of_nat p * PAGE_SIZE div PAGE_SIZE :: u64) = p"
    using p by (simp add: unat_div unat_frame)
  have hi: "unat (of_nat p * PAGE_SIZE div PAGE_SIZE + nr) = p + unat nr"
    using p(2) pfn by (subst unat_add_small) auto
  have "exec_fold (\<lambda>i bm. exec_bind (array_get bm (i div 8)) (\<lambda>x.
            array_set bm (i div 8) (x AND NOT (push_bit (i mod 8) 1)))) [p..<p + unat nr] (bitmap st)
    = Ret (fold release_frame [p..<p + unat nr] (bitmap st))"
    by (rule exec_fold_array[where n = "length (bitmap st)"])
       (rule release_step, use assms in \<open>auto simp: div_less_iff_less_mult\<close>)
  then show ?thesis
    by (simp only: pmm_free_contiguous_frames_def IS_PAGE_ALIGNED_never_0 Let_def pfn hi if_False
        exec_bind.simps)
qed

section \<open>Building the bitmap\<close>

lemma clear_bits_correct:
  assumes "hi \<le> 8" "k < length bm \<or> hi \<le> lo"
  shows "clear_bits k lo hi bm = Ret (fold release_frame (map ((+) (k * 8)) [lo..<hi]) bm)"
proof (cases "hi \<le> lo")
  case False
  have step: "exec_bind (array_get xs k) (\<lambda>x. array_set xs k (x AND NOT (push_bit b 1)))
      = Ret (release_frame (k * 8 + b) xs)" if "b < 8" "length xs = length bm" for b xs
    using that assms False by (simp add: release_frame_def)
  have "exec_fold (\<lambda>b bm. exec_bind (array_get bm k) (\<lambda>x. array_set bm k (x AND NOT (push_bit b 1))))
      [lo..<hi] bm = Ret (fold (\<lambda>b. release_frame (k * 8 + b)) [lo..<hi] bm)"
    by (rule exec_fold_array[where n = "length bm"]) (rule step, use assms in auto)
  then show ?thesis unfolding clear_bits_def by (simp add: fold_map comp_def)
qed (simp add: clear_bits_def)

lemma zero_bytes_correct:
  assumes "hi \<le> length bm"
  shows "\<exists>bm'. exec_fold (\<lambda>i bm. array_set bm i 0) [lo..<hi] bm = Ret bm' \<and> length bm' = length bm
    \<and> (\<forall>m. is_free bm' m \<longleftrightarrow> is_free bm m \<or> lo \<le> m div 8 \<and> m div 8 < hi)"
proof -
  have len: "length (fold (\<lambda>i bm. bm[i := 0]) is bm) = length bm" for "is" and bm :: "u8 list"
    by (induction "is" arbitrary: bm) auto
  have free: "is_free (fold (\<lambda>i bm. bm[i := 0]) is bm) m \<longleftrightarrow> is_free bm m \<or> m div 8 \<in> set is"
    if "\<And>i. i \<in> set is \<Longrightarrow> i < length bm" for "is" m and bm :: "u8 list"
    using that by (induction "is" arbitrary: bm) (auto simp: is_free_def nth_list_update)
  have "exec_fold (\<lambda>i bm. array_set bm i 0) [lo..<hi] bm = Ret (fold (\<lambda>i bm. bm[i := 0]) [lo..<hi] bm)"
    by (rule exec_fold_array[where n = "length bm"]) (use assms in auto)
  with len[of "[lo..<hi]" bm] free[of "[lo..<hi]" bm] assms show ?thesis by auto
qed

lemma clear_frames_correct:
  assumes "s < e" "e \<le> length bm * 8"
  shows "\<exists>bm'. clear_frames s e bm = Ret bm' \<and> length bm' = length bm
    \<and> (\<forall>m. is_free bm' m \<longleftrightarrow> is_free bm m \<or> s \<le> m \<and> m < e)"
proof -
  define sb st eb et where "sb = s div 8" and "st = s mod 8" and "eb = e div 8" and "et = e mod 8"
  note d = this
  have se: "s = sb * 8 + st" "e = eb * 8 + et" "st < 8" "et < 8" by (auto simp: d)
  have in_b: "m \<in> set (map ((+) (k * 8)) [lo..<hi]) \<longleftrightarrow> k * 8 + lo \<le> m \<and> m < k * 8 + hi" for m k lo hi :: nat
    by (auto simp: image_iff Bex_def intro: exI[of _ "m - k * 8"])
  have sb: "sb < length bm" using assms se by linarith
  have eb: "eb < length bm \<or> et \<le> 0" using assms se by linarith
  show ?thesis
  proof (cases "sb = eb")
    case True
    let ?bm = "fold release_frame (map ((+) (sb * 8)) [st..<et]) bm"
    have "clear_frames s e bm = Ret ?bm"
      using True sb se clear_bits_correct[of et sb bm st] by (simp add: clear_frames_def d[symmetric])
    moreover have "is_free ?bm m \<longleftrightarrow> is_free bm m \<or> s \<le> m \<and> m < e" for m
      using sb se True by (subst fold_release_frames(2)) (auto simp: in_b)
    ultimately show ?thesis by (auto simp: fold_release_frames(1))
  next
    case False
    let ?bm1 = "fold release_frame (map ((+) (sb * 8)) [st..<8]) bm"
    let ?bm2 = "fold release_frame (map ((+) (eb * 8)) [0..<et]) ?bm1"
    have lt: "sb < eb" using False assms se by linarith
    have c1: "clear_bits sb st 8 bm = Ret ?bm1" using sb by (intro clear_bits_correct) auto
    have c2: "clear_bits eb 0 et ?bm1 = Ret ?bm2"
      using eb se by (intro clear_bits_correct) (auto simp: fold_release_frames(1))
    have f1: "is_free ?bm1 m \<longleftrightarrow> is_free bm m \<or> s \<le> m \<and> m < sb * 8 + 8" for m
      using sb se by (subst fold_release_frames(2)) (auto simp: in_b)
    have f2: "is_free ?bm2 m \<longleftrightarrow> is_free ?bm1 m \<or> eb * 8 \<le> m \<and> m < e" for m
      using eb se by (subst fold_release_frames(2)) (auto simp: in_b fold_release_frames(1))
    have "eb \<le> length ?bm2" using assms se by (simp add: fold_release_frames(1))
    from zero_bytes_correct[OF this, of "sb + 1"] obtain bm' where
      z: "exec_fold (\<lambda>i bm. array_set bm i 0) [sb + 1..<eb] ?bm2 = Ret bm'" "length bm' = length ?bm2"
      "\<And>m. is_free bm' m \<longleftrightarrow> is_free ?bm2 m \<or> sb + 1 \<le> m div 8 \<and> m div 8 < eb" by blast
    have mid: "sb + 1 \<le> m div 8 \<and> m div 8 < eb \<longleftrightarrow> sb * 8 + 8 \<le> m \<and> m < eb * 8" for m
      by (simp add: less_eq_div_iff_mult_less_eq div_less_iff_less_mult add.commute)
    have "sb * 8 + 8 \<le> eb * 8" using lt by simp
    then have "s \<le> sb * 8 + 8" "sb * 8 + 8 \<le> eb * 8" "eb * 8 \<le> e" using se by auto
    then have "is_free bm' m \<longleftrightarrow> is_free bm m \<or> s \<le> m \<and> m < e" for m
      unfolding z(3) f2 f1 mid by (meson le_trans less_le_trans not_le)
    moreover have "clear_frames s e bm = Ret bm'"
      using False c1 c2 z(1) by (simp add: clear_frames_def d[symmetric])
    ultimately show ?thesis using z(2) by (auto simp: fold_release_frames(1))
  qed
qed

text \<open>The frames of a region that \<^verbatim>\<open>pmm_init\<close> frees.\<close>

definition init_frame :: "u64 \<Rightarrow> phys_region \<Rightarrow> nat \<Rightarrow> bool" where
  "init_frame c r m \<longleftrightarrow> pr_type r = PHYS_REGION_USABLE \<and> 0x100000 \<le> m * 4096 \<and> unat c \<le> m * 4096
     \<and> unat (pr_start r) \<le> m * 4096 \<and> m * 4096 + 4096 \<le> unat (pr_end r)"

lemma pmm_init_region_correct:
  assumes "unat (pr_start r) \<le> unat (pr_end r)" "unat (pr_end r) \<le> 2 ^ 52" "unat c \<le> 2 ^ 53"
    and "pr_type r = PHYS_REGION_USABLE \<Longrightarrow> unat (pr_end r) \<le> length bm * 8 * 4096"
  shows "\<exists>bm'. pmm_init_region c r bm = Ret bm' \<and> length bm' = length bm
    \<and> (\<forall>m. is_free bm' m \<longleftrightarrow> is_free bm m \<or> init_frame c r m)"
proof (cases "pr_type r \<noteq> PHYS_REGION_USABLE \<or> pr_end r \<le> c")
  case True
  then show ?thesis by (auto simp: pmm_init_region_def init_frame_def word_le_nat_alt)
next
  case False
  define start where "start = (let s = if pr_start r < MIN_USABLE_PADDR then MIN_USABLE_PADDR else pr_start r
     in if s < c then c else s)"
  let ?s = "unat (PAGE_ALIGN_UP start div PAGE_SIZE)" and ?e = "unat (PAGE_ALIGN_DOWN (pr_end r) div PAGE_SIZE)"
  have start: "unat start = max (unat c) (max 0x100000 (unat (pr_start r)))"
    by (auto simp: start_def Let_def word_less_nat_alt)
  then have "unat start + 4095 < 2 ^ 64" using assms by simp
  then have s: "?s = (unat start + 4095) div 4096" by (simp add: unat_div unat_PAGE_ALIGN_UP)
  have e: "?e = unat (pr_end r) div 4096" by (simp add: unat_div unat_PAGE_ALIGN_DOWN)
  have iff: "init_frame c r m \<longleftrightarrow> ?s \<le> m \<and> m < ?e" for m
  proof -
    have "?s \<le> m \<longleftrightarrow> unat start \<le> m * 4096" unfolding s by linarith
    moreover have "m < ?e \<longleftrightarrow> m * 4096 + 4096 \<le> unat (pr_end r)" unfolding e by linarith
    ultimately show ?thesis using False by (auto simp: init_frame_def start)
  qed
  have unfold: "pmm_init_region c r bm = (if ?s \<ge> ?e then Ret bm else clear_frames ?s ?e bm)"
    using False by (simp add: pmm_init_region_def start_def Let_def)
  have "?e \<le> length bm * 8" using assms(4) False unfolding e by simp
  with clear_frames_correct[of ?s ?e bm] show ?thesis
    by (cases "?s < ?e") (auto simp: unfold iff)
qed

lemma exec_fold_regions:
  assumes "\<And>r bm. r \<in> set rs \<Longrightarrow> length bm = n \<Longrightarrow> \<exists>bm'. f r bm = Ret bm' \<and> length bm' = n
      \<and> (\<forall>m. is_free bm' m \<longleftrightarrow> is_free bm m \<or> P r m)" and "length bm = n"
  shows "\<exists>bm'. exec_fold f rs bm = Ret bm' \<and> length bm' = n
      \<and> (\<forall>m. is_free bm' m \<longleftrightarrow> is_free bm m \<or> (\<exists>r \<in> set rs. P r m))"
  using assms
proof (induction rs arbitrary: bm)
  case (Cons r rs)
  obtain bm1 where 1: "f r bm = Ret bm1" "length bm1 = n" "\<And>m. is_free bm1 m \<longleftrightarrow> is_free bm m \<or> P r m"
    using Cons.prems(1)[of r bm] Cons.prems(2) by auto
  from Cons.IH[OF Cons.prems(1) 1(2)] obtain bm2 where "exec_fold f rs bm1 = Ret bm2" "length bm2 = n"
    "\<And>m. is_free bm2 m \<longleftrightarrow> is_free bm1 m \<or> (\<exists>r \<in> set rs. P r m)" by auto
  with 1 show ?case by auto
qed simp

lemma early_pmm_get_max_usable_ge:
  "wf_map (clean st) \<Longrightarrow> r \<in> set (clean st) \<Longrightarrow> pr_type r = PHYS_REGION_USABLE \<Longrightarrow>
     pr_end r \<le> early_pmm_get_max_usable st"
proof -
  have "wf_map rs \<Longrightarrow> r \<in> set rs \<Longrightarrow> pr_type r = PHYS_REGION_USABLE \<Longrightarrow>
     pr_end r \<le> fold (\<lambda>r m. if pr_type r \<noteq> PHYS_REGION_USABLE then m else pr_end r) rs 0" for rs
  proof (induction rs rule: rev_induct)
    case (snoc x rs)
    then have "wf_map rs" "r \<in> set rs \<Longrightarrow> pr_end r \<le> pr_start x" "pr_start x < pr_end x"
      by (auto simp: wf_map_append)
    with snoc show ?case by auto
  qed simp
  then show "wf_map (clean st) \<Longrightarrow> r \<in> set (clean st) \<Longrightarrow> pr_type r = PHYS_REGION_USABLE \<Longrightarrow> ?thesis"
    by (simp add: early_pmm_get_max_usable_def)
qed

lemma early_pmm_get_max_usable_in:
  "early_pmm_get_max_usable st = 0 \<or> (\<exists>r \<in> set (clean st). pr_end r = early_pmm_get_max_usable st)"
proof -
  have "fold (\<lambda>r m. if pr_type r \<noteq> PHYS_REGION_USABLE then m else pr_end r) rs 0 = 0
    \<or> (\<exists>r \<in> set rs. pr_end r = fold (\<lambda>r m. if pr_type r \<noteq> PHYS_REGION_USABLE then m else pr_end r) rs 0)"
    for rs :: "phys_region list"
    by (induction rs rule: rev_induct) auto
  then show ?thesis by (simp add: early_pmm_get_max_usable_def)
qed

section \<open>The handover\<close>

definition bitmap_frames :: "pmm \<Rightarrow> u64 set" where
  "bitmap_frames st = {VIRT_TO_PHYS (bitmap_addr st) + PAGE_SIZE * of_nat k | k.
     k < (length (bitmap st) + 4095) div 4096}"

lemma init_frame_iff:
  "m < 2 ^ 52 \<Longrightarrow> init_frame c r m \<longleftrightarrow> c \<le> of_nat m * PAGE_SIZE \<and> frame_in r (of_nat m * PAGE_SIZE)"
  by (auto simp: init_frame_def frame_in_def word_le_nat_alt unat_frame)

lemma is_free_replicate [simp]: "\<not> is_free (replicate n 0xFF) m"
proof -
  have "\<forall>b < 8. bit (0xFF :: u8) b" by (subst u8_full_iff[symmetric]) simp
  then show ?thesis by (auto simp: is_free_def)
qed

text \<open>The sizes \<^verbatim>\<open>pmm_init\<close> computes, as natural numbers.\<close>

lemma pmm_init_sizes:
  assumes "unat mx \<le> 2 ^ 52"
  defines "sz \<equiv> (PAGE_ALIGN_UP mx div PAGE_SIZE + 7) div 8"
  shows "unat sz = ((unat mx + 4095) div 4096 + 7) div 8" (is ?sz)
    and "unat (PAGE_ALIGN_UP sz div PAGE_SIZE) = (unat sz + 4095) div 4096" (is ?fr)
    and "unat sz \<le> 2 ^ 37" (is ?le)
proof -
  have fc: "unat (PAGE_ALIGN_UP mx div PAGE_SIZE) = (unat mx + 4095) div 4096"
    using assms(1) by (simp add: unat_div unat_PAGE_ALIGN_UP)
  moreover have "(unat mx + 4095) div 4096 \<le> 2 ^ 40" using assms(1) by simp
  ultimately have "unat (PAGE_ALIGN_UP mx div PAGE_SIZE + 7) = (unat mx + 4095) div 4096 + 7"
    by (subst unat_add_small) simp_all
  then show ?sz unfolding sz_def by (simp add: unat_div)
  then show ?le using assms(1) by simp
  then show ?fr by (simp add: unat_div unat_PAGE_ALIGN_UP)
qed

lemma pmm_init_bitmap:
  assumes ok: "early_ok e" and i: "pa_reg e = Some i"
    and sz: "\<And>r. r \<in> set (clean e) \<Longrightarrow> pr_type r = PHYS_REGION_USABLE \<Longrightarrow> unat (pr_end r) \<le> n * 8 * 4096"
    and n: "n \<le> 2 ^ 37"
  shows "\<exists>bits. exec_fold (pmm_init_region (pa_cursor e)) (clean e) (replicate n 0xFF) = Ret bits
    \<and> length bits = n \<and> (\<forall>a. pmm_ok \<lparr>bitmap_addr = a, bitmap = bits\<rparr>
        \<and> pmm_avail \<lparr>bitmap_addr = a, bitmap = bits\<rparr> = early_avail e)"
proof -
  have wf: "wf_map (clean e)" "phys_bounded (clean e)" using ok by (auto simp: early_ok_def)
  have c: "unat (pa_cursor e) \<le> 2 ^ 53" using early_cursor_bound[OF ok i] by simp
  have "\<exists>bits. exec_fold (pmm_init_region (pa_cursor e)) (clean e) (replicate n 0xFF) = Ret bits
    \<and> length bits = n \<and> (\<forall>m. is_free bits m \<longleftrightarrow> is_free (replicate n 0xFF) m
          \<or> (\<exists>r \<in> set (clean e). init_frame (pa_cursor e) r m))"
  proof (rule exec_fold_regions)
    fix r and bm :: "u8 list" assume r: "r \<in> set (clean e)" "length bm = n"
    then show "\<exists>bm'. pmm_init_region (pa_cursor e) r bm = Ret bm' \<and> length bm' = n
      \<and> (\<forall>m. is_free bm' m \<longleftrightarrow> is_free bm m \<or> init_frame (pa_cursor e) r m)"
      using pmm_init_region_correct[of r "pa_cursor e" bm] wf c sz[OF r(1)]
      by (auto simp: wf_map_def phys_bounded_def word_less_nat_alt less_imp_le)
  qed simp
  then obtain bits where b: "exec_fold (pmm_init_region (pa_cursor e)) (clean e) (replicate n 0xFF) = Ret bits"
    "length bits = n" "\<And>m. is_free bits m \<longleftrightarrow> (\<exists>r \<in> set (clean e). init_frame (pa_cursor e) r m)"
    by auto
  have "pmm_ok \<lparr>bitmap_addr = a, bitmap = bits\<rparr>" for a
    using b n by (auto simp: pmm_ok_def init_frame_def)
  moreover have "pmm_avail \<lparr>bitmap_addr = a, bitmap = bits\<rparr> = early_avail e" for a
  proof -
    have "f \<in> pmm_avail \<lparr>bitmap_addr = a, bitmap = bits\<rparr> \<longleftrightarrow> f \<in> early_avail e" for f
    proof (cases "4096 dvd unat f")
      case True
      have m: "unat f div 4096 < 2 ^ 52" using u64_less[of f] by simp
      show ?thesis
        using True unfolding early_avail_cursor[OF ok i] by (simp add: pmm_avail_def b(3) init_frame_iff[OF m] frame_of_nat)
    qed (auto simp: pmm_avail_def dest: early_avail_dvd)
    then show ?thesis by blast
  qed
  ultimately show ?thesis using b by blast
qed

lemma pmm_init_handover:
  assumes ok: "early_ok early"
  shows "\<exists>res early' st'. pmm_init early st = Ret (res, early', st') \<and> (res = 0 \<or> res = - ENOMEM)
    \<and> (res = 0 \<longrightarrow> early_ok early' \<and> pmm_ok st' \<and> pmm_avail st' = early_avail early'
        \<and> early_avail early' \<subseteq> early_avail early
        \<and> bitmap_frames st' \<subseteq> early_avail early - early_avail early')"
proof -
  let ?mx = "early_pmm_get_max_usable early"
  define sz where "sz = (PAGE_ALIGN_UP ?mx div PAGE_SIZE + 7) div 8"
  define nf where "nf = PAGE_ALIGN_UP sz div PAGE_SIZE"
  have wf: "wf_map (clean early)" "phys_bounded (clean early)" using ok by (auto simp: early_ok_def)
  have mx: "unat ?mx \<le> 2 ^ 52"
    using early_pmm_get_max_usable_in[of early] wf(2) by (auto simp: phys_bounded_def)
  note sizes = pmm_init_sizes[OF mx, folded sz_def, folded nf_def]
  obtain bm early' where a: "early_pmm_alloc_continuous_frames nf early = (bm, early')" by force
  have unfold: "pmm_init early st = (if bm = 0 then Ret (- ENOMEM, early', st\<lparr>bitmap_addr := 0\<rparr>)
     else exec_bind (exec_fold (pmm_init_region (pa_cursor early')) (clean early') (replicate (unat sz) 0xFF))
           (\<lambda>bits. Ret (0, early', st\<lparr>bitmap_addr := PHYS_TO_VIRT bm, bitmap := bits\<rparr>)))"
    using a by (simp add: pmm_init_def sz_def nf_def Let_def ealry_pmm_get_cursor_def)
  show ?thesis
  proof (cases "bm = 0")
    case True
    then show ?thesis by (simp add: unfold)
  next
    case False
    then obtain i where i: "pa_reg early = Some i"
      using a by (cases "pa_reg early") (auto simp: early_pmm_alloc_continuous_frames.simps[of nf early])
    then have "visited_region (clean early ! unat i)" "clean early ! unat i \<in> set (clean early)"
      using ok by (auto simp: early_ok_def)
    then have "0 < unat ?mx"
      using early_pmm_get_max_usable_ge[OF wf(1)] by (fastforce simp: visited_region_def word_le_nat_alt word_less_nat_alt)
    then have "0 < unat sz" using sizes(1) by linarith
    then have nf: "0 < unat nf" "unat nf < 2 ^ 50" using sizes(2,3) by simp_all
    note al = early_alloc_continuous[OF ok a nf]
    then obtain j where j: "pa_reg early' = Some j" using False by auto
    have e': "early_ok early'" "clean early' = clean early" using al by auto
    have "unat (pr_end r) \<le> unat sz * 8 * 4096" if "r \<in> set (clean early')" "pr_type r = PHYS_REGION_USABLE" for r
    proof -
      have "unat (pr_end r) \<le> unat ?mx"
        using early_pmm_get_max_usable_ge[OF wf(1)] that by (auto simp: e' word_le_nat_alt)
      then show ?thesis unfolding sizes(1) by linarith
    qed
    from pmm_init_bitmap[OF e'(1) j this sizes(3)] obtain bits where
      b: "exec_fold (pmm_init_region (pa_cursor early')) (clean early') (replicate (unat sz) 0xFF) = Ret bits"
      "length bits = unat sz" "\<And>a. pmm_ok \<lparr>bitmap_addr = a, bitmap = bits\<rparr>"
      "\<And>a. pmm_avail \<lparr>bitmap_addr = a, bitmap = bits\<rparr> = early_avail early'" by blast
    have fr: "bitmap_frames (st\<lparr>bitmap_addr := PHYS_TO_VIRT bm, bitmap := bits\<rparr>)
        = {bm + PAGE_SIZE * of_nat k | k. k < unat nf}"
      by (simp add: bitmap_frames_def b(2) sizes(2))
    have "unat (bm + PAGE_SIZE * of_nat k) < unat bm + 4096 * unat nf" if "k < unat nf" for k
    proof -
      have "unat (PAGE_SIZE * of_nat k :: u64) = 4096 * k"
        using that nf by (intro unat_page_mult) simp
      with that show ?thesis
        using unat_plus_le[of bm "PAGE_SIZE * of_nat k"] by linarith
    qed
    with al False have "{bm + PAGE_SIZE * of_nat k | k. k < unat nf} \<subseteq> early_avail early - early_avail early'"
      by (fastforce simp: not_le)
    with b al False e' show ?thesis
      by (auto simp: unfold fr pmm_ok_def pmm_avail_def)
  qed
qed

lemma pmm_free_frame_correct:
  assumes "n < 2 ^ 52" "n div 8 < length (bitmap st)"
  shows "pmm_free_frame (of_nat n * PAGE_SIZE) st =
    (if is_free (bitmap st) n then Panic ''pmm_free_frame: trying to free a frame that doesn't exist.''
     else Ret (st\<lparr>bitmap := release_frame n (bitmap st)\<rparr>))"
proof -
  have "unat (PAGE_ALIGN_DOWN (of_nat n * PAGE_SIZE) div PAGE_SIZE) = n"
    using assms(1) by (simp add: unat_div unat_PAGE_ALIGN_DOWN unat_frame)
  with assms(2) show ?thesis
    by (simp add: pmm_free_frame_def IS_PAGE_ALIGNED_never_0 Let_def bit_taken_iff is_free_def release_frame_def)
qed

lemma release_take_frame:
  assumes "is_free bm n"
  shows "release_frame n (take_frame n bm) = bm"
  using assms by (intro bitmap_eqI) (auto dest: is_free_byte_less)

lemma release_take_run:
  assumes "free_run bm p nr" "0 < nr"
  shows "fold release_frame [p..<p + nr] (fold take_frame [p..<p + nr] bm) = bm"
proof (rule bitmap_eqI)
  have r: "i div 8 < length bm" if "i \<in> set [p..<p + nr]" for i
    using that free_run_bound[OF assms] by (auto simp: div_less_iff_less_mult)
  then show "is_free (fold release_frame [p..<p + nr] (fold take_frame [p..<p + nr] bm)) m = is_free bm m" for m
    using assms(1) mark_taken_correct(2)[OF free_run_bound[OF assms]]
    by (subst fold_release_frames(2)) (auto simp: fold_take_frames(1) free_run_def)
qed (simp add: fold_release_frames fold_take_frames)

section \<open>Properties\<close>

text \<open>
  C12. \<^verbatim>\<open>pmm_init\<close> hands the memory over without losing track of a frame: it always returns
  (it never indexes outside the bitmap), with 0 or \<^verbatim>\<open>-ENOMEM\<close>; on success the frames that
  the bitmap allocator considers free are exactly those the boot-time allocator still had, and the
  frames that hold the bitmap itself are among those taken.
\<close>

theorem pmm_init_hands_over:
  assumes "early_ok early"
  shows "\<exists>res early' st'. pmm_init early st = Ret (res, early', st') \<and> (res = 0 \<or> res = - ENOMEM)
    \<and> (res = 0 \<longrightarrow> pmm_ok st' \<and> pmm_avail st' = early_avail early'
        \<and> early_avail early' \<subseteq> early_avail early
        \<and> bitmap_frames st' \<subseteq> early_avail early - pmm_avail st')"
proof -
  from pmm_init_handover[OF assms, of st] obtain res early' st' where
    "pmm_init early st = Ret (res, early', st')" "res = 0 \<or> res = - ENOMEM"
    "res = 0 \<longrightarrow> early_ok early' \<and> pmm_ok st' \<and> pmm_avail st' = early_avail early'
        \<and> early_avail early' \<subseteq> early_avail early
        \<and> bitmap_frames st' \<subseteq> early_avail early - early_avail early'" by blast
  then show ?thesis by (intro exI[of _ res] exI[of _ early'] exI[of _ st']) simp
qed

definition witness_small :: early_pmm where
  "witness_small = \<lparr>clean = [\<lparr>pr_start = 0xff000, pr_end = 0x104000, pr_type = PHYS_REGION_USABLE\<rparr>],
     pa_reg = Some 0, pa_idx = 0, pa_cursor = 0x100000\<rparr>"

definition witness_bits :: "u8 list" where
  "witness_bits = replicate 32 0xff @ [0xf1]"

theorem pmm_init_hands_over_witness:
  "early_ok witness_small \<and>
   pmm_init witness_small \<lparr>bitmap_addr = 0, bitmap = []\<rparr> =
     Ret (0, witness_small\<lparr>pa_cursor := 0x101000\<rparr>,
       \<lparr>bitmap_addr = 0xffff888000100000, bitmap = witness_bits\<rparr>)
   \<and> pmm_avail \<lparr>bitmap_addr = 0xffff888000100000, bitmap = witness_bits\<rparr>
     = early_avail (witness_small\<lparr>pa_cursor := 0x101000\<rparr>)"
proof -
  have ok: "early_ok witness_small"
    by (simp add: early_ok_def witness_small_def wf_map_def phys_bounded_def
        visited_region_def region_first_def max_u64_def PAGE_ALIGN_UP_def)
  have r: "pmm_init witness_small \<lparr>bitmap_addr = 0, bitmap = []\<rparr> =
     Ret (0, witness_small\<lparr>pa_cursor := 0x101000\<rparr>,
       \<lparr>bitmap_addr = 0xffff888000100000, bitmap = witness_bits\<rparr>)"
    by code_simp
  from pmm_init_hands_over[OF ok, of "\<lparr>bitmap_addr = 0, bitmap = []\<rparr>"] ok r show ?thesis by simp
qed

text \<open>
  \<^verbatim>\<open>pmm_alloc_frame\<close> returns the lowest free frame and takes exactly that one; it returns
  null only when no frame is free.
\<close>

theorem pmm_alloc_frame_lowest:
  assumes "pmm_ok st" and "pmm_alloc_frame st = (f, st')"
  shows "pmm_ok st' \<and> pmm_avail st' = pmm_avail st - {f} \<and> (f = 0 \<longleftrightarrow> pmm_avail st = {})
    \<and> (f \<noteq> 0 \<longrightarrow> f \<in> pmm_avail st \<and> (\<forall>g \<in> pmm_avail st. f \<le> g))"
  using bitmap.alloc_ok[OF assms] bitmap.alloc_taken[OF assms] bitmap.alloc_avail[OF assms]
    bitmap.alloc_least[OF assms] bitmap.alloc_null[OF assms(1)] assms(2) by blast

definition witness_pmm :: pmm where
  "witness_pmm = \<lparr>bitmap_addr = 0, bitmap = [0xff, 0xf7, 0xe1]\<rparr>"

lemma witness_pmm_ok: "pmm_ok witness_pmm"
proof -
  have "\<not> is_free (bitmap witness_pmm) 0" by code_simp
  then show ?thesis by (simp add: pmm_ok_def) (simp add: witness_pmm_def)
qed

theorem pmm_alloc_frame_lowest_witness:
  "pmm_alloc_frame witness_pmm = (0xb000, witness_pmm\<lparr>bitmap := [0xff, 0xff, 0xe1]\<rparr>)
    \<and> 0xb000 \<in> pmm_avail witness_pmm
    \<and> pmm_avail (witness_pmm\<lparr>bitmap := [0xff, 0xff, 0xe1]\<rparr>) = pmm_avail witness_pmm - {0xb000}"
proof -
  have a: "pmm_alloc_frame witness_pmm = (0xb000, witness_pmm\<lparr>bitmap := [0xff, 0xff, 0xe1]\<rparr>)"
    by code_simp
  from pmm_alloc_frame_lowest[OF witness_pmm_ok a] a show ?thesis by simp
qed

text \<open>
  C17. \<^verbatim>\<open>pmm_alloc_contiguous_frames\<close> always returns for a positive count: the lowest run of
  that many free frames, which it marks taken without touching any other frame, or null exactly
  when there is no such run.
\<close>

theorem pmm_alloc_contiguous_frames_lowest:
  assumes "pmm_ok st" and "nr \<noteq> 0"
  shows "(\<exists>p bm. first_run (bitmap st) p (unat nr)
      \<and> pmm_alloc_contiguous_frames nr st = Ret (of_nat p * PAGE_SIZE, st\<lparr>bitmap := bm\<rparr>)
      \<and> of_nat p * PAGE_SIZE \<noteq> (0 :: u64) \<and> length bm = length (bitmap st)
      \<and> (\<forall>m. is_free bm m \<longleftrightarrow> is_free (bitmap st) m \<and> \<not> (p \<le> m \<and> m < p + unat nr)))
    \<or> (\<forall>p. \<not> free_run (bitmap st) p (unat nr)) \<and> pmm_alloc_contiguous_frames nr st = Ret (0, st)"
  using pmm_alloc_contiguous_frames_first[OF assms(2), of st]
proof (elim disjE exE conjE)
  fix p assume f: "first_run (bitmap st) p (unat nr)"
    and a: "pmm_alloc_contiguous_frames nr st =
      Ret (of_nat p * PAGE_SIZE, st\<lparr>bitmap := fold take_frame [p..<p + unat nr] (bitmap st)\<rparr>)"
  have nr: "0 < unat nr" using assms(2) by (simp add: unat_gt_0)
  with f have "is_free (bitmap st) p" by (auto simp: first_run_def free_run_def)
  from pmm_free_bound[OF assms(1) this] have "0 < unat (of_nat p * PAGE_SIZE :: u64)"
    by (simp add: unat_frame)
  moreover note mark_taken_correct(2)[OF free_run_bound[OF _ nr], of "bitmap st" p]
  ultimately show ?thesis using f a
    by (intro disjI1 exI[of _ p] exI[of _ "fold take_frame [p..<p + unat nr] (bitmap st)"])
       (auto simp: fold_take_frames first_run_def)
qed blast

theorem pmm_alloc_contiguous_frames_lowest_witness:
  "pmm_alloc_contiguous_frames 4 witness_pmm = Ret (0x11000, witness_pmm\<lparr>bitmap := [0xff, 0xf7, 0xff]\<rparr>)
    \<and> (\<exists>p. first_run (bitmap witness_pmm) p 4)"
proof -
  have a: "pmm_alloc_contiguous_frames 4 witness_pmm = Ret (0x11000, witness_pmm\<lparr>bitmap := [0xff, 0xf7, 0xff]\<rparr>)"
    by code_simp
  with pmm_alloc_contiguous_frames_lowest[OF witness_pmm_ok, of 4] show ?thesis by auto
qed

text \<open>
  C25. Freeing what was allocated restores the allocator: after a successful contiguous allocation,
  \<^verbatim>\<open>pmm_free_contiguous_frames\<close> on the result gives back the very state before it, and so does
  \<^verbatim>\<open>pmm_free_frame\<close> for a single frame.
\<close>

theorem pmm_alloc_free_round_trip:
  assumes "pmm_ok st" and "f \<noteq> 0"
  shows "(pmm_alloc_contiguous_frames nr st = Ret (f, st') \<longrightarrow> pmm_free_contiguous_frames f nr st' = Ret st)
    \<and> (pmm_alloc_frame st = (f, st') \<longrightarrow> pmm_free_frame f st' = Ret st)"
proof (intro conjI impI)
  assume a: "pmm_alloc_contiguous_frames nr st = Ret (f, st')"
  have "nr \<noteq> 0" using a by (auto simp: pmm_alloc_contiguous_frames_def)
  then have nr: "0 < unat nr" by (simp add: unat_gt_0)
  from pmm_alloc_contiguous_frames_first[OF \<open>nr \<noteq> 0\<close>, of st] a assms(2) obtain p where
    p: "free_run (bitmap st) p (unat nr)" "f = of_nat p * PAGE_SIZE"
    "st' = st\<lparr>bitmap := fold take_frame [p..<p + unat nr] (bitmap st)\<rparr>"
    by (auto simp: first_run_def)
  with pmm_free_contiguous_correct[of p nr st'] free_run_bound[OF p(1) nr] release_take_run[OF p(1) nr] assms(1)
  show "pmm_free_contiguous_frames f nr st' = Ret st"
    by (simp add: fold_take_frames pmm_ok_def)
next
  assume "pmm_alloc_frame st = (f, st')"
  with pmm_alloc_frame_first[of st] assms(2) obtain n where
    n: "is_free (bitmap st) n" "f = of_nat n * PAGE_SIZE" "st' = st\<lparr>bitmap := take_frame n (bitmap st)\<rparr>"
    by (auto simp: first_free_def)
  from n(1) have "n div 8 < length (bitmap st)" "n < 2 ^ 52"
    using pmm_free_bound[OF assms(1) n(1)] by (auto simp: is_free_def)
  with pmm_free_frame_correct[of n st'] n release_take_frame[OF n(1)] show "pmm_free_frame f st' = Ret st"
    by simp
qed

theorem pmm_alloc_free_round_trip_witness:
  "pmm_alloc_contiguous_frames 4 witness_pmm = Ret (0x11000, witness_pmm\<lparr>bitmap := [0xff, 0xf7, 0xff]\<rparr>)
   \<and> pmm_free_contiguous_frames 0x11000 4 (witness_pmm\<lparr>bitmap := [0xff, 0xf7, 0xff]\<rparr>) = Ret witness_pmm"
proof -
  have a: "pmm_alloc_contiguous_frames 4 witness_pmm = Ret (0x11000, witness_pmm\<lparr>bitmap := [0xff, 0xf7, 0xff]\<rparr>)"
    by code_simp
  with pmm_alloc_free_round_trip[OF witness_pmm_ok, of "0x11000" 4] show ?thesis by simp
qed

text \<open>
  The alignment check of \<^verbatim>\<open>pmm_free_frame\<close> never fires: \<^verbatim>\<open>IS_PAGE_ALIGNED\<close> complements
  the page offset bitwise, which never gives 0, so an unaligned address frees (or fails on) the
  frame that contains it instead of panicking on the alignment.
\<close>

theorem pmm_free_frame_alignment_unchecked:
  "pmm_free_frame paddr st = pmm_free_frame (PAGE_ALIGN_DOWN paddr) st
    \<and> pmm_free_frame paddr st \<noteq> Panic ''pmm_free_frame: trying to free unlaigned addr''"
proof -
  have "unat (PAGE_ALIGN_DOWN (PAGE_ALIGN_DOWN paddr)) = unat (PAGE_ALIGN_DOWN paddr)"
    by (simp add: unat_PAGE_ALIGN_DOWN)
  then have "PAGE_ALIGN_DOWN (PAGE_ALIGN_DOWN paddr) = PAGE_ALIGN_DOWN paddr"
    by (simp only: word_unat_eq_iff)
  then show ?thesis
    by (auto simp: pmm_free_frame_def IS_PAGE_ALIGNED_never_0 Let_def array_get_def array_set_def)
qed

end
