(* ===== verification/Page_Map.thy ===== *)
theory Page_Map
  imports Page_Tree Pmm
begin

text \<open>
  The page-table code on memory: reading and writing entries is reading and writing the entry
  function of \<open>Page_Tree\<close>, and from there on, that \<^verbatim>\<open>mmu_map_one\<close> and
  \<^verbatim>\<open>mmu_map_range\<close> map exactly what they are asked to.
\<close>

unbundle bit_operations_syntax

section \<open>Entries in memory\<close>

definition ent :: "mem \<Rightarrow> ents" where
  "ent m b i = rd64 m (b + 8 * of_nat i)"

definition page_al :: "u64 \<Rightarrow> bool" where
  "page_al b \<longleftrightarrow> 4096 dvd unat b"

lemma is_page_aligned_iff:
  assumes "n < 64"
  shows "is_page_aligned x (2 ^ n) \<longleftrightarrow> 2 ^ n dvd unat x"
proof -
  have "x AND (2 ^ n - 1) = take_bit n x" by (simp add: take_bit_eq_mask mask_eq_exp_minus_1)
  moreover have "take_bit n x = 0 \<longleftrightarrow> unat x mod 2 ^ n = 0"
    by (metis take_bit_eq_mod unat_eq_zero unsigned_take_bit_eq)
  ultimately show ?thesis by (simp add: is_page_aligned_def dvd_eq_mod_eq_0)
qed

lemma page_al_iff: "page_al x \<longleftrightarrow> is_page_aligned x PAGE_SIZE"
  using is_page_aligned_iff[of 12 x] by (simp add: page_al_def)

lemma unat_entry_addr:
  assumes "page_al b" "i < 512"
  shows "unat (b + 8 * of_nat i) = unat b + 8 * i"
  using unat_add_frame[of b "8 * i"] assms by (simp add: page_al_def)

lemma page_end: "page_al b \<Longrightarrow> unat b + 4096 \<le> 2 ^ 64"
proof -
  assume "page_al b"
  then obtain k where "unat b = 4096 * k" by (auto simp: page_al_def)
  then show ?thesis using u64_less[of b] by simp
qed

lemma page_apart: "page_al a \<Longrightarrow> page_al b \<Longrightarrow> a \<noteq> b \<Longrightarrow> unat a + 4096 \<le> unat b \<or> unat b + 4096 \<le> unat a"
proof -
  assume "page_al a" "page_al b" "a \<noteq> b"
  then obtain j k where "unat a = 4096 * j" "unat b = 4096 * k" "j \<noteq> k"
    by (metis dvdE page_al_def word_unat_eq_iff)
  then show ?thesis by auto
qed

lemma ent_wr64:
  assumes "page_al b" "page_al b0" "i < 512" "i0 < 512"
  shows "ent (wr64 m (b0 + 8 * of_nat i0) v) b i = (if b = b0 \<and> i = i0 then v else ent m b i)"
proof (cases "b = b0 \<and> i = i0")
  case False
  have "unat b + 8 * i + 8 \<le> unat b0 + 8 * i0 \<or> unat b0 + 8 * i0 + 8 \<le> unat b + 8 * i"
    using False page_apart[OF assms(1,2)] assms(3,4) by (cases "b = b0") auto
  then have "disjoint_blocks (b0 + 8 * of_nat i0) (of_nat 8) (b + 8 * of_nat i) (of_nat 8)"
    using page_end[OF assms(1)] page_end[OF assms(2)] assms(3,4)
      unat_entry_addr[OF assms(1,3)] unat_entry_addr[OF assms(2,4)]
    by (intro disjoint_blocks_unat) auto
  then have "ent (wr64 m (b0 + 8 * of_nat i0) v) b i = ent m b i"
    unfolding ent_def by (rule rd_wr_disjoint) simp_all
  with False show ?thesis by auto
qed (simp add: ent_def)

lemma ent_zero_page:
  assumes "page_al f" "page_al b" "i < 512"
  shows "ent (store_bytes m f (replicate 4096 0)) b i = (if b = f then 0 else ent m b i)"
proof -
  have blk: "x \<in> blk f 4096 \<longleftrightarrow> unat f \<le> unat x \<and> unat x < unat f + 4096" for x
    using in_block_unat[of f "of_nat 4096" x] page_end[OF assms(1)] by (simp add: blk_in_block)
  have addr: "unat (b + 8 * of_nat i + of_nat k) = unat b + 8 * i + k" if "k < 8" for k
  proof -
    have "b + 8 * of_nat i + of_nat k = b + of_nat (8 * i + k)" by simp
    with that assms(2,3) unat_add_frame[of b "8 * i + k"] show ?thesis by (simp add: page_al_def add.assoc)
  qed
  show ?thesis
  proof (cases "b = f")
    case True
    have zero: "store_bytes m f (replicate 4096 0) x = 0" if "x \<in> blk f 4096" for x
    proof -
      from that obtain k where "k < 4096" "x = f + of_nat k" by (auto simp: blk_iff)
      then show ?thesis using store_bytes_inside[of k "replicate 4096 0" m f] by simp
    qed
    have "rd64 (store_bytes m f (replicate 4096 0)) (b + 8 * of_nat i) = rd64 (\<lambda>_. 0) (b + 8 * of_nat i)"
      by (rule rd_le_cong) (use True assms(3) addr in \<open>auto simp: blk intro!: zero\<close>)
    also have "\<dots> = (0 :: u64)" by (rule bit_word_eqI) (simp add: rd_le_bit)
    finally show ?thesis using True by (simp add: ent_def)
  next
    case False
    have "rd64 (store_bytes m f (replicate 4096 0)) (b + 8 * of_nat i) = (rd64 m (b + 8 * of_nat i) :: u64)"
    proof (rule rd_le_cong)
      fix k :: nat assume "k < 8"
      with page_apart[OF assms(1,2)] False addr assms(3) have "b + 8 * of_nat i + of_nat k \<notin> blk f 4096"
        by (auto simp: blk)
      then show "store_bytes m f (replicate 4096 0) (b + 8 * of_nat i + of_nat k) = m (b + 8 * of_nat i + of_nat k)"
        by (intro store_bytes_outside) simp
    qed
    with False show ?thesis by (simp add: ent_def)
  qed
qed

section \<open>Frames and entries\<close>

lemma frame_bits:
  assumes "4096 dvd unat (f :: u64)" "unat f < 2 ^ 52" "bit f n"
  shows "12 \<le> n \<and> n < 52"
proof
  have "take_bit 12 f = 0"
    using is_page_aligned_iff[of 12 f] assms(1)
    by (simp add: is_page_aligned_def take_bit_eq_mask mask_eq_exp_minus_1)
  then show "12 \<le> n"
    using assms(3) by (metis bit_0_eq bit_take_bit_iff bot_apply bot_bool_def not_le_imp_less)
  have "take_bit 52 f = f"
    using assms(2) by (simp add: word_unat_eq_iff unsigned_take_bit_eq take_bit_nat_eq_self)
  then show "n < 52" using assms(3) by (metis bit_take_bit_iff)
qed

lemma bit_paddr: "bit (e AND ENTRY_PADDR_MASK) n \<longleftrightarrow> bit e n \<and> 12 \<le> n \<and> n < 52"
proof -
  have e: "ENTRY_PADDR_MASK = push_bit 12 (mask 40)" by (simp add: mask_eq_exp_minus_1 push_bit_eq_mult)
  show ?thesis unfolding e bit_and_iff bit_push_bit_iff bit_mask_iff by (auto dest: bit_imp_le_length)
qed

text \<open>The flags of an entry lie outside its address field.\<close>

definition flags_only :: "u64 \<Rightarrow> bool" where
  "flags_only c \<longleftrightarrow> c AND ENTRY_PADDR_MASK = 0"

lemma flags_only_bit: "flags_only c \<Longrightarrow> bit c n \<Longrightarrow> n < 12 \<or> 52 \<le> n"
  using bit_paddr[of c n] by (auto simp: flags_only_def not_le)

lemma paddr_of_or:
  assumes "4096 dvd unat f" "unat f < 2 ^ 52" "flags_only c"
  shows "(f OR c) AND ENTRY_PADDR_MASK = f"
proof (rule bit_word_eqI)
  fix n
  show "bit ((f OR c) AND ENTRY_PADDR_MASK) n = bit f n"
    unfolding bit_paddr bit_or_iff using frame_bits[OF assms(1,2), of n] flags_only_bit[OF assms(3), of n]
    by auto
qed

lemma present_iff: "present e \<longleftrightarrow> bit e 0"
  and huge_iff: "huge e \<longleftrightarrow> bit e 7"
  using and_exp_eq_0_iff_not_bit[of e 0] and_exp_eq_0_iff_not_bit[of e 7]
  by (simp_all add: present_def huge_def)

lemma page_al_PHYS_TO_VIRT: "4096 dvd unat f \<Longrightarrow> page_al (PHYS_TO_VIRT f)"
  unfolding page_al_def PHYS_TO_VIRT_def by (simp add: unat_word_ariths dvd_mod)

lemma page_al_entry_to_table: "page_al (entry_to_table e)"
proof -
  have "is_page_aligned (e AND ENTRY_PADDR_MASK) PAGE_SIZE"
    by (simp add: is_page_aligned_def and.assoc)
  then show ?thesis
    unfolding entry_to_table_def page_al_iff[symmetric]
    by (intro page_al_PHYS_TO_VIRT) (simp add: page_al_def)
qed

lemma new_table_entry:
  assumes "4096 dvd unat f" "unat f < 2 ^ 52"
  shows "entry_to_table (f OR PAGE_PRESENT OR PAGE_RW OR PAGE_USER) = PHYS_TO_VIRT f"
    and "present (f OR PAGE_PRESENT OR PAGE_RW OR PAGE_USER)"
    and "\<not> huge (f OR PAGE_PRESENT OR PAGE_RW OR PAGE_USER)"
proof -
  show "entry_to_table (f OR PAGE_PRESENT OR PAGE_RW OR PAGE_USER) = PHYS_TO_VIRT f"
    using paddr_of_or[OF assms, of "PAGE_PRESENT OR PAGE_RW OR PAGE_USER"]
    by (simp add: entry_to_table_def flags_only_def)
  show "present (f OR PAGE_PRESENT OR PAGE_RW OR PAGE_USER)"
    "\<not> huge (f OR PAGE_PRESENT OR PAGE_RW OR PAGE_USER)"
    using frame_bits[OF assms, of 7] by (auto simp: present_iff huge_iff bit_or_iff)
qed

section \<open>Walking\<close>

text \<open>
  The invariant: the tables form a tree, the root is page-aligned, and no frame the allocator
  can still hand out is one of them.
\<close>

definition pt_ok :: "u64 set \<Rightarrow> u64 \<Rightarrow> mem \<Rightarrow> bool" where
  "pt_ok free pgd m \<longleftrightarrow> page_al pgd \<and> pt_tree (ent m) pgd
     \<and> (\<forall>b. is_pt (ent m) pgd b \<longrightarrow> VIRT_TO_PHYS b \<notin> free)"

definition same_leaves :: "u64 \<Rightarrow> mem \<Rightarrow> mem \<Rightarrow> bool" where
  "same_leaves pgd m m' \<longleftrightarrow>
     (\<forall>q. valid_path q \<longrightarrow> pt_leaf (ent m') 0 pgd q = pt_leaf (ent m) 0 pgd q)"

lemma table_at_page_al: "table_at E d b p = Some b' \<Longrightarrow> page_al b \<Longrightarrow> page_al b'"
  by (induction E d b p rule: table_at.induct) (auto simp: page_al_entry_to_table split: if_splits)

lemma is_pt_page_al: "is_pt E pgd b \<Longrightarrow> page_al pgd \<Longrightarrow> page_al b"
  by (auto simp: is_pt_def intro: table_at_page_al)

lemma same_leaves_trans: "same_leaves pgd m1 m2 \<Longrightarrow> same_leaves pgd m2 m3 \<Longrightarrow> same_leaves pgd m1 m3"
  by (simp add: same_leaves_def)

lemma same_leaves_at: "same_leaves pgd m m' \<Longrightarrow> valid_path q \<Longrightarrow> pt_leaf (ent m') 0 pgd q = pt_leaf (ent m) 0 pgd q"
  unfolding same_leaves_def by (elim allE impE) auto

lemma same_leaves_refl [simp]: "same_leaves pgd m m"
  by (simp add: same_leaves_def)

context frame_source
begin

lemma mmu_alloc_table_ok:
  assumes ok: "ok s" "pt_ok (avail s) pgd m"
    and p0: "valid_path p0" "table_at (ent m) 0 pgd p0 = Some b0" "length p0 < 3" and i0: "i0 < 512"
    and old: "\<not> present (ent m b0 i0)"
    and run: "mmu_alloc_table alloc (b0 + 8 * of_nat i0) (s, m) = Ret (s', m')"
  shows "ok s'" and "pt_ok (avail s') pgd m'" and "same_leaves pgd m m'"
    and "table_at (ent m') 0 pgd (p0 @ [i0]) = Some (entry_to_table (ent m' b0 i0))"
    and "avail s' \<subseteq> avail s" and "card (avail s) \<le> card (avail s') + 1"
proof -
  obtain f where a: "alloc s = (f, s')" and f0: "f \<noteq> 0"
    and m': "m' = wr64 (store_bytes m (PHYS_TO_VIRT f) (replicate 4096 0)) (b0 + 8 * of_nat i0)
      (f OR PAGE_PRESENT OR PAGE_RW OR PAGE_USER)"
    using run by (auto simp: mmu_alloc_table_def memset_store split: prod.splits if_splits)
  let ?t = "PHYS_TO_VIRT f" and ?v = "f OR PAGE_PRESENT OR PAGE_RW OR PAGE_USER"
  have fa: "f \<in> avail s" by (rule alloc_avail[OF ok(1) a f0])
  note fr = avail_frame[OF ok(1) fa]
  note v = new_table_entry[of f]
  have al: "page_al ?t" "page_al pgd" "page_al b0"
    using fr ok(2) table_at_page_al[OF p0(2)] by (auto simp: page_al_PHYS_TO_VIRT pt_ok_def)
  have tree: "pt_tree (ent m) pgd" using ok(2) by (simp add: pt_ok_def)
  have nt: "\<not> is_pt (ent m) pgd ?t" using ok(2) fa by (auto simp: pt_ok_def)
  have E': "ent m' b i = (if b = b0 \<and> i = i0 then ?v else if b = ?t then 0 else ent m b i)"
    if "page_al b" "i < 512" for b i
    using that al i0 by (simp add: m' ent_wr64 ent_zero_page)
  have pt0: "is_pt (ent m) pgd b0" using p0 by (auto simp: is_pt_def)
  then have bt: "b0 \<noteq> ?t" using nt by auto
  have same: "same_but (ent m) (ent m') pgd b0 i0"
    using nt E' is_pt_page_al[OF _ al(2)] by (fastforce simp: same_but_def)
  have tbl: "is_table (length p0) ?v" using v(2,3) fr p0(3) by (simp add: is_table_def)
  have new: "ent m' b0 i0 = ?v" "entry_to_table ?v = ?t" "\<forall>i < 512. ent m' ?t i = 0"
    using E'[OF al(3) i0] E'[OF al(1)] bt v(1) fr by auto
  note fresh = write_fresh_table[OF tree p0(1,2) i0 same new(1) tbl new(2) nt new(3) old]
  show "ok s'" by (rule alloc_ok[OF ok(1) a])
  have av: "avail s' = avail s - {f}" by (rule alloc_taken[OF ok(1) a])
  then show "avail s' \<subseteq> avail s" by blast
  show "card (avail s) \<le> card (avail s') + 1" using fa by (simp add: av card_Diff_singleton)
  show "same_leaves pgd m m'" using fresh(2) by (simp add: same_leaves_def)
  show "table_at (ent m') 0 pgd (p0 @ [i0]) = Some (entry_to_table (ent m' b0 i0))"
    using fresh(1) new by simp
  show "pt_ok (avail s') pgd m'"
    using fresh(3) ok(2) av by (auto simp: pt_ok_def dest!: fresh(4))
qed

lemma mmu_alloc_table_succeeds:
  "ok s \<Longrightarrow> avail s \<noteq> {} \<Longrightarrow> \<exists>s' m'. mmu_alloc_table alloc e (s, m) = Ret (s', m')"
  using alloc_succeeds[of s] by (auto simp: mmu_alloc_table_def Let_def split: prod.splits)

text \<open>One step down, into a table that exists or is created.\<close>

lemma mmu_descend_ok:
  assumes ok: "ok s" "pt_ok (avail s) pgd m"
    and p0: "valid_path p0" "table_at (ent m) 0 pgd p0 = Some b0" "length p0 < 3" and i0: "i0 < 512"
    and small: "length p0 = 0 \<or> \<not> (present (ent m b0 i0) \<and> huge (ent m b0 i0))"
    and run: "mmu_descend alloc (b0 + 8 * of_nat i0) (s, m) = Ret (b, s', m')"
  shows "ok s'" and "pt_ok (avail s') pgd m'" and "same_leaves pgd m m'"
    and "table_at (ent m') 0 pgd (p0 @ [i0]) = Some b"
    and "avail s' \<subseteq> avail s" and "card (avail s) \<le> card (avail s') + 1"
proof -
  have rd: "rd64 m (b0 + 8 * of_nat i0) = ent m b0 i0" for m by (simp add: ent_def)
  have "ok s' \<and> pt_ok (avail s') pgd m' \<and> same_leaves pgd m m'
    \<and> table_at (ent m') 0 pgd (p0 @ [i0]) = Some b \<and> avail s' \<subseteq> avail s
    \<and> card (avail s) \<le> card (avail s') + 1"
  proof (cases "present (ent m b0 i0)")
    case True
    with run have "s' = s" "m' = m" "b = entry_to_table (ent m b0 i0)"
      by (auto simp: mmu_descend_def rd)
    with ok p0 True small show ?thesis by (auto simp: table_at_append is_table_def)
  next
    case False
    with run have a: "mmu_alloc_table alloc (b0 + 8 * of_nat i0) (s, m) = Ret (s', m')"
      and b: "b = entry_to_table (ent m' b0 i0)"
      by (auto simp: mmu_descend_def rd exec_bind_Ret_iff)
    from mmu_alloc_table_ok[OF ok p0 i0 False a] b show ?thesis by simp
  qed
  then show "ok s'" "pt_ok (avail s') pgd m'" "same_leaves pgd m m'"
    "table_at (ent m') 0 pgd (p0 @ [i0]) = Some b"
    "avail s' \<subseteq> avail s" "card (avail s) \<le> card (avail s') + 1" by auto
qed

lemma mmu_descend_succeeds:
  assumes "ok s" "avail s \<noteq> {}"
  shows "\<exists>b s' m'. mmu_descend alloc e (s, m) = Ret (b, s', m')"
  using mmu_alloc_table_succeeds[OF assms, of e m] by (auto simp: mmu_descend_def)

end

section \<open>Paths of addresses\<close>

definition vpath :: "u64 \<Rightarrow> nat list" where
  "vpath v = [unat (PGD_INDEX v), unat (PUD_INDEX v), unat (PMD_INDEX v), unat (PTE_INDEX v)]"

lemmas index_defs = PGD_INDEX_def PUD_INDEX_def PMD_INDEX_def PTE_INDEX_def

lemma index_mask: "(0x1FF :: u64) = mask 9"
  by (simp add: mask_eq_exp_minus_1)

lemma unat_index: "unat (drop_bit k v AND 0x1FF) = unat v div 2 ^ k mod 512" for v :: u64
proof -
  have "drop_bit k v AND 0x1FF = take_bit 9 (drop_bit k v)"
    unfolding index_mask by (simp add: take_bit_eq_mask)
  then have "unat (drop_bit k v AND 0x1FF) = take_bit 9 (drop_bit k (unat v))"
    using take_bit_nat_eq_self[OF u64_less[of v]]
    by (simp only: unsigned_take_bit_eq unsigned_drop_bit_eq) simp
  then show ?thesis by (simp add: take_bit_eq_mod drop_bit_eq_div)
qed

lemma vpath_nat:
  "vpath v = [unat v div 2 ^ 39 mod 512, unat v div 2 ^ 30 mod 512,
     unat v div 2 ^ 21 mod 512, unat v div 2 ^ 12 mod 512]"
  by (simp only: vpath_def index_defs unat_index)

lemma length_vpath [simp]: "length (vpath v) = 4"
  by (simp add: vpath_def)

lemma valid_vpath: "valid_path (vpath v)"
  by (auto simp: vpath_nat)

definition level_depth :: "mmu_level \<Rightarrow> nat" where
  "level_depth l = (case l of LVL_PGD \<Rightarrow> 0 | LVL_PUD \<Rightarrow> 1 | LVL_PMD \<Rightarrow> 2 | LVL_PTE \<Rightarrow> 3)"

text \<open>The address of an entry, in the word form of the code.\<close>

lemma entry_addr: "b + 8 * x = b + 8 * of_nat (unat x)" for b x :: u64
  by simp

context frame_source
begin

lemma mmu_walk_ok:
  assumes ok: "ok s" "pt_ok (avail s) pgd m"
    and run: "mmu_walk alloc pgd v l (s, m) = Ret (e, h, s', m')"
  shows "ok s' \<and> pt_ok (avail s') pgd m' \<and> same_leaves pgd m m' \<and> avail s' \<subseteq> avail s
    \<and> card (avail s) \<le> card (avail s') + 3
    \<and> (\<not> h \<longrightarrow> (\<exists>b. e = b + 8 * of_nat (vpath v ! level_depth l)
          \<and> table_at (ent m') 0 pgd (take (level_depth l) (vpath v)) = Some b))"
proof -
  note descend = mmu_descend_ok
  have idx: "unat (PGD_INDEX v) < 512" "unat (PUD_INDEX v) < 512" "unat (PMD_INDEX v) < 512"
    using valid_vpath[of v] by (auto simp: vpath_def)
  show ?thesis
  proof (cases "l = LVL_PGD")
    case True
    with run ok show ?thesis by (auto simp: mmu_walk_def level_depth_def vpath_def)
  next
    case l0: False
    with run obtain b1 s1 m1 where d1: "mmu_descend alloc (pgd + 8 * PGD_INDEX v) (s, m) = Ret (b1, s1, m1)"
      by (auto simp: mmu_walk_def Let_def exec_bind_Ret_iff)
    let ?p1 = "[unat (PGD_INDEX v)]" and ?p2 = "[unat (PGD_INDEX v), unat (PUD_INDEX v)]"
    have v0: "valid_path []" "table_at (ent m) 0 pgd [] = Some pgd" "length ([] :: nat list) < 3"
      "length ([] :: nat list) = 0 \<or> \<not> (present (ent m pgd (unat (PGD_INDEX v))) \<and> huge (ent m pgd (unat (PGD_INDEX v))))"
      by simp_all
    have v1: "valid_path ?p1" "length ?p1 < 3" and v2: "valid_path ?p2" "length ?p2 < 3"
      using idx by simp_all
    note d1' = descend[OF ok v0(1-3) idx(1) v0(4) d1[unfolded entry_addr[of pgd "PGD_INDEX v"]],
        unfolded append.simps]
    let ?e1 = "ent m1 b1 (unat (PUD_INDEX v))"
    show ?thesis
    proof (cases "l = LVL_PUD \<or> present ?e1 \<and> huge ?e1")
      case True
      with run l0 d1 d1' show ?thesis
        by (auto simp: mmu_walk_def Let_def level_depth_def vpath_def ent_def split: if_splits)
    next
      case l1: False
      with run l0 d1 obtain b2 s2 m2 where
        d2: "mmu_descend alloc (b1 + 8 * PUD_INDEX v) (s1, m1) = Ret (b2, s2, m2)"
        by (auto simp: mmu_walk_def Let_def exec_bind_Ret_iff ent_def split: if_splits)
      have t1: "length ?p1 = 0 \<or> \<not> (present ?e1 \<and> huge ?e1)" using l1 by simp
      note d2' = descend[OF d1'(1,2) v1(1) d1'(4) v1(2) idx(2) t1 d2[unfolded entry_addr[of b1 "PUD_INDEX v"]],
          unfolded append.simps]
      let ?e2 = "ent m2 b2 (unat (PMD_INDEX v))"
      show ?thesis
      proof (cases "l = LVL_PMD \<or> present ?e2 \<and> huge ?e2")
        case True
        with run l0 l1 d1 d2 d1' d2' show ?thesis
          by (auto simp: mmu_walk_def Let_def level_depth_def vpath_def ent_def same_leaves_def split: if_splits)
      next
        case l2: False
        with run l0 l1 d1 d2 obtain b3 where
          d3: "mmu_descend alloc (b2 + 8 * PMD_INDEX v) (s2, m2) = Ret (b3, s', m')"
          and e: "e = b3 + 8 * PTE_INDEX v"
          by (auto simp: mmu_walk_def Let_def exec_bind_Ret_iff ent_def split: if_splits)
        have t2: "length ?p2 = 0 \<or> \<not> (present ?e2 \<and> huge ?e2)"
          using l2 by simp
        note d3' = descend[OF d2'(1,2) v2(1) d2'(4) v2(2) idx(3) t2 d3[unfolded entry_addr[of b2 "PMD_INDEX v"]],
            unfolded append.simps]
        have "l = LVL_PTE" using l0 l1 l2 by (cases l) auto
        with e d1' d2' d3' show ?thesis
          by (auto simp: level_depth_def vpath_def same_leaves_def)
      qed
    qed
  qed
qed

lemma mmu_map_one_leaf:
  fixes sz v paddr opts
  defines "d \<equiv> level_depth (level_of sz)"
    and "val \<equiv> paddr OR PAGE_PRESENT OR prot_flags opts OR (if sz \<noteq> PAGE_4K then PAGE_PS else 0)"
  assumes ok: "ok s" "pt_ok (avail s) pgd m"
    and run: "mmu_map_one alloc pgd v paddr sz opts (s, m) = Ret (s', m')"
  shows "ok s'" and "pt_ok (avail s') pgd m'" and "avail s' \<subseteq> avail s"
    and "valid_path q \<Longrightarrow> pt_leaf (ent m') 0 pgd q =
      (if prefix (take (Suc d) (vpath v)) q then Some (d, val) else pt_leaf (ent m) 0 pgd q)"
proof -
  from run obtain e s1 m1 where w: "mmu_walk alloc pgd v (level_of sz) (s, m) = Ret (e, False, s1, m1)"
    and r: "s' = s1" "m' = wr64 m1 e val"
    by (auto simp: mmu_map_one_def val_def exec_bind_Ret_iff Let_def split: if_splits)
  have d: "d < 4" by (auto simp: d_def level_depth_def split: mmu_level.split)
  from mmu_walk_ok[OF ok w] obtain b where
    ok1: "ok s1" "pt_ok (avail s1) pgd m1" "same_leaves pgd m m1" "avail s1 \<subseteq> avail s"
    and e: "e = b + 8 * of_nat (vpath v ! d)" and t: "table_at (ent m1) 0 pgd (take d (vpath v)) = Some b"
    by (auto simp: d_def)
  have vp: "valid_path (take d (vpath v))" "vpath v ! d < 512"
    using valid_vpath[of v] d nth_mem[of d "vpath v"] by (auto dest: in_set_takeD)
  have al: "page_al pgd" "page_al b" using ok1(2) table_at_page_al[OF t] by (auto simp: pt_ok_def)
  have tree: "pt_tree (ent m1) pgd" using ok1(2) by (simp add: pt_ok_def)
  have E': "ent m' b' i = (if b' = b \<and> i = vpath v ! d then val else ent m1 b' i)"
    if "page_al b'" "i < 512" for b' i
    using that al vp(2) by (simp add: r e ent_wr64)
  have same: "same_but (ent m1) (ent m') pgd b (vpath v ! d)"
    using E' is_pt_page_al[OF _ al(1)] by (fastforce simp: same_but_def)
  have len: "length (take d (vpath v)) = d" using d by (simp add: vpath_def)
  have val: "present val" "\<not> is_table (length (take d (vpath v))) val"
    by (auto simp: val_def d_def level_of_def level_depth_def is_table_def present_iff huge_iff bit_or_iff
        vpath_def)
  note wl = write_leaf[OF tree vp(1) t same E'[OF al(2) vp(2), simplified] val(2)]
  have snoc: "take d (vpath v) @ [vpath v ! d] = take (Suc d) (vpath v)"
    using d by (simp add: take_Suc_conv_app_nth)
  show "ok s'" "avail s' \<subseteq> avail s" using ok1 r by auto
  show "pt_ok (avail s') pgd m'"
    using ok1(2) wl(3,4) by (auto simp: pt_ok_def r)
  show "pt_leaf (ent m') 0 pgd q =
      (if prefix (take (Suc d) (vpath v)) q then Some (d, val) else pt_leaf (ent m) 0 pgd q)" if "valid_path q"
    using wl(2)[OF that] val(1) ok1(3) that unfolding snoc len by (simp add: same_leaves_def)
qed

end

section \<open>Translation\<close>

text \<open>
  What the processor makes of the tables: the physical address, and the flags of the entry
  that maps the page.
\<close>

definition page_bits :: "nat \<Rightarrow> nat" where
  "page_bits d = 39 - 9 * d"

definition entry_flags :: "u64 \<Rightarrow> u64" where
  "entry_flags e = e AND NOT (ENTRY_PADDR_MASK OR PAGE_PS)"

definition translate :: "mem \<Rightarrow> u64 \<Rightarrow> u64 \<Rightarrow> (u64 \<times> u64) option" where
  "translate m pgd w = map_option (\<lambda>(d, e).
      (((e AND ENTRY_PADDR_MASK) AND NOT (mask (page_bits d))) + (w AND mask (page_bits d)), entry_flags e))
     (pt_leaf (ent m) 0 pgd (vpath w))"

definition canonical :: "u64 \<Rightarrow> bool" where
  "canonical v \<longleftrightarrow> unat v < 2 ^ 47 \<or> 2 ^ 64 - 2 ^ 47 \<le> unat v"

lemma canonical_div39:
  assumes "canonical v" "canonical w" "unat v div 2 ^ 39 mod 512 = unat w div 2 ^ 39 mod 512"
  shows "unat v div 2 ^ 39 = unat w div 2 ^ 39"
proof -
  have b: "unat x div 2 ^ 39 div 512 = (if unat x < 2 ^ 47 then 0 else 65535)" if "canonical x" for x :: u64
    using that u64_less[of x] by (auto simp: canonical_def div_mult2_eq[symmetric] intro!: div_nat_eqI)
  have lo: "unat x div 2 ^ 39 mod 512 < 256 \<longleftrightarrow> unat x < 2 ^ 47" if "canonical x" for x :: u64
  proof (cases "unat x < 2 ^ 47")
    case False
    with that have "33554176 \<le> unat x div 2 ^ 39" by (auto simp: canonical_def)
    moreover have "unat x div 2 ^ 39 = 65535 * 512 + unat x div 2 ^ 39 mod 512"
      using b[OF that] False div_mult_mod_eq[of "unat x div 2 ^ 39" 512] by simp
    ultimately show ?thesis using False by linarith
  next
    case True
    then have "unat x div 2 ^ 39 < 256" by (simp add: div_less_iff_less_mult)
    with True show ?thesis by simp
  qed
  show ?thesis
    using b[OF assms(1)] b[OF assms(2)] lo[OF assms(1)] lo[OF assms(2)] assms(3)
      div_mult_mod_eq[of "unat v div 2 ^ 39" 512] div_mult_mod_eq[of "unat w div 2 ^ 39" 512]
    by simp
qed

text \<open>Two canonical addresses have the same path down to depth \<open>d\<close> when they lie in the same page
  of that depth.\<close>

lemma same_path_iff:
  assumes "canonical v" "canonical w" "1 \<le> d" "d \<le> 3"
  shows "prefix (take (Suc d) (vpath v)) (vpath w) \<longleftrightarrow>
    unat v div 2 ^ page_bits d = unat w div 2 ^ page_bits d"
proof -
  let ?V = "unat v" and ?W = "unat w"
  have prefix_take: "prefix xs ys \<longleftrightarrow> take (length xs) ys = xs" for xs ys :: "nat list"
    by (auto simp: prefix_def) (metis append_take_drop_id)
  have pre: "prefix (take (Suc d) (vpath v)) (vpath w) \<longleftrightarrow> take (Suc d) (vpath w) = take (Suc d) (vpath v)"
    using assms(4) by (simp add: prefix_take min_absorb2)
  have up: "x div 2 ^ (k + 9) = x div 2 ^ k div 512" for x k :: nat
    by (simp add: power_add div_mult2_eq)
  have step: "?V div 2 ^ k = ?W div 2 ^ k \<longleftrightarrow>
      ?V div 2 ^ (k + 9) = ?W div 2 ^ (k + 9) \<and> ?V div 2 ^ k mod 512 = ?W div 2 ^ k mod 512" for k
    unfolding up by (metis div_mult_mod_eq)
  have top: "?V div 2 ^ 39 = ?W div 2 ^ 39 \<longleftrightarrow> ?V div 2 ^ 39 mod 512 = ?W div 2 ^ 39 mod 512"
    using canonical_div39[OF assms(1,2)] by auto
  define A B where "A k = ?V div 2 ^ k" and "B k = ?W div 2 ^ k" for k
  note AB = A_def[symmetric] B_def[symmetric]
  have steps: "A 39 = B 39 \<longleftrightarrow> A 39 mod 512 = B 39 mod 512"
    "A 30 = B 30 \<longleftrightarrow> A 39 = B 39 \<and> A 30 mod 512 = B 30 mod 512"
    "A 21 = B 21 \<longleftrightarrow> A 30 = B 30 \<and> A 21 mod 512 = B 21 mod 512"
    "A 12 = B 12 \<longleftrightarrow> A 21 = B 21 \<and> A 12 mod 512 = B 12 mod 512"
    using top step[of 30] step[of 21] step[of 12] unfolding AB by simp_all
  have vp: "vpath v = [A 39 mod 512, A 30 mod 512, A 21 mod 512, A 12 mod 512]"
    "vpath w = [B 39 mod 512, B 30 mod 512, B 21 mod 512, B 12 mod 512]"
    unfolding vpath_nat AB by simp_all
  consider "d = 1" | "d = 2" | "d = 3" using assms(3,4) by linarith
  then show ?thesis
    unfolding pre vp AB by cases (auto simp: page_bits_def steps)
qed

lemma div_eq_range: "0 < n \<Longrightarrow> x div n = j \<longleftrightarrow> n * j \<le> x \<and> x < n * j + n" for x n j :: nat
  using times_div_less_eq_dividend[of n x] dividend_less_times_div[of n x]
  by (auto intro!: div_nat_eqI simp: algebra_simps)

lemma same_page_block:
  assumes "canonical v" "canonical w" "1 \<le> d" "d \<le> 3" "2 ^ page_bits d dvd unat v"
  shows "prefix (take (Suc d) (vpath v)) (vpath w) \<longleftrightarrow> in_block v (2 ^ page_bits d) w"
proof -
  from assms(5) obtain j where j: "unat v = 2 ^ page_bits d * j" by auto
  have pb: "page_bits d = 30 \<or> page_bits d = 21 \<or> page_bits d = 12"
    using assms(3,4) by (auto simp: page_bits_def le_Suc_eq numeral_eq_Suc)
  then have u: "unat (2 ^ page_bits d :: u64) = 2 ^ page_bits d" by auto
  have le: "unat v + 2 ^ page_bits d \<le> 2 ^ 64" using pb u64_less[of v] j by auto
  have "in_block v (2 ^ page_bits d) w \<longleftrightarrow> unat w div 2 ^ page_bits d = j"
    using in_block_unat[of v "2 ^ page_bits d" w] le u by (simp add: div_eq_range j)
  then show ?thesis using j by (auto simp: same_path_iff[OF assms(1-4)])
qed

lemma page_offset:
  assumes "in_block v (2 ^ k) w" "2 ^ k dvd unat v" "k < 52"
  shows "w AND mask k = w - v"
proof -
  have u: "unat (2 ^ k :: u64) = 2 ^ k" using assms(3) by (simp add: unat_pow2)
  from assms(1) have i: "unat (w - v) < 2 ^ k" by (simp add: in_block_def word_less_nat_alt u)
  have "unat w mod 2 ^ k = (unat v + unat (w - v)) mod 2 ^ k"
  proof -
    have "unat w = (unat v + unat (w - v)) mod 2 ^ 64"
      using unat_plus_mod[of v "w - v"] by simp
    moreover have "(2 :: nat) ^ k dvd 2 ^ 64" using assms(3) by (intro le_imp_power_dvd) simp
    ultimately show ?thesis by (simp add: mod_mod_cancel)
  qed
  also have "\<dots> = unat (w - v)" using assms(2) i by (auto simp: dvd_def)
  finally have "unat (take_bit k w) = unat (w - v)"
    by (simp only: unat_take_bit)
  then have "take_bit k w = w - v" by (simp only: word_unat_eq_iff)
  then show ?thesis by (simp add: take_bit_eq_mask)
qed

lemma bit_paddr_mask: "bit ENTRY_PADDR_MASK n \<longleftrightarrow> 12 \<le> n \<and> n < 52"
  using bit_paddr[of "- 1" n] by (auto simp: bit_simps)

lemma bit_PS: "bit PAGE_PS n \<longleftrightarrow> n = 7"
proof -
  have "PAGE_PS = 2 ^ 7" by simp
  then show ?thesis by (simp only: bit_exp_iff) auto
qed

lemma bit_PRESENT: "bit PAGE_PRESENT n \<longleftrightarrow> n = 0"
  by (simp add: bit_1_iff)

lemma leaf_entry:
  assumes "4096 dvd unat p" "unat p < 2 ^ 52" "flags_only prot" "\<not> huge prot" "ps = 0 \<or> ps = PAGE_PS"
  shows "(p OR PAGE_PRESENT OR prot OR ps) AND ENTRY_PADDR_MASK = p"
    and "entry_flags (p OR PAGE_PRESENT OR prot OR ps) = PAGE_PRESENT OR prot"
proof -
  have "flags_only (PAGE_PRESENT OR prot OR ps)"
    using assms(3,5) by (auto simp: flags_only_def bit.conj_disj_distrib2)
  from paddr_of_or[OF assms(1,2) this] show "(p OR PAGE_PRESENT OR prot OR ps) AND ENTRY_PADDR_MASK = p" .
  show "entry_flags (p OR PAGE_PRESENT OR prot OR ps) = PAGE_PRESENT OR prot"
  proof (rule bit_word_eqI)
    fix n assume "n < LENGTH(64)"
    have ps: "bit ps n \<Longrightarrow> n = 7" using assms(5) bit_PS[of n] by (elim disjE) simp_all
    have "bit (entry_flags (p OR PAGE_PRESENT OR prot OR ps)) n \<longleftrightarrow>
        (bit p n \<or> bit PAGE_PRESENT n \<or> bit prot n \<or> bit ps n)
        \<and> \<not> (bit ENTRY_PADDR_MASK n \<or> bit PAGE_PS n)"
      using \<open>n < LENGTH(64)\<close> unfolding entry_flags_def bit_and_iff bit_or_iff bit_not_iff by auto
    then show "bit (entry_flags (p OR PAGE_PRESENT OR prot OR ps)) n = bit (PAGE_PRESENT OR prot) n"
      unfolding bit_or_iff bit_paddr_mask bit_PS bit_PRESENT
      using frame_bits[OF assms(1,2), of n] flags_only_bit[OF assms(3), of n] assms(4) ps
      by (auto simp: huge_iff)
  qed
qed

definition page_depth :: "page_size \<Rightarrow> nat" where
  "page_depth sz = level_depth (level_of sz)"

lemma page_depth_simps [simp]:
  "page_depth PAGE_4K = 3" "page_depth PAGE_2M = 2" "page_depth PAGE_1G = 1"
  by (simp_all add: page_depth_def level_of_def level_depth_def)

context frame_source
begin

lemma mmu_map_one_translate:
  fixes sz v p opts
  defines "k \<equiv> page_bits (page_depth sz)"
  assumes ok: "ok s" "pt_ok (avail s) pgd m"
    and run: "mmu_map_one alloc pgd v p sz opts (s, m) = Ret (s', m')"
    and c: "canonical v" "canonical w" and al: "2 ^ k dvd unat v" "2 ^ k dvd unat p" "unat p < 2 ^ 52"
    and fl: "flags_only (prot_flags opts)" "\<not> huge (prot_flags opts)"
  shows "translate m' pgd w =
    (if in_block v (2 ^ k) w then Some (p + (w - v), PAGE_PRESENT OR prot_flags opts) else translate m pgd w)"
proof -
  let ?d = "page_depth sz"
  let ?val = "p OR PAGE_PRESENT OR prot_flags opts OR (if sz \<noteq> PAGE_4K then PAGE_PS else 0)"
  have d: "1 \<le> ?d" "?d \<le> 3" by (cases sz; simp)+
  have k: "12 \<le> k" "k < 52" by (cases sz; simp add: k_def page_bits_def)+
  note leaf = mmu_map_one_leaf(4)[OF ok run valid_vpath[of w], folded page_depth_def]
  have blk: "prefix (take (Suc ?d) (vpath v)) (vpath w) \<longleftrightarrow> in_block v (2 ^ k) w"
    using same_page_block[OF c d] al(1) by (simp add: k_def)
  have "4096 dvd unat p"
  proof -
    have "(2 :: nat) ^ 12 dvd 2 ^ k" using k(1) by (rule le_imp_power_dvd)
    with al(2) show ?thesis by (auto intro: dvd_trans)
  qed
  note le = leaf_entry[OF this al(3) fl, of "if sz \<noteq> PAGE_4K then PAGE_PS else 0"]
  have pm: "p AND NOT (mask k) = p"
  proof -
    have "unat (take_bit k p) = 0" using al(2) by (simp only: unat_take_bit) auto
    then have "take_bit k p = 0" by (simp only: unat_eq_zero)
    then show ?thesis using bits_ident[of k p] by (simp add: and_not_mask_eq)
  qed
  show ?thesis
  proof (cases "in_block v (2 ^ k) w")
    case True
    then show ?thesis
      using leaf blk le pm page_offset[OF True al(1) k(2)]
      by (auto simp: translate_def k_def[symmetric])
  next
    case False
    with leaf blk show ?thesis by (simp add: translate_def)
  qed
qed

end

section \<open>Ranges\<close>

definition canonical_range :: "u64 \<Rightarrow> u64 \<Rightarrow> bool" where
  "canonical_range v len \<longleftrightarrow> unat v + unat len \<le> 2 ^ 47
     \<or> 2 ^ 64 - 2 ^ 47 \<le> unat v \<and> unat v + unat len \<le> 2 ^ 64"

lemma canonical_range_start: "canonical_range v len \<Longrightarrow> 0 < len \<Longrightarrow> canonical v"
  by (auto simp: canonical_range_def canonical_def word_less_nat_alt)

lemma canonical_range_step:
  assumes "canonical_range v len" "c \<le> len"
  shows "canonical_range (v + c) (len - c)"
proof -
  have l: "unat (len - c) = unat len - unat c" "unat c \<le> unat len"
    using assms(2) by (auto simp: unat_sub word_le_nat_alt)
  show ?thesis
  proof (cases "unat v + unat c < 2 ^ 64")
    case True
    then show ?thesis using assms(1) l by (auto simp: canonical_range_def unat_add_small)
  next
    case False
    with assms(1) l have "unat v + unat c = 2 ^ 64" "unat len = unat c" by (auto simp: canonical_range_def)
    then show ?thesis using l by (simp add: canonical_range_def unat_plus_mod)
  qed
qed

lemma in_block_split:
  assumes "c \<le> len"
  shows "in_block v len w \<longleftrightarrow> in_block v c w \<or> in_block (v + c) (len - c) w"
    and "\<not> (in_block v c w \<and> in_block (v + c) (len - c) w)"
proof -
  define x where "x = w - v"
  have e: "w - (v + c) = x - c" by (simp add: x_def)
  have l: "unat (len - c) = unat len - unat c" "unat c \<le> unat len"
    using assms by (auto simp: unat_sub word_le_nat_alt)
  have lt: "\<not> x - c < len - c" if "x < c"
  proof -
    have "unat (x - c) + unat c = 2 ^ 64 + unat x"
      using that unat_sub_if'[of x c] u64_less[of c] by (auto simp: word_less_nat_alt)
    then show ?thesis using l u64_less[of len] by (simp add: word_less_nat_alt)
  qed
  have ge: "x - c < len - c \<longleftrightarrow> x < len" if "\<not> x < c"
    using that l unat_sub[of c x] by (auto simp: word_less_nat_alt word_le_nat_alt not_less)
  show "in_block v len w \<longleftrightarrow> in_block v c w \<or> in_block (v + c) (len - c) w"
    using lt ge assms by (auto simp: in_block_def e x_def[symmetric])
  show "\<not> (in_block v c w \<and> in_block (v + c) (len - c) w)"
    using lt by (auto simp: in_block_def e x_def[symmetric])
qed

lemma choose_page_correct:
  assumes "choose_page g1 v p len = (sz, c)" "4096 dvd unat v" "4096 dvd unat p" "4096 dvd unat len" "0 < len"
  shows "c = 2 ^ page_bits (page_depth sz)" and "2 ^ page_bits (page_depth sz) dvd unat v"
    and "2 ^ page_bits (page_depth sz) dvd unat p" and "c \<le> len" and "4096 dvd unat c" and "4096 \<le> unat c"
proof -
  have four: "PAGE_SIZE \<le> len"
    using assms(4,5) by (auto simp: word_le_nat_alt word_less_nat_alt dvd_imp_le)
  have al: "is_page_aligned x PAGE_SIZE_1G \<longleftrightarrow> 2 ^ 30 dvd unat x" "is_page_aligned x PAGE_SIZE_2M \<longleftrightarrow> 2 ^ 21 dvd unat x" for x
    using is_page_aligned_iff[of 30 x] is_page_aligned_iff[of 21 x] by simp_all
  show "c = 2 ^ page_bits (page_depth sz)" "2 ^ page_bits (page_depth sz) dvd unat v"
    "2 ^ page_bits (page_depth sz) dvd unat p" "c \<le> len" "4096 dvd unat c" "4096 \<le> unat c"
    using assms four by (auto simp: choose_page_def al page_bits_def split: if_splits)
qed

definition map_flags_ok :: "pgprot \<Rightarrow> bool" where
  "map_flags_ok opts \<longleftrightarrow> flags_only (prot_flags opts) \<and> \<not> huge (prot_flags opts)"

lemma mmu_descend_total: "mmu_descend alloc e st \<noteq> Diverge"
  by (simp add: mmu_descend_def mmu_alloc_table_def exec_bind_Diverge_iff Let_def split: prod.split)

lemma mmu_map_one_total: "mmu_map_one alloc pgd v p sz opts st \<noteq> Diverge"
proof -
  have "mmu_walk alloc pgd v l st \<noteq> Diverge" for l
    unfolding mmu_walk_def Let_def by (simp add: exec_bind_Diverge_iff mmu_descend_total)
  then show ?thesis
    unfolding mmu_map_one_def by (simp add: Let_def exec_bind_Diverge_iff)
qed

text \<open>Every iteration takes at least a page off the length, so the fuel is enough.\<close>

lemma mmu_map_loop_terminates:
  "unat len div 4096 < fuel \<Longrightarrow> 4096 dvd unat v \<Longrightarrow> 4096 dvd unat p \<Longrightarrow> 4096 dvd unat len \<Longrightarrow>
   mmu_map_loop fuel alloc g1 pgd v p len opts st \<noteq> Diverge"
proof (induction fuel arbitrary: v p len st)
  case (Suc fuel)
  show ?case
  proof (cases "len > 0")
    case True
    obtain sz c where c: "choose_page g1 v p len = (sz, c)" by force
    note cp = choose_page_correct[OF c Suc.prems(2-4) True]
    have l: "unat (len - c) = unat len - unat c" "unat c \<le> unat len"
      using cp(4) by (auto simp: unat_sub word_le_nat_alt)
    have "(unat len - unat c) div 4096 < unat len div 4096"
      using cp(5,6) l Suc.prems(4) by (auto simp flip: right_diff_distrib')
    then have "mmu_map_loop fuel alloc g1 pgd (v + c) (p + c) (len - c) opts st' \<noteq> Diverge" for st'
      using Suc.prems cp(5) l
      by (intro Suc.IH) (auto simp: unat_plus_mod dvd_mod intro: dvd_diff_nat)
    with True c show ?thesis by (auto simp: exec_bind_Diverge_iff mmu_map_one_total)
  qed simp
qed simp

context frame_source
begin

lemma mmu_map_loop_translate:
  "mmu_map_loop fuel alloc g1 pgd v p len opts (s, m) = Ret (s', m') \<Longrightarrow> ok s \<Longrightarrow> pt_ok (avail s) pgd m \<Longrightarrow>
   4096 dvd unat v \<Longrightarrow> 4096 dvd unat p \<Longrightarrow> 4096 dvd unat len \<Longrightarrow> canonical_range v len \<Longrightarrow>
   unat p + unat len \<le> 2 ^ 52 \<Longrightarrow> map_flags_ok opts \<Longrightarrow>
   ok s' \<and> pt_ok (avail s') pgd m' \<and> avail s' \<subseteq> avail s
   \<and> (\<forall>w. canonical w \<longrightarrow> translate m' pgd w =
        (if in_block v len w then Some (p + (w - v), PAGE_PRESENT OR prot_flags opts) else translate m pgd w))"
proof (induction fuel arbitrary: v p len s m)
  case (Suc fuel)
  show ?case
  proof (cases "len > 0")
    case False
    then have "len = 0" by (simp add: word_gt_0)
    with Suc.prems show ?thesis by (auto simp: in_block_def)
  next
    case True
    obtain sz c where c: "choose_page g1 v p len = (sz, c)" by force
    note cp = choose_page_correct[OF c Suc.prems(4-6) True]
    from Suc.prems(1) True c obtain s1 m1 where
      r1: "mmu_map_one alloc pgd v p sz opts (s, m) = Ret (s1, m1)"
      and r2: "mmu_map_loop fuel alloc g1 pgd (v + c) (p + c) (len - c) opts (s1, m1) = Ret (s', m')"
      by (auto simp: exec_bind_Ret_iff)
    have l: "unat (len - c) = unat len - unat c" "unat c \<le> unat len"
      using cp(4) by (auto simp: unat_sub word_le_nat_alt)
    have pc: "unat (p + c) = unat p + unat c" using Suc.prems(8) l by (subst unat_add_small) auto
    have dv: "4096 dvd unat (v + c)"
      using Suc.prems(4) cp(5) by (simp add: unat_plus_mod dvd_mod)
    note one = mmu_map_one_leaf(1-3)[OF Suc.prems(2,3) r1]
    have p52: "unat p < 2 ^ 52" using Suc.prems(8) cp(6) l by linarith
    have fl: "flags_only (prot_flags opts)" "\<not> huge (prot_flags opts)"
      using Suc.prems(9) by (auto simp: map_flags_ok_def)
    note tr = mmu_map_one_translate[OF Suc.prems(2,3) r1 canonical_range_start[OF Suc.prems(7) True]
        _ cp(2,3) p52 fl, folded cp(1)]
    have IH: "ok s' \<and> pt_ok (avail s') pgd m' \<and> avail s' \<subseteq> avail s1
      \<and> (\<forall>w. canonical w \<longrightarrow> translate m' pgd w = (if in_block (v + c) (len - c) w
          then Some (p + c + (w - (v + c)), PAGE_PRESENT OR prot_flags opts) else translate m1 pgd w))"
      using Suc.prems cp(5) one dv pc l
      by (intro Suc.IH[OF r2]) (auto intro: canonical_range_step[OF _ cp(4)] dvd_diff_nat)
    show ?thesis
      using IH one(3) tr in_block_split[OF cp(4), of v] by auto
  qed
qed simp

text \<open>A small page whose address no entry maps yet is mapped whenever three frames are left.\<close>

lemma mmu_walk_succeeds:
  assumes ok: "ok s" "pt_ok (avail s) pgd m" and c: "3 \<le> card (avail s)"
    and none: "pt_leaf (ent m) 0 pgd (vpath v) = None"
  shows "\<exists>e s' m'. mmu_walk alloc pgd v LVL_PTE (s, m) = Ret (e, False, s', m')"
proof -
  have idx: "unat (PGD_INDEX v) < 512" "unat (PUD_INDEX v) < 512" "unat (PMD_INDEX v) < 512"
    using valid_vpath[of v] by (auto simp: vpath_def)
  have ne: "avail s \<noteq> {}" using c by auto
  from mmu_descend_succeeds[OF ok(1) ne] obtain b1 s1 m1 where
    d1: "mmu_descend alloc (pgd + 8 * PGD_INDEX v) (s, m) = Ret (b1, s1, m1)" by blast
  let ?p1 = "[unat (PGD_INDEX v)]" and ?p2 = "[unat (PGD_INDEX v), unat (PUD_INDEX v)]"
  have v0: "valid_path []" "table_at (ent m) 0 pgd [] = Some pgd" "length ([] :: nat list) < 3"
    "length ([] :: nat list) = 0 \<or> \<not> (present (ent m pgd (unat (PGD_INDEX v))) \<and> huge (ent m pgd (unat (PGD_INDEX v))))"
    by simp_all
  have v1: "valid_path ?p1" "length ?p1 < 3" and v2: "valid_path ?p2" "length ?p2 < 3"
    using idx by simp_all
  note d1' = mmu_descend_ok[OF ok v0(1-3) idx(1) v0(4) d1[unfolded entry_addr[of pgd "PGD_INDEX v"]],
      unfolded append.simps]
  let ?e1 = "ent m1 b1 (unat (PUD_INDEX v))"
  have vp: "vpath v = ?p1 @ [unat (PUD_INDEX v), unat (PMD_INDEX v), unat (PTE_INDEX v)]"
    "vpath v = ?p2 @ [unat (PMD_INDEX v), unat (PTE_INDEX v)]"
    by (simp_all add: vpath_def)
  have n1: "pt_leaf (ent m1) 0 pgd (vpath v) = None"
    using same_leaves_at[OF d1'(3) valid_vpath] none by simp
  have t1: "length ?p1 = 0 \<or> \<not> (present ?e1 \<and> huge ?e1)"
    using n1 unfolding vp(1) pt_leaf_append d1'(4) by (auto simp: is_table_def split: if_splits)
  have "avail s1 \<noteq> {}" using d1'(6) c by auto
  from mmu_descend_succeeds[OF d1'(1) this] obtain b2 s2 m2 where
    d2: "mmu_descend alloc (b1 + 8 * PUD_INDEX v) (s1, m1) = Ret (b2, s2, m2)" by blast
  note d2' = mmu_descend_ok[OF d1'(1,2) v1(1) d1'(4) v1(2) idx(2) t1 d2[unfolded entry_addr[of b1 "PUD_INDEX v"]],
      unfolded append.simps]
  let ?e2 = "ent m2 b2 (unat (PMD_INDEX v))"
  have n2: "pt_leaf (ent m2) 0 pgd (vpath v) = None"
    using same_leaves_at[OF d2'(3) valid_vpath] n1 by simp
  have t2: "\<not> (present ?e2 \<and> huge ?e2)"
    using n2 unfolding vp(2) pt_leaf_append d2'(4) by (auto simp: is_table_def split: if_splits)
  have "avail s2 \<noteq> {}" using d1'(6) d2'(6) c by auto
  from mmu_descend_succeeds[OF d2'(1) this] obtain b3 s3 m3 where
    d3: "mmu_descend alloc (b2 + 8 * PMD_INDEX v) (s2, m2) = Ret (b3, s3, m3)" by blast
  show ?thesis
    using d1 d2 d3 t1 t2 by (simp add: mmu_walk_def Let_def ent_def)
qed

lemma mmu_map_one_succeeds:
  assumes ok: "ok s" "pt_ok (avail s) pgd m" and c: "3 \<le> card (avail s)"
    and none: "pt_leaf (ent m) 0 pgd (vpath v) = None"
  shows "\<exists>s' m'. mmu_map_one alloc pgd v p PAGE_4K opts (s, m) = Ret (s', m')
    \<and> card (avail s) \<le> card (avail s') + 3"
proof -
  from mmu_walk_succeeds[OF assms] obtain e s' m' where
    w: "mmu_walk alloc pgd v LVL_PTE (s, m) = Ret (e, False, s', m')" by blast
  from mmu_walk_ok[OF ok w] obtain b where
    b: "e = b + 8 * of_nat (vpath v ! 3)" "table_at (ent m') 0 pgd (take 3 (vpath v)) = Some b"
    and sl: "same_leaves pgd m m'" and cd: "card (avail s) \<le> card (avail s') + 3"
    by (auto simp: level_depth_def)
  have "vpath v = take 3 (vpath v) @ [vpath v ! 3]" by (simp add: vpath_def)
  then have "pt_leaf (ent m') 0 pgd (take 3 (vpath v) @ [vpath v ! 3]) = None"
    using same_leaves_at[OF sl valid_vpath] none by simp
  then have "\<not> present (ent m' b (vpath v ! 3))"
    unfolding pt_leaf_append b(2) by (auto simp: is_table_def split: if_splits)
  with w b cd show ?thesis by (simp add: mmu_map_one_def level_of_def Let_def ent_def)
qed

lemma map_4K_succeeds:
  assumes "ok s" "pt_ok (avail s) pgd m" "3 \<le> card (avail s)" "translate m pgd v = None"
    and "4096 dvd unat v" "4096 dvd unat p"
  shows "\<exists>s' m'. mmu_map_range alloc g1 pgd v p PAGE_SIZE opts (s, m) = Ret (s', m')
    \<and> card (avail s) \<le> card (avail s') + 3"
proof -
  have "pt_leaf (ent m) 0 pgd (vpath v) = None" using assms(4) by (simp add: translate_def split: option.splits)
  from mmu_map_one_succeeds[OF assms(1-3) this, of p opts] obtain s' m' where
    r: "mmu_map_one alloc pgd v p PAGE_4K opts (s, m) = Ret (s', m')" "card (avail s) \<le> card (avail s') + 3" by blast
  have al: "is_page_aligned v PAGE_SIZE" "is_page_aligned p PAGE_SIZE" "is_page_aligned PAGE_SIZE PAGE_SIZE"
    using assms(5,6) is_page_aligned_iff[of 12] by simp_all
  have f: "unat PAGE_SIZE div 4096 + 1 = Suc (Suc 0)" by simp
  have c: "choose_page g1 v p PAGE_SIZE = (PAGE_4K, PAGE_SIZE)" by (simp add: choose_page_def)
  show ?thesis
    unfolding mmu_map_range_def f using al c r by (simp only: mmu_map_loop.simps Let_def prod.case) simp
qed

text \<open>What a whole call does.\<close>

lemma mmu_map_range_translate:
  assumes "mmu_map_range alloc g1 pgd v p len opts (s, m) = Ret (s', m')" "ok s" "pt_ok (avail s) pgd m"
    and "canonical_range v len" "unat p + unat len \<le> 2 ^ 52" "map_flags_ok opts"
  shows "ok s'" "pt_ok (avail s') pgd m'" "avail s' \<subseteq> avail s"
    and "canonical w \<Longrightarrow> translate m' pgd w =
       (if in_block v len w then Some (p + (w - v), PAGE_PRESENT OR prot_flags opts) else translate m pgd w)"
  using assms mmu_map_loop_translate[of "unat len div 4096 + 1" g1 pgd v p len opts s m s' m']
    is_page_aligned_iff[of 12]
  by (auto simp: mmu_map_range_def split: if_splits)

end

end
