(* ===== verification/Vmm.thy ===== *)
theory Vmm
  imports Page_Map
begin

text \<open>
  The kernel's address space, \<^verbatim>\<open>mm/vmm.c\<close>: building the kernel page table at boot,
  mapping devices, and backing a range of addresses with frames. The operations take the
  allocator behind \<^verbatim>\<open>pmm_current_alloc_frame\<close> as an argument, as the code calls it through
  a function pointer. The properties say which address translates to what afterwards.
\<close>

section \<open>State and operations\<close>

record 's vmm =
  frames :: 's
  vmem :: mem
  kernel_pgd :: u64
  cr3 :: u64

abbreviation KERNEL_START_VIRT_ADDR :: u64 where "KERNEL_START_VIRT_ADDR \<equiv> 0xFFFFFFFF81000000"
abbreviation KERNEL_START_PHYS_ADDR :: u64 where "KERNEL_START_PHYS_ADDR \<equiv> 0x1000000"

text \<open>A call of \<^verbatim>\<open>mmu_map_range\<close> on the state.\<close>

definition vmm_map_range ::
    "('s \<Rightarrow> u64 \<times> 's) \<Rightarrow> bool \<Rightarrow> u64 \<Rightarrow> u64 \<Rightarrow> u64 \<Rightarrow> u64 \<Rightarrow> pgprot \<Rightarrow> 's vmm \<Rightarrow> 's vmm exec" where
  "vmm_map_range alloc g1 pgd vaddr paddr len prot st =
     exec_bind (mmu_map_range alloc g1 pgd vaddr paddr len prot (frames st, vmem st))
       (\<lambda>(s, m). Ret (st\<lparr>frames := s, vmem := m\<rparr>))"

definition arch_mmu_switch :: "u64 \<Rightarrow> 's vmm \<Rightarrow> 's vmm" where
  "arch_mmu_switch pgd_phys st = st\<lparr>cr3 := pgd_phys\<rparr>"

definition direct_prot :: pgprot where
  "direct_prot = \<lparr>prot_flags = PAGE_RW OR PAGE_NO_EXECUTE, allow_overwrite = False\<rparr>"

definition kernel_prot :: pgprot where
  "kernel_prot = \<lparr>prot_flags = PAGE_RW, allow_overwrite = True\<rparr>"

definition vmm_map_region :: "('s \<Rightarrow> u64 \<times> 's) \<Rightarrow> bool \<Rightarrow> phys_region \<Rightarrow> 's vmm \<Rightarrow> 's vmm exec" where
  "vmm_map_region alloc g1 r st =
     (if pr_type r \<noteq> PHYS_REGION_USABLE then Ret st
      else
        let phys_start = PAGE_ALIGN_DOWN (pr_start r);
            phys_end = PAGE_ALIGN_UP (pr_end r);
            virt_start = PHYS_TO_VIRT phys_start
        in vmm_map_range alloc g1 (kernel_pgd st) virt_start phys_start (phys_end - phys_start) direct_prot st)"

text \<open>\<open>cl\<close> is the array \<^verbatim>\<open>clean\<close> up to \<^verbatim>\<open>clean_count\<close>, \<open>kernel_end\<close> the address of the
  linker symbol \<^verbatim>\<open>_kernel_end\<close>.\<close>

definition vmm_init ::
    "('s \<Rightarrow> u64 \<times> 's) \<Rightarrow> bool \<Rightarrow> phys_region list \<Rightarrow> u64 \<Rightarrow> 's vmm \<Rightarrow> (int \<times> 's vmm) exec" where
  "vmm_init alloc g1 cl kernel_end st =
     (let (pgd_raw, s1) = alloc (frames st) in
      if pgd_raw = 0 then Ret (- ENOMEM, st\<lparr>frames := s1\<rparr>)
      else
        let m1 = snd (memset (vmem st) (PHYS_TO_VIRT pgd_raw) 0 PAGE_SIZE);
            st1 = st\<lparr>frames := s1, vmem := m1, kernel_pgd := PHYS_TO_VIRT pgd_raw\<rparr>
        in exec_bind (exec_fold (vmm_map_region alloc g1) cl st1) (\<lambda>st2.
           let kernel_size = PAGE_ALIGN_UP (kernel_end - KERNEL_START_VIRT_ADDR)
           in exec_bind (vmm_map_range alloc g1 (kernel_pgd st2) KERNEL_START_VIRT_ADDR KERNEL_START_PHYS_ADDR
                kernel_size kernel_prot st2) (\<lambda>st3.
              Ret (0, arch_mmu_switch pgd_raw st3))))"

definition ioremap_prot :: pgprot where
  "ioremap_prot = \<lparr>prot_flags = PAGE_RW OR PAGE_CACHE_DISABLE OR PAGE_WRITE_THROUGH, allow_overwrite = True\<rparr>"

definition ioremap ::
    "('s \<Rightarrow> u64 \<times> 's) \<Rightarrow> bool \<Rightarrow> u64 \<Rightarrow> u64 \<Rightarrow> 's vmm \<Rightarrow> (u64 \<times> 's vmm) exec" where
  "ioremap alloc g1 paddr sz st =
     (let paligned = PAGE_ALIGN_DOWN paddr;
          offset = paddr - paligned;
          size_aligned = PAGE_ALIGN_UP (sz + offset)
      in exec_bind (vmm_map_range alloc g1 (kernel_pgd st) (PHYS_TO_VIRT paligned) paligned size_aligned ioremap_prot st)
           (\<lambda>st1. Ret (PHYS_TO_VIRT paddr, st1)))"

definition vmm_map_page ::
    "('s \<Rightarrow> u64 \<times> 's) \<Rightarrow> bool \<Rightarrow> u64 \<Rightarrow> u64 \<Rightarrow> u64 \<Rightarrow> pgprot \<Rightarrow> 's vmm \<Rightarrow> 's vmm exec" where
  "vmm_map_page alloc g1 pgd vaddr paddr prot st =
     (if IS_PAGE_ALIGNED vaddr = 0 \<or> IS_PAGE_ALIGNED paddr = 0
      then Panic ''vmm_map_page: vaddr or/and paddr are not page algined''
      else vmm_map_range alloc g1 pgd vaddr paddr PAGE_SIZE prot st)"

definition vmm_alloc_page ::
    "('s \<Rightarrow> u64 \<times> 's) \<Rightarrow> bool \<Rightarrow> u64 \<Rightarrow> u64 \<Rightarrow> pgprot \<Rightarrow> 's vmm \<Rightarrow> (int \<times> 's vmm) exec" where
  "vmm_alloc_page alloc g1 pgd vaddr prot st =
     (if IS_PAGE_ALIGNED vaddr = 0 then Panic ''vmm_alloc_page: vaddr is not page algined''
      else
        let (frame, s1) = alloc (frames st) in
        if frame = 0 then Ret (- ENOMEM, st\<lparr>frames := s1\<rparr>)
        else exec_bind (vmm_map_page alloc g1 pgd vaddr frame prot (st\<lparr>frames := s1\<rparr>)) (\<lambda>st1. Ret (0, st1)))"

text \<open>The loop of \<^verbatim>\<open>vmm_alloc_range\<close>; its fuel is the number of pages plus one.\<close>

fun vmm_alloc_loop ::
    "nat \<Rightarrow> ('s \<Rightarrow> u64 \<times> 's) \<Rightarrow> bool \<Rightarrow> u64 \<Rightarrow> u64 \<Rightarrow> u64 \<Rightarrow> pgprot \<Rightarrow> int \<Rightarrow> 's vmm \<Rightarrow> (int \<times> 's vmm) exec" where
  "vmm_alloc_loop 0 alloc g1 pgd vaddr sz prot cnt st = Diverge"
| "vmm_alloc_loop (Suc fuel) alloc g1 pgd vaddr sz prot cnt st =
     (if sz = 0 then Ret (cnt, st)
      else exec_bind (vmm_alloc_page alloc g1 pgd vaddr prot st) (\<lambda>(res, st1).
        if res < 0 then Ret (res, st1)
        else vmm_alloc_loop fuel alloc g1 pgd (vaddr + PAGE_SIZE) (sz - PAGE_SIZE) prot (cnt + 1) st1))"

definition vmm_alloc_range ::
    "('s \<Rightarrow> u64 \<times> 's) \<Rightarrow> bool \<Rightarrow> u64 \<Rightarrow> u64 \<Rightarrow> u64 \<Rightarrow> pgprot \<Rightarrow> 's vmm \<Rightarrow> (int \<times> 's vmm) exec" where
  "vmm_alloc_range alloc g1 pgd vaddr sz prot st =
     (if IS_PAGE_ALIGNED vaddr = 0 then Panic ''vmm_alloc_page: vaddr is not page algined''
      else
        let sz' = PAGE_ALIGN_UP sz
        in vmm_alloc_loop (unat sz' div 4096 + 1) alloc g1 pgd vaddr sz' prot 0 st)"

section \<open>The empty page table\<close>

lemma memset_page_zero:
  assumes "page_al b" "i < 512"
  shows "ent (snd (memset m b 0 PAGE_SIZE)) b i = 0"
  using ent_zero_page[OF assms(1) assms(1) assms(2)] by (simp add: memset_store)

lemma zero_root:
  assumes al: "page_al pgd" and z: "\<And>i. i < 512 \<Longrightarrow> ent m pgd i = 0" and f: "VIRT_TO_PHYS pgd \<notin> free"
  shows "pt_ok free pgd m" and "translate m pgd v = None"
proof -
  have np: "\<not> present (ent m pgd i)" "\<not> is_table 0 (ent m pgd i)" if "i < 512" for i
    using z[OF that] by (simp_all add: is_table_def present_def)
  have t: "p = [] \<and> b = pgd" if "valid_path p" "table_at (ent m) 0 pgd p = Some b" for p b
    using that np(2) by (cases p) simp_all
  show "pt_ok free pgd m"
    unfolding pt_ok_def pt_tree_def is_pt_def using al f t by blast
  have "pt_leaf (ent m) 0 pgd (vpath v) = None"
    using np valid_vpath[of v] by (cases "vpath v") simp_all
  then show "translate m pgd v = None" by (simp add: translate_def)
qed

section \<open>Mapping on the state\<close>

text \<open>Addresses of whole pages that touch a usable region.\<close>

definition direct_page :: "phys_region list \<Rightarrow> u64 \<Rightarrow> bool" where
  "direct_page cl p \<longleftrightarrow> (\<exists>r \<in> set cl. pr_type r = PHYS_REGION_USABLE
     \<and> unat (pr_start r) div 4096 \<le> unat p div 4096 \<and> unat p div 4096 * 4096 < unat (pr_end r))"

definition direct_map_fits :: "phys_region list \<Rightarrow> bool" where
  "direct_map_fits cl \<longleftrightarrow> (\<forall>r \<in> set cl. pr_type r = PHYS_REGION_USABLE \<longrightarrow>
     pr_start r \<le> pr_end r \<and> unat (pr_end r) \<le> 2 ^ 46)"

lemma page_below: "s div 4096 * 4096 \<le> p \<longleftrightarrow> s div 4096 \<le> p div 4096" for s p :: nat
  by (simp add: less_eq_div_iff_mult_less_eq)

lemma page_above: "p < (e + 4095) div 4096 * 4096 \<longleftrightarrow> p div 4096 * 4096 < e" for p e :: nat
proof -
  have "p < (e + 4095) div 4096 * 4096 \<longleftrightarrow> Suc (p div 4096) \<le> (e + 4095) div 4096"
    by (simp add: div_less_iff_less_mult Suc_le_eq)
  also have "\<dots> \<longleftrightarrow> p div 4096 * 4096 < e"
    unfolding less_eq_div_iff_mult_less_eq[OF zero_less_numeral] by auto
  finally show ?thesis .
qed

lemma direct_block:
  assumes "pr_start r \<le> pr_end r" "unat (pr_end r) \<le> 2 ^ 46"
  defines "ps \<equiv> PAGE_ALIGN_DOWN (pr_start r)" and "pe \<equiv> PAGE_ALIGN_UP (pr_end r)"
  shows "in_block (PHYS_TO_VIRT ps) (pe - ps) w \<longleftrightarrow>
      unat (pr_start r) div 4096 \<le> unat (VIRT_TO_PHYS w) div 4096
      \<and> unat (VIRT_TO_PHYS w) div 4096 * 4096 < unat (pr_end r)"
    and "canonical_range (PHYS_TO_VIRT ps) (pe - ps)" and "unat ps + unat (pe - ps) \<le> 2 ^ 52"
proof -
  have s: "unat ps = unat (pr_start r) div 4096 * 4096" by (simp add: ps_def unat_PAGE_ALIGN_DOWN)
  have e: "unat pe = (unat (pr_end r) + 4095) div 4096 * 4096"
    unfolding pe_def using assms(2) by (intro unat_PAGE_ALIGN_UP) simp
  have le: "unat (pr_start r) \<le> unat (pr_end r)" using assms(1) by (simp add: word_le_nat_alt)
  have se: "unat ps \<le> unat pe" unfolding s e using le by (intro mult_right_mono div_le_mono) auto
  then have l: "unat (pe - ps) = unat pe - unat ps" by (simp add: unat_sub word_le_nat_alt)
  have pe: "unat pe \<le> 2 ^ 46"
  proof -
    have "(unat (pr_end r) + 4095) div 4096 \<le> 2 ^ 34" using assms(2) by auto
    then show ?thesis unfolding e by simp
  qed
  show "unat ps + unat (pe - ps) \<le> 2 ^ 52" using l se pe by simp
  have v: "unat (PHYS_TO_VIRT ps) = unat ps + unat ID_VIRT_REGION_START"
    unfolding PHYS_TO_VIRT_def using se pe by (subst unat_add_small) auto
  show "canonical_range (PHYS_TO_VIRT ps) (pe - ps)"
    using v l se pe by (simp add: canonical_range_def)
  have "in_block (PHYS_TO_VIRT ps) (pe - ps) w \<longleftrightarrow> in_block ps (pe - ps) (VIRT_TO_PHYS w)"
    by (simp add: in_block_def PHYS_TO_VIRT_def VIRT_TO_PHYS_def algebra_simps)
  also have "\<dots> \<longleftrightarrow> unat ps \<le> unat (VIRT_TO_PHYS w) \<and> unat (VIRT_TO_PHYS w) < unat pe"
    using l se pe by (subst in_block_unat) auto
  also have "\<dots> \<longleftrightarrow> unat (pr_start r) div 4096 \<le> unat (VIRT_TO_PHYS w) div 4096
      \<and> unat (VIRT_TO_PHYS w) div 4096 * 4096 < unat (pr_end r)"
    unfolding s e page_below page_above ..
  finally show "in_block (PHYS_TO_VIRT ps) (pe - ps) w \<longleftrightarrow>
      unat (pr_start r) div 4096 \<le> unat (VIRT_TO_PHYS w) div 4096
      \<and> unat (VIRT_TO_PHYS w) div 4096 * 4096 < unat (pr_end r)" .
qed

lemma page_multiple_ge: "sz \<noteq> 0 \<Longrightarrow> 4096 dvd unat sz \<Longrightarrow> PAGE_SIZE \<le> sz"
  using unat_eq_0[of sz] by (auto simp: word_le_nat_alt intro!: dvd_imp_le)

lemma pt_ok_mono: "pt_ok A pgd m \<Longrightarrow> B \<subseteq> A \<Longrightarrow> pt_ok B pgd m"
  by (auto simp: pt_ok_def)

lemma canonical_range_prefix: "canonical_range v len \<Longrightarrow> c \<le> len \<Longrightarrow> canonical_range v c"
  by (auto simp: canonical_range_def word_le_nat_alt)

text \<open>The pages of a range are mapped to the frames \<open>fs\<close> in order, and nothing else changes.\<close>

definition backed :: "mem \<Rightarrow> mem \<Rightarrow> u64 \<Rightarrow> u64 \<Rightarrow> u64 \<Rightarrow> u64 \<Rightarrow> u64 list \<Rightarrow> bool" where
  "backed m m' pgd v sz flags fs \<longleftrightarrow> length fs = unat sz div 4096 \<and>
     (\<forall>w. canonical w \<longrightarrow> translate m' pgd w =
        (if in_block v sz w then Some (fs ! (unat (w - v) div 4096) + of_nat (unat (w - v) mod 4096), flags)
         else translate m pgd w))"

lemma backed_step:
  assumes one: "\<forall>w. canonical w \<longrightarrow> translate m1 pgd w =
      (if in_block v PAGE_SIZE w then Some (f + (w - v), flags) else translate m pgd w)"
    and rest: "backed m1 m' pgd (v + PAGE_SIZE) (sz - PAGE_SIZE) flags fs" and sz: "PAGE_SIZE \<le> sz"
  shows "backed m m' pgd v sz flags (f # fs)"
  unfolding backed_def
proof (intro conjI allI impI)
  have l: "unat (sz - PAGE_SIZE) = unat sz - 4096" "4096 \<le> unat sz"
    using sz by (simp_all add: unat_sub word_le_nat_alt)
  then show "length (f # fs) = unat sz div 4096"
    using rest by (simp add: backed_def le_div_geq)
  fix w assume w: "canonical w"
  note sp = in_block_split[OF sz, of v w]
  consider "in_block v PAGE_SIZE w" | "\<not> in_block v PAGE_SIZE w" "in_block v sz w" | "\<not> in_block v sz w"
    using sp by blast
  then show "translate m' pgd w = (if in_block v sz w
      then Some ((f # fs) ! (unat (w - v) div 4096) + of_nat (unat (w - v) mod 4096), flags) else translate m pgd w)"
  proof cases
    case 1
    then have "unat (w - v) < 4096" by (simp add: in_block_def word_less_nat_alt)
    with 1 w sp one rest show ?thesis by (simp add: backed_def)
  next
    case 2
    then have u: "unat (w - (v + PAGE_SIZE)) = unat (w - v) - 4096" "4096 \<le> unat (w - v)"
      using unat_sub[of PAGE_SIZE "w - v"]
      by (simp_all add: in_block_def word_less_nat_alt word_le_nat_alt diff_diff_eq)
    with 2 w sp one rest show ?thesis by (simp add: backed_def le_div_geq le_mod_geq)
  next
    case 3
    with w sp one rest show ?thesis by (simp add: backed_def)
  qed
qed

lemma prots_ok: "map_flags_ok direct_prot" "map_flags_ok kernel_prot" "map_flags_ok ioremap_prot"
  by (simp_all add: map_flags_ok_def direct_prot_def kernel_prot_def ioremap_prot_def flags_only_def huge_def)

context frame_source
begin

lemma vmm_map_range_translate:
  assumes "vmm_map_range alloc g1 pgd v p len prot st = Ret st'" "ok (frames st)" "pt_ok (avail (frames st)) pgd (vmem st)"
    and "canonical_range v len" "unat p + unat len \<le> 2 ^ 52" "map_flags_ok prot"
  shows "ok (frames st')" "pt_ok (avail (frames st')) pgd (vmem st')" "avail (frames st') \<subseteq> avail (frames st)"
    and "kernel_pgd st' = kernel_pgd st"
    and "canonical w \<Longrightarrow> translate (vmem st') pgd w =
       (if in_block v len w then Some (p + (w - v), PAGE_PRESENT OR prot_flags prot) else translate (vmem st) pgd w)"
proof -
  from assms(1) obtain s m where r: "mmu_map_range alloc g1 pgd v p len prot (frames st, vmem st) = Ret (s, m)"
    and st': "st' = st\<lparr>frames := s, vmem := m\<rparr>"
    by (auto simp: vmm_map_range_def exec_bind_Ret_iff)
  note t = mmu_map_range_translate[OF r assms(2-6)]
  show "ok (frames st')" "pt_ok (avail (frames st')) pgd (vmem st')" "avail (frames st') \<subseteq> avail (frames st)"
    "kernel_pgd st' = kernel_pgd st"
    using t(1-3) by (simp_all add: st')
  show "canonical w \<Longrightarrow> translate (vmem st') pgd w =
       (if in_block v len w then Some (p + (w - v), PAGE_PRESENT OR prot_flags prot) else translate (vmem st) pgd w)"
    using t(4) by (simp add: st')
qed

lemma vmm_map_regions:
  "exec_fold (vmm_map_region alloc g1) cl st = Ret st' \<Longrightarrow> ok (frames st) \<Longrightarrow>
   pt_ok (avail (frames st)) (kernel_pgd st) (vmem st) \<Longrightarrow> direct_map_fits cl \<Longrightarrow>
   ok (frames st') \<and> kernel_pgd st' = kernel_pgd st \<and> pt_ok (avail (frames st')) (kernel_pgd st) (vmem st')
   \<and> (\<forall>w. canonical w \<longrightarrow> translate (vmem st') (kernel_pgd st) w =
        (if direct_page cl (VIRT_TO_PHYS w) then Some (VIRT_TO_PHYS w, PAGE_PRESENT OR prot_flags direct_prot)
         else translate (vmem st) (kernel_pgd st) w))"
proof (induction cl arbitrary: st)
  case (Cons r cl)
  from Cons.prems(1) obtain st1 where r1: "vmm_map_region alloc g1 r st = Ret st1"
    and r2: "exec_fold (vmm_map_region alloc g1) cl st1 = Ret st'"
    by (auto simp: exec_bind_Ret_iff)
  have fits: "direct_map_fits cl" using Cons.prems(4) by (simp add: direct_map_fits_def)
  show ?case
  proof (cases "pr_type r = PHYS_REGION_USABLE")
    case False
    with r1 have "st1 = st" by (simp add: vmm_map_region_def)
    moreover have "direct_page (r # cl) p \<longleftrightarrow> direct_page cl p" for p
      using False by (simp add: direct_page_def)
    ultimately show ?thesis using Cons.IH[OF r2] Cons.prems fits by simp
  next
    case True
    with Cons.prems(4) have b: "pr_start r \<le> pr_end r" "unat (pr_end r) \<le> 2 ^ 46"
      by (auto simp: direct_map_fits_def)
    note db = direct_block[OF b]
    from r1 True have "vmm_map_range alloc g1 (kernel_pgd st) (PHYS_TO_VIRT (PAGE_ALIGN_DOWN (pr_start r)))
        (PAGE_ALIGN_DOWN (pr_start r)) (PAGE_ALIGN_UP (pr_end r) - PAGE_ALIGN_DOWN (pr_start r)) direct_prot st = Ret st1"
      by (simp add: vmm_map_region_def Let_def)
    note one = vmm_map_range_translate[OF this Cons.prems(2,3) db(2,3) prots_ok(1)]
    have off: "PAGE_ALIGN_DOWN (pr_start r) + (w - PHYS_TO_VIRT (PAGE_ALIGN_DOWN (pr_start r))) = VIRT_TO_PHYS w" for w
      by (simp add: PHYS_TO_VIRT_def VIRT_TO_PHYS_def)
    have dp: "direct_page (r # cl) p \<longleftrightarrow> direct_page cl p
      \<or> unat (pr_start r) div 4096 \<le> unat p div 4096 \<and> unat p div 4096 * 4096 < unat (pr_end r)" for p
      using True by (auto simp: direct_page_def)
    show ?thesis
      using Cons.IH[OF r2 one(1)] one(2-4) one(5)[unfolded off db(1)] fits by (auto simp: dp)
  qed
qed (simp add: direct_page_def)

text \<open>The address space that a successful \<^verbatim>\<open>vmm_init\<close> leaves.\<close>

lemma vmm_init_translate:
  assumes run: "vmm_init alloc g1 cl kernel_end st = Ret (0, st')" and ok: "ok (frames st)"
    and fits: "direct_map_fits cl"
    and ke: "KERNEL_START_VIRT_ADDR \<le> kernel_end" "unat kernel_end \<le> 2 ^ 64 - 4096"
  defines "ksize \<equiv> PAGE_ALIGN_UP (kernel_end - KERNEL_START_VIRT_ADDR)"
  shows "ok (frames st')" "pt_ok (avail (frames st')) (kernel_pgd st') (vmem st')"
    and "cr3 st' = VIRT_TO_PHYS (kernel_pgd st')"
    and "canonical w \<Longrightarrow> translate (vmem st') (kernel_pgd st') w =
      (if in_block KERNEL_START_VIRT_ADDR ksize w
       then Some (KERNEL_START_PHYS_ADDR + (w - KERNEL_START_VIRT_ADDR), PAGE_PRESENT OR prot_flags kernel_prot)
       else if direct_page cl (VIRT_TO_PHYS w)
       then Some (VIRT_TO_PHYS w, PAGE_PRESENT OR prot_flags direct_prot) else None)"
proof -
  obtain f s1 where a: "alloc (frames st) = (f, s1)" by force
  let ?pgd = "PHYS_TO_VIRT f"
  let ?m1 = "snd (memset (vmem st) ?pgd 0 PAGE_SIZE)"
  let ?st1 = "st\<lparr>frames := s1, vmem := ?m1, kernel_pgd := ?pgd\<rparr>"
  from run a have f0: "f \<noteq> 0" by (auto simp: vmm_init_def)
  from run a f0 obtain st2 st3 where r2: "exec_fold (vmm_map_region alloc g1) cl ?st1 = Ret st2"
    and r3: "vmm_map_range alloc g1 (kernel_pgd st2) KERNEL_START_VIRT_ADDR KERNEL_START_PHYS_ADDR ksize kernel_prot st2 = Ret st3"
    and st': "st' = arch_mmu_switch f st3"
    by (auto simp: vmm_init_def Let_def exec_bind_Ret_iff ksize_def)
  have fr: "4096 dvd unat f" using avail_frame[OF ok alloc_avail[OF ok a f0]] by simp
  have root: "pt_ok (avail s1) ?pgd ?m1" "translate ?m1 ?pgd v = None" for v
    using alloc_taken[OF ok a] page_al_PHYS_TO_VIRT[OF fr] memset_page_zero
    by (auto intro!: zero_root)
  have p2: "ok (frames ?st1)" "pt_ok (avail (frames ?st1)) (kernel_pgd ?st1) (vmem ?st1)"
    using alloc_ok[OF ok a] root by auto
  note m2 = vmm_map_regions[OF r2 p2 fits]
  have k: "unat (kernel_end - KERNEL_START_VIRT_ADDR) = unat kernel_end - unat KERNEL_START_VIRT_ADDR"
    using ke(1) by (simp add: unat_sub word_le_nat_alt)
  have ks: "unat ksize < unat kernel_end - unat KERNEL_START_VIRT_ADDR + 4096" "4096 dvd unat ksize"
    using unat_PAGE_ALIGN_UP_small[of "kernel_end - KERNEL_START_VIRT_ADDR"] ke unfolding ksize_def k by auto
  then have "canonical_range KERNEL_START_VIRT_ADDR ksize" "unat KERNEL_START_PHYS_ADDR + unat ksize \<le> 2 ^ 52"
    using ke by (auto simp: canonical_range_def word_le_nat_alt)
  note m3 = vmm_map_range_translate[OF r3 _ _ this prots_ok(2)]
  show "ok (frames st')" "pt_ok (avail (frames st')) (kernel_pgd st') (vmem st')"
    "cr3 st' = VIRT_TO_PHYS (kernel_pgd st')"
    using m2 m3(1-4) by (simp_all add: st' arch_mmu_switch_def)
  show "canonical w \<Longrightarrow> translate (vmem st') (kernel_pgd st') w =
      (if in_block KERNEL_START_VIRT_ADDR ksize w
       then Some (KERNEL_START_PHYS_ADDR + (w - KERNEL_START_VIRT_ADDR), PAGE_PRESENT OR prot_flags kernel_prot)
       else if direct_page cl (VIRT_TO_PHYS w)
       then Some (VIRT_TO_PHYS w, PAGE_PRESENT OR prot_flags direct_prot) else None)"
    using m2 m3(4,5) root(2) by (simp add: st' arch_mmu_switch_def)
qed

text \<open>One page backed by a frame, and a range of them.\<close>

lemma vmm_alloc_page_cases:
  assumes run: "vmm_alloc_page alloc g1 pgd v prot st = Ret (r, st')" and ok: "ok (frames st)"
    and pt: "pt_ok (avail (frames st)) pgd (vmem st)"
    and c: "canonical_range v PAGE_SIZE" and fl: "map_flags_ok prot"
  shows "ok (frames st') \<and> pt_ok (avail (frames st')) pgd (vmem st') \<and> avail (frames st') \<subseteq> avail (frames st)
    \<and> kernel_pgd st' = kernel_pgd st
    \<and> (r = - ENOMEM \<and> avail (frames st) = {} \<and> vmem st' = vmem st
       \<or> r = 0 \<and> (\<exists>f \<in> avail (frames st) - avail (frames st'). \<forall>w. canonical w \<longrightarrow> translate (vmem st') pgd w =
            (if in_block v PAGE_SIZE w then Some (f + (w - v), PAGE_PRESENT OR prot_flags prot)
             else translate (vmem st) pgd w)))"
proof -
  obtain f s1 where a: "alloc (frames st) = (f, s1)" by force
  note ok1 = alloc_ok[OF ok a] and av = alloc_taken[OF ok a]
  show ?thesis
  proof (cases "f = 0")
    case True
    with run a have "r = - ENOMEM" "st' = st\<lparr>frames := s1\<rparr>"
      by (auto simp: vmm_alloc_page_def split: if_splits)
    with True a alloc_null[OF ok] av ok1 pt_ok_mono[OF pt] show ?thesis by auto
  next
    case False
    let ?st1 = "st\<lparr>frames := s1\<rparr>"
    from run a False have r: "r = 0" "vmm_map_range alloc g1 pgd v f PAGE_SIZE prot ?st1 = Ret st'"
      by (auto simp: vmm_alloc_page_def vmm_map_page_def exec_bind_Ret_iff split: if_splits)
    have fa: "f \<in> avail (frames st)" by (rule alloc_avail[OF ok a False])
    have p1: "ok (frames ?st1)" "pt_ok (avail (frames ?st1)) pgd (vmem ?st1)"
      using ok1 av pt_ok_mono[OF pt, of "avail s1"] by auto
    have "unat f + unat PAGE_SIZE \<le> 2 ^ 52"
      using avail_frame[OF ok fa] by (auto)
    note t = vmm_map_range_translate[OF r(2) p1 c this fl]
    have "f \<in> avail (frames st) - avail (frames st')" using fa t(3) av by auto
    with t av r(1) show ?thesis by auto
  qed
qed

lemma vmm_alloc_page_succeeds:
  assumes ok: "ok (frames st)" and pt: "pt_ok (avail (frames st)) pgd (vmem st)"
    and c: "4 \<le> card (avail (frames st))" and none: "translate (vmem st) pgd v = None" and al: "4096 dvd unat v"
  shows "\<exists>st'. vmm_alloc_page alloc g1 pgd v prot st = Ret (0, st')"
proof -
  obtain f s1 where a: "alloc (frames st) = (f, s1)" by force
  have ne: "avail (frames st) \<noteq> {}" using c by auto
  then have f0: "f \<noteq> 0" using alloc_succeeds[OF ok] a by auto
  have fa: "f \<in> avail (frames st)" by (rule alloc_avail[OF ok a f0])
  have av: "avail s1 = avail (frames st) - {f}" by (rule alloc_taken[OF ok a])
  have "3 \<le> card (avail s1)" using c fa by (simp add: av card_Diff_singleton)
  moreover have "pt_ok (avail s1) pgd (vmem st)" using pt_ok_mono[OF pt] av by auto
  ultimately obtain s' m' where "mmu_map_range alloc g1 pgd v f PAGE_SIZE prot (s1, vmem st) = Ret (s', m')"
    using map_4K_succeeds[OF alloc_ok[OF ok a] _ _ none al] avail_frame[OF ok fa] by blast
  then show ?thesis
    using a f0 IS_PAGE_ALIGNED_never_0
    by (simp add: vmm_alloc_page_def vmm_map_page_def vmm_map_range_def)
qed

lemma vmm_alloc_loop_cases:
  "vmm_alloc_loop fuel alloc g1 pgd v sz prot cnt st = Ret (r, st') \<Longrightarrow> ok (frames st) \<Longrightarrow>
   pt_ok (avail (frames st)) pgd (vmem st) \<Longrightarrow> canonical_range v sz \<Longrightarrow> 4096 dvd unat sz \<Longrightarrow> map_flags_ok prot \<Longrightarrow>
   ok (frames st') \<and> pt_ok (avail (frames st')) pgd (vmem st') \<and> avail (frames st') \<subseteq> avail (frames st)
   \<and> kernel_pgd st' = kernel_pgd st
   \<and> (r = - ENOMEM \<and> avail (frames st') = {}
      \<or> r = cnt + int (unat sz div 4096) \<and> (\<exists>fs. distinct fs \<and> set fs \<subseteq> avail (frames st) - avail (frames st')
          \<and> backed (vmem st) (vmem st') pgd v sz (PAGE_PRESENT OR prot_flags prot) fs))"
proof (induction fuel arbitrary: v sz cnt st)
  case (Suc fuel)
  show ?case
  proof (cases "sz = 0")
    case True
    with Suc.prems show ?thesis
      by (auto simp: backed_def in_block_def intro!: exI[of _ "[]"])
  next
    case False
    then have ge: "PAGE_SIZE \<le> sz"
      using Suc.prems(5) by (rule page_multiple_ge)
    from Suc.prems(1) False obtain r1 st1 where r1: "vmm_alloc_page alloc g1 pgd v prot st = Ret (r1, st1)"
      and rest: "(if r1 < 0 then Ret (r1, st1) else
        vmm_alloc_loop fuel alloc g1 pgd (v + PAGE_SIZE) (sz - PAGE_SIZE) prot (cnt + 1) st1) = Ret (r, st')"
      by (auto simp: exec_bind_Ret_iff)
    note one = vmm_alloc_page_cases[OF r1 Suc.prems(2,3) canonical_range_prefix[OF Suc.prems(4) ge] Suc.prems(6)]
    have l: "unat (sz - PAGE_SIZE) = unat sz - 4096" "4096 \<le> unat sz"
      using ge by (simp_all add: unat_sub word_le_nat_alt)
    show ?thesis
    proof (cases "r1 < 0")
      case True
      with one rest show ?thesis by auto
    next
      case F: False
      with one obtain f where f: "f \<in> avail (frames st) - avail (frames st1)"
        and tr: "\<forall>w. canonical w \<longrightarrow> translate (vmem st1) pgd w =
            (if in_block v PAGE_SIZE w then Some (f + (w - v), PAGE_PRESENT OR prot_flags prot)
             else translate (vmem st) pgd w)" by auto
      have r: "vmm_alloc_loop fuel alloc g1 pgd (v + PAGE_SIZE) (sz - PAGE_SIZE) prot (cnt + 1) st1 = Ret (r, st')"
        using rest F by simp
      have d: "4096 dvd unat (sz - PAGE_SIZE)" using Suc.prems(5) l by simp
      from one have st1: "ok (frames st1)" "pt_ok (avail (frames st1)) pgd (vmem st1)"
        "avail (frames st1) \<subseteq> avail (frames st)" "kernel_pgd st1 = kernel_pgd st" by auto
      note IH = Suc.IH[OF r st1(1,2) canonical_range_step[OF Suc.prems(4) ge] d Suc.prems(6)]
      have n: "unat sz div 4096 = Suc (unat (sz - PAGE_SIZE) div 4096)" using l by (simp add: le_div_geq)
      show ?thesis
      proof (cases "r = - ENOMEM \<and> avail (frames st') = {}")
        case True
        with IH st1(3,4) show ?thesis by auto
      next
        case ok: False
        with IH obtain fs where fs: "distinct fs" "set fs \<subseteq> avail (frames st1) - avail (frames st')"
          "backed (vmem st1) (vmem st') pgd (v + PAGE_SIZE) (sz - PAGE_SIZE) (PAGE_PRESENT OR prot_flags prot) fs"
          by auto
        have "distinct (f # fs)" "set (f # fs) \<subseteq> avail (frames st) - avail (frames st')"
          using fs(1,2) f st1(3) IH by auto
        with backed_step[OF tr fs(3) ge] IH ok n st1(3,4) show ?thesis by auto
      qed
    qed
  qed
qed simp

end

section \<open>Termination\<close>

lemma mmu_map_range_terminates: "mmu_map_range alloc g1 pgd v p len opts st \<noteq> Diverge"
  using mmu_map_loop_terminates[of len "unat len div 4096 + 1" v p alloc g1 pgd opts st]
    is_page_aligned_iff[of 12]
  by (simp add: mmu_map_range_def del: mmu_map_loop.simps)

lemma vmm_alloc_loop_terminates:
  "unat sz div 4096 < fuel \<Longrightarrow> 4096 dvd unat sz \<Longrightarrow>
   vmm_alloc_loop fuel alloc g1 pgd v sz prot cnt st \<noteq> Diverge"
proof (induction fuel arbitrary: v sz cnt st)
  case (Suc fuel)
  have p: "vmm_alloc_page alloc g1 pgd v prot st \<noteq> Diverge"
    by (auto simp: vmm_alloc_page_def vmm_map_page_def vmm_map_range_def exec_bind_Diverge_iff
        mmu_map_range_terminates split: prod.split)
  show ?case
  proof (cases "sz = 0")
    case False
    then have ge: "PAGE_SIZE \<le> sz"
      using Suc.prems(2) by (rule page_multiple_ge)
    then have l: "unat (sz - PAGE_SIZE) = unat sz - 4096" "4096 \<le> unat sz"
      by (simp_all add: unat_sub word_le_nat_alt)
    then have "vmm_alloc_loop fuel alloc g1 pgd (v + PAGE_SIZE) (sz - PAGE_SIZE) prot (cnt + 1) st1 \<noteq> Diverge" for st1
      using Suc.prems by (intro Suc.IH) (simp_all add: le_div_geq)
    with p False show ?thesis by (auto simp: exec_bind_Diverge_iff)
  qed simp
qed simp

section \<open>Properties\<close>

subsection \<open>A small machine\<close>

text \<open>Memory full of zeros, a root table in the frame at 0x1000, and the bitmap of the allocator's
  own examples, which has five free frames.\<close>

abbreviation zero_mem :: mem where "zero_mem \<equiv> \<lambda>_. 0"

definition witness_pgd :: u64 where "witness_pgd = PHYS_TO_VIRT 0x1000"

definition witness_vmm :: "pmm vmm" where
  "witness_vmm = \<lparr>frames = witness_pmm, vmem = zero_mem, kernel_pgd = witness_pgd, cr3 = 0x1000\<rparr>"

definition user_prot :: pgprot where
  "user_prot = \<lparr>prot_flags = PAGE_RW OR PAGE_USER, allow_overwrite = False\<rparr>"

lemma zero_mem_ent: "ent zero_mem b i = 0"
proof -
  have "rd_le k zero_mem a = (0 :: u64)" for k a by (induction k arbitrary: a) auto
  then show ?thesis by (simp add: ent_def)
qed

lemma witness_pgd_al: "page_al witness_pgd"
  by (simp add: witness_pgd_def page_al_PHYS_TO_VIRT)

lemma witness_pmm_frames: "{0xb000, 0x11000, 0x12000, 0x13000} \<subseteq> pmm_avail witness_pmm" "0x1000 \<notin> pmm_avail witness_pmm"
proof -
  have "is_free (bitmap witness_pmm) 11 \<and> is_free (bitmap witness_pmm) 17 \<and> is_free (bitmap witness_pmm) 18
    \<and> is_free (bitmap witness_pmm) 19 \<and> \<not> is_free (bitmap witness_pmm) 1"
    by code_simp
  then show "{0xb000, 0x11000, 0x12000, 0x13000} \<subseteq> pmm_avail witness_pmm" "0x1000 \<notin> pmm_avail witness_pmm"
    by (simp_all add: pmm_avail_def)
qed

lemma card_ge: "set fs \<subseteq> A \<Longrightarrow> distinct fs \<Longrightarrow> length fs \<le> card A" for A :: "u64 set"
  using card_mono[of A "set fs"] by (simp add: distinct_card)

lemma witness_pmm_card: "4 \<le> card (pmm_avail witness_pmm)"
  using card_ge[of "[0xb000, 0x11000, 0x12000, 0x13000]" "pmm_avail witness_pmm"] witness_pmm_frames(1) by simp

lemma witness_root: "pt_ok (pmm_avail witness_pmm) witness_pgd zero_mem" "translate zero_mem witness_pgd v = None"
  using zero_root[OF witness_pgd_al zero_mem_ent] witness_pmm_frames(2) by (simp_all add: witness_pgd_def)

lemma user_prot_ok: "map_flags_ok user_prot"
  by (simp add: map_flags_ok_def user_prot_def flags_only_def huge_def)

subsection \<open>Mapping\<close>

text \<open>
  C1. \<^verbatim>\<open>mmu_map_range\<close> maps exactly the requested range: afterwards every canonical address of
  the range translates to the physical address at the same offset with the requested flags,
  every other address translates as before, whatever mixture of page sizes was used, and the
  tables are still a tree that holds no free frame.
\<close>

theorem mmu_map_range_exact:
  assumes "mmu_map_range pmm_alloc_frame g1 pgd v p len opts (s, m) = Ret (s', m')"
    and "pmm_ok s" "pt_ok (pmm_avail s) pgd m"
    and "canonical_range v len" "unat p + unat len \<le> 2 ^ 52" "map_flags_ok opts"
  shows "pmm_ok s' \<and> pt_ok (pmm_avail s') pgd m' \<and> pmm_avail s' \<subseteq> pmm_avail s
    \<and> (\<forall>w. canonical w \<longrightarrow> translate m' pgd w =
         (if in_block v len w then Some (p + (w - v), PAGE_PRESENT OR prot_flags opts) else translate m pgd w))"
  using bitmap.mmu_map_range_translate[OF assms] by blast

theorem mmu_map_range_exact_witness:
  "\<exists>s' m'. mmu_map_range pmm_alloc_frame False witness_pgd 0x400000 0x5000 PAGE_SIZE user_prot (witness_pmm, zero_mem)
       = Ret (s', m')
     \<and> translate m' witness_pgd 0x400123 = Some (0x5123, 7) \<and> translate m' witness_pgd 0x401000 = None"
proof -
  have c: "3 \<le> card (pmm_avail witness_pmm)" using witness_pmm_card by simp
  obtain s' m' where r: "mmu_map_range pmm_alloc_frame False witness_pgd 0x400000 0x5000 PAGE_SIZE user_prot
      (witness_pmm, zero_mem) = Ret (s', m')"
    using bitmap.map_4K_succeeds[OF witness_pmm_ok witness_root(1) c witness_root(2), of "0x400000" "0x5000"]
    by fastforce
  have "canonical_range 0x400000 PAGE_SIZE" "unat (0x5000 :: u64) + unat PAGE_SIZE \<le> 2 ^ 52"
    by (simp_all add: canonical_range_def)
  from mmu_map_range_exact[OF r witness_pmm_ok witness_root(1) this user_prot_ok]
  have t: "translate m' witness_pgd w = (if in_block 0x400000 PAGE_SIZE w
      then Some (0x5000 + (w - 0x400000), PAGE_PRESENT OR prot_flags user_prot) else translate zero_mem witness_pgd w)"
    if "canonical w" for w
    using that by blast
  have "canonical 0x400123" "canonical 0x401000" by (simp_all add: canonical_def)
  then show ?thesis
    using r t[of "0x400123"] t[of "0x401000"]
    by (auto simp: in_block_def user_prot_def witness_root(2))
qed

text \<open>
  C26. The loops of the mapping code end for all arguments, memory contents and allocators: the
  routines return or panic.
\<close>

theorem mapping_loops_terminate:
  "mmu_map_range alloc g1 pgd v p len opts st \<noteq> Diverge
   \<and> vmm_alloc_range alloc g1 pgd v sz opts vst \<noteq> Diverge"
proof -
  have "4096 dvd unat (PAGE_ALIGN_UP sz)"
    by (simp add: PAGE_ALIGN_UP_eq unat_PAGE_ALIGN_DOWN)
  then show ?thesis
    using vmm_alloc_loop_terminates[of "PAGE_ALIGN_UP sz" "unat (PAGE_ALIGN_UP sz) div 4096 + 1" alloc g1 pgd v opts 0 vst]
    by (simp add: mmu_map_range_terminates vmm_alloc_range_def Let_def del: vmm_alloc_loop.simps)
qed

subsection \<open>The kernel's address space\<close>

text \<open>
  C2. When \<^verbatim>\<open>vmm_init\<close> succeeds, the page table in \<^verbatim>\<open>cr3\<close> maps the kernel image at its
  link address, every page that touches usable memory at its direct-map address without execute
  permission, and no other canonical address; its tables are a tree, and none of them lies in a
  frame that can still be allocated.
\<close>

theorem vmm_init_address_space:
  assumes "vmm_init early_pmm_alloc_frame g1 cl kernel_end st = Ret (0, st')" and "early_ok (frames st)"
    and "direct_map_fits cl" and "KERNEL_START_VIRT_ADDR \<le> kernel_end" "unat kernel_end \<le> 2 ^ 64 - 4096"
  shows "pt_ok (early_avail (frames st')) (kernel_pgd st') (vmem st') \<and> early_ok (frames st')
    \<and> PHYS_TO_VIRT (cr3 st') = kernel_pgd st'
    \<and> (\<forall>w. canonical w \<longrightarrow> translate (vmem st') (kernel_pgd st') w =
       (if in_block KERNEL_START_VIRT_ADDR (PAGE_ALIGN_UP (kernel_end - KERNEL_START_VIRT_ADDR)) w
        then Some (KERNEL_START_PHYS_ADDR + (w - KERNEL_START_VIRT_ADDR), PAGE_PRESENT OR PAGE_RW)
        else if direct_page cl (VIRT_TO_PHYS w)
        then Some (VIRT_TO_PHYS w, PAGE_PRESENT OR PAGE_RW OR PAGE_NO_EXECUTE) else None))"
  using early.vmm_init_translate[OF assms] by (simp add: direct_prot_def kernel_prot_def)

definition witness_region :: phys_region where
  "witness_region = \<lparr>pr_start = 0x110080, pr_end = 0x110f00, pr_type = PHYS_REGION_USABLE\<rparr>"

definition witness_boot :: "early_pmm vmm" where
  "witness_boot = \<lparr>frames = witness_early, vmem = zero_mem, kernel_pgd = 0, cr3 = 0\<rparr>"

lemma witness_early_card: "7 \<le> card (early_avail (witness_early\<lparr>pa_cursor := 0x111000\<rparr>))"
proof -
  let ?fs = "[0x111000, 0x112000, 0x113000, 0x114000, 0x115000, 0x116000, 0x117000] :: u64 list"
  have e: "f \<in> early_avail (witness_early\<lparr>pa_cursor := 0x111000\<rparr>)"
    if "frame_in \<lparr>pr_start = 0x110000, pr_end = 0x1000000, pr_type = PHYS_REGION_USABLE\<rparr> f" "0x111000 \<le> f" for f
    unfolding early_avail_def mem_Collect_eq using that
    by (intro exI[of _ "2 :: u64"] exI[of _ "2 :: nat"]) (simp add: witness_early_def witness_clean_def)
  have "set ?fs \<subseteq> early_avail (witness_early\<lparr>pa_cursor := 0x111000\<rparr>)"
    by (simp add: e frame_in_def)
  from card_ge[OF this] show ?thesis by simp
qed

lemma witness_boot_runs:
  "\<exists>st'. vmm_init early_pmm_alloc_frame False [witness_region] 0xFFFFFFFF81000f00 witness_boot = Ret (0, st')"
proof -
  let ?s1 = "witness_early\<lparr>pa_cursor := 0x111000\<rparr>" and ?pgd = "PHYS_TO_VIRT 0x110000"
  let ?m1 = "snd (memset zero_mem ?pgd 0 PAGE_SIZE)"
  let ?st1 = "witness_boot\<lparr>frames := ?s1, vmem := ?m1, kernel_pgd := ?pgd\<rparr>"
  have a: "early_pmm_alloc_frame witness_early = (0x110000, ?s1)" by code_simp
  have ok1: "early_ok ?s1" by (rule early.alloc_ok[OF witness_early_ok a])
  have root: "pt_ok (early_avail ?s1) ?pgd ?m1" "translate ?m1 ?pgd v = None" for v
    using early.alloc_taken[OF witness_early_ok a] page_al_PHYS_TO_VIRT[of "0x110000"] memset_page_zero
    by (auto intro!: zero_root)
  have al: "4096 dvd unat ?pgd" by (simp add: PHYS_TO_VIRT_def)
  obtain s2 m2 where
    r2: "mmu_map_range early_pmm_alloc_frame False ?pgd ?pgd 0x110000 PAGE_SIZE direct_prot (?s1, ?m1) = Ret (s2, m2)"
    and c2: "card (early_avail ?s1) \<le> card (early_avail s2) + 3"
    using early.map_4K_succeeds[OF ok1 root(1) _ root(2) al, of "0x110000" False direct_prot] witness_early_card by auto
  have "canonical_range ?pgd PAGE_SIZE" "unat (0x110000 :: u64) + unat PAGE_SIZE \<le> 2 ^ 52"
    by (simp_all add: canonical_range_def PHYS_TO_VIRT_def)
  note t2 = early.mmu_map_range_translate[OF r2 ok1 root(1) this prots_ok(1)]
  have n2: "translate m2 ?pgd KERNEL_START_VIRT_ADDR = None"
    using t2(4)[of KERNEL_START_VIRT_ADDR] root(2) by (simp add: canonical_def in_block_def PHYS_TO_VIRT_def)
  obtain s3 m3 where r3: "mmu_map_range early_pmm_alloc_frame False ?pgd KERNEL_START_VIRT_ADDR KERNEL_START_PHYS_ADDR
      PAGE_SIZE kernel_prot (s2, m2) = Ret (s3, m3)"
    using early.map_4K_succeeds[OF t2(1,2) _ n2, of KERNEL_START_PHYS_ADDR False kernel_prot] c2 witness_early_card by auto
  have reg: "vmm_map_region early_pmm_alloc_frame False witness_region ?st1 = Ret (?st1\<lparr>frames := s2, vmem := m2\<rparr>)"
    using r2 by (simp add: vmm_map_region_def vmm_map_range_def witness_region_def PAGE_ALIGN_DOWN_def PAGE_ALIGN_UP_def)
  have ks: "PAGE_ALIGN_UP (0xFFFFFFFF81000f00 - KERNEL_START_VIRT_ADDR) = PAGE_SIZE"
    by (simp add: PAGE_ALIGN_UP_def)
  have fm: "frames witness_boot = witness_early" "vmem witness_boot = zero_mem" by (simp_all add: witness_boot_def)
  show ?thesis
    unfolding vmm_init_def fm a ks using reg r3 by (simp add: vmm_map_range_def)
qed

theorem vmm_init_address_space_witness:
  "\<exists>st'. vmm_init early_pmm_alloc_frame False [witness_region] 0xFFFFFFFF81000f00 witness_boot = Ret (0, st')
     \<and> translate (vmem st') (kernel_pgd st') 0xFFFFFFFF81000abc = Some (0x1000abc, 3)
     \<and> translate (vmem st') (kernel_pgd st') 0xffff888000110004 = Some (0x110004, 0x8000000000000003)
     \<and> translate (vmem st') (kernel_pgd st') 0x400000 = None"
proof -
  obtain st' where r: "vmm_init early_pmm_alloc_frame False [witness_region] 0xFFFFFFFF81000f00 witness_boot = Ret (0, st')"
    using witness_boot_runs by blast
  have "early_ok (frames witness_boot)" "direct_map_fits [witness_region]"
    "KERNEL_START_VIRT_ADDR \<le> 0xFFFFFFFF81000f00" "unat (0xFFFFFFFF81000f00 :: u64) \<le> 2 ^ 64 - 4096"
    by (simp_all add: witness_boot_def witness_early_ok direct_map_fits_def witness_region_def)
  from vmm_init_address_space[OF r this]
  have t: "translate (vmem st') (kernel_pgd st') w =
      (if in_block KERNEL_START_VIRT_ADDR (PAGE_ALIGN_UP (0xFFFFFFFF81000f00 - KERNEL_START_VIRT_ADDR)) w
        then Some (KERNEL_START_PHYS_ADDR + (w - KERNEL_START_VIRT_ADDR), PAGE_PRESENT OR PAGE_RW)
        else if direct_page [witness_region] (VIRT_TO_PHYS w)
        then Some (VIRT_TO_PHYS w, PAGE_PRESENT OR PAGE_RW OR PAGE_NO_EXECUTE) else None)" if "canonical w" for w
    using that by blast
  have c: "canonical 0xFFFFFFFF81000abc" "canonical 0xffff888000110004" "canonical 0x400000"
    by (simp_all add: canonical_def)
  show ?thesis
    using r t[OF c(1)] t[OF c(2)] t[OF c(3)]
    by (simp add: in_block_def PAGE_ALIGN_UP_def direct_page_def witness_region_def VIRT_TO_PHYS_def)
qed

text \<open>
  C6. \<^verbatim>\<open>vmm_alloc_range\<close> on the bitmap allocator returns the number of pages of the range, each
  of them mapped to a frame of its own that was free before and is not free any more, with no
  other address changed; or it returns \<^verbatim>\<open>-ENOMEM\<close>, and then no frame is left.
\<close>

theorem vmm_alloc_range_backs:
  assumes "vmm_alloc_range pmm_alloc_frame g1 pgd v sz prot st = Ret (r, st')"
    and "pmm_ok (frames st)" "pt_ok (pmm_avail (frames st)) pgd (vmem st)"
    and "canonical_range v (PAGE_ALIGN_UP sz)" "map_flags_ok prot"
  shows "pmm_ok (frames st') \<and> pt_ok (pmm_avail (frames st')) pgd (vmem st')
    \<and> (r = - ENOMEM \<and> pmm_avail (frames st') = {}
       \<or> r = int (unat (PAGE_ALIGN_UP sz) div 4096)
         \<and> (\<exists>fs. distinct fs \<and> set fs \<subseteq> pmm_avail (frames st) - pmm_avail (frames st')
              \<and> backed (vmem st) (vmem st') pgd v (PAGE_ALIGN_UP sz) (PAGE_PRESENT OR prot_flags prot) fs))"
proof -
  have d: "4096 dvd unat (PAGE_ALIGN_UP sz)"
    by (simp add: PAGE_ALIGN_UP_eq unat_PAGE_ALIGN_DOWN)
  have r: "vmm_alloc_loop (unat (PAGE_ALIGN_UP sz) div 4096 + 1) pmm_alloc_frame g1 pgd v (PAGE_ALIGN_UP sz) prot 0 st = Ret (r, st')"
    using assms(1) unfolding vmm_alloc_range_def Let_def by (simp only: IS_PAGE_ALIGNED_never_0 if_False)
  from bitmap.vmm_alloc_loop_cases[OF r assms(2-4) d assms(5)] show ?thesis by simp
qed

theorem vmm_alloc_range_backs_witness:
  "\<exists>st' f. vmm_alloc_range pmm_alloc_frame False witness_pgd 0x7fff000 100 user_prot witness_vmm = Ret (1, st')
     \<and> f \<in> pmm_avail witness_pmm \<and> translate (vmem st') witness_pgd 0x7fff010 = Some (f + 0x10, 7)"
proof -
  have v: "frames witness_vmm = witness_pmm" "vmem witness_vmm = zero_mem" by (simp_all add: witness_vmm_def)
  obtain st' where p: "vmm_alloc_page pmm_alloc_frame False witness_pgd 0x7fff000 user_prot witness_vmm = Ret (0, st')"
    using bitmap.vmm_alloc_page_succeeds[of witness_vmm witness_pgd "0x7fff000" False user_prot]
      witness_pmm_ok witness_root witness_pmm_card by (auto simp: v)
  have up: "PAGE_ALIGN_UP 100 = PAGE_SIZE" by (simp add: PAGE_ALIGN_UP_def)
  have f: "unat PAGE_SIZE div 4096 + 1 = Suc (Suc 0)" by simp
  have r: "vmm_alloc_range pmm_alloc_frame False witness_pgd 0x7fff000 100 user_prot witness_vmm = Ret (1, st')"
    unfolding vmm_alloc_range_def up Let_def f using p by (simp add: IS_PAGE_ALIGNED_never_0)
  have "canonical_range 0x7fff000 (PAGE_ALIGN_UP 100)" by (simp add: up canonical_range_def)
  note t = vmm_alloc_range_backs[OF r _ _ this user_prot_ok]
  obtain fs where fs: "set fs \<subseteq> pmm_avail witness_pmm"
    "backed zero_mem (vmem st') witness_pgd 0x7fff000 PAGE_SIZE (PAGE_PRESENT OR prot_flags user_prot) fs"
    using t witness_pmm_ok witness_root(1) by (auto simp: v up)
  have "canonical 0x7fff010" by (simp add: canonical_def)
  then have tr: "translate (vmem st') witness_pgd 0x7fff010 = Some (fs ! 0 + 0x10, 7)" and l: "length fs = 1"
    using fs(2) by (auto simp: backed_def in_block_def user_prot_def)
  then have "fs ! 0 \<in> pmm_avail witness_pmm" using fs(1) nth_mem[of 0 fs] by auto
  with r tr show ?thesis by blast
qed

text \<open>
  A page at an unmapped address can always be allocated while four frames are free, one for
  the page and up to three for its tables: \<^verbatim>\<open>vmm_alloc_page\<close> returns 0 and does not panic.
\<close>

theorem vmm_alloc_page_progress:
  assumes "pmm_ok (frames st)" "pt_ok (pmm_avail (frames st)) pgd (vmem st)"
    and "4 \<le> card (pmm_avail (frames st))" "translate (vmem st) pgd v = None" "4096 dvd unat v"
  shows "\<exists>st'. vmm_alloc_page pmm_alloc_frame g1 pgd v prot st = Ret (0, st')"
  by (rule bitmap.vmm_alloc_page_succeeds[OF assms])

theorem vmm_alloc_page_progress_witness:
  "\<exists>st'. vmm_alloc_page pmm_alloc_frame True witness_pgd 0x200000 user_prot witness_vmm = Ret (0, st')"
  using vmm_alloc_page_progress[of witness_vmm witness_pgd "0x200000" True user_prot]
    witness_pmm_ok witness_root witness_pmm_card by (simp add: witness_vmm_def)

text \<open>
  C27. \<^verbatim>\<open>ioremap\<close> makes a device accessible: every byte of the window translates to the device's
  byte at the same offset, uncached, and the returned pointer is the window's first byte.
\<close>

theorem ioremap_window:
  assumes "ioremap pmm_alloc_frame g1 paddr sz st = Ret (ptr, st')"
    and "pmm_ok (frames st)" "pt_ok (pmm_avail (frames st)) (kernel_pgd st) (vmem st)"
    and "unat paddr + unat sz \<le> 2 ^ 46" "i < unat sz"
  shows "ptr = PHYS_TO_VIRT paddr \<and> pt_ok (pmm_avail (frames st')) (kernel_pgd st) (vmem st')
    \<and> translate (vmem st') (kernel_pgd st) (ptr + of_nat i) =
        Some (paddr + of_nat i, PAGE_PRESENT OR PAGE_RW OR PAGE_CACHE_DISABLE OR PAGE_WRITE_THROUGH)"
proof -
  let ?pa = "PAGE_ALIGN_DOWN paddr" and ?off = "paddr - PAGE_ALIGN_DOWN paddr"
  let ?len = "PAGE_ALIGN_UP (sz + ?off)"
  from assms(1) have r: "vmm_map_range pmm_alloc_frame g1 (kernel_pgd st) (PHYS_TO_VIRT ?pa) ?pa ?len ioremap_prot st = Ret st'"
    and ptr: "ptr = PHYS_TO_VIRT paddr" by (auto simp: ioremap_def Let_def exec_bind_Ret_iff)
  have pa: "unat ?pa = unat paddr div 4096 * 4096" by (rule unat_PAGE_ALIGN_DOWN)
  then have off: "unat ?off = unat paddr mod 4096"
    using minus_div_mult_eq_mod[of "unat paddr" 4096] by (simp add: unat_sub word_le_nat_alt)
  have so: "unat (sz + ?off) = unat sz + unat paddr mod 4096"
    using assms(4) off by (subst unat_add_small) auto
  have "unat (sz + ?off) + 4095 < 2 ^ 64" using so assms(4) by auto
  note len = unat_PAGE_ALIGN_UP_small[OF this]
  have sum: "unat paddr div 4096 * 4096 + unat paddr mod 4096 = unat paddr" by simp
  have bound: "unat ?pa + unat ?len < unat paddr + unat sz + 4096" using len so pa sum by linarith
  have pv: "unat (PHYS_TO_VIRT ?pa) = unat ?pa + unat ID_VIRT_REGION_START"
    unfolding PHYS_TO_VIRT_def using bound assms(4) by (subst unat_add_small) auto
  have "canonical_range (PHYS_TO_VIRT ?pa) ?len" "unat ?pa + unat ?len \<le> 2 ^ 52"
    using bound assms(4) pv by (simp_all add: canonical_range_def)
  note t = bitmap.vmm_map_range_translate[OF r assms(2,3) this prots_ok(3)]
  have pi: "unat (paddr + of_nat i) = unat paddr + i"
    using assms(4,5) by (subst unat_add_small) (auto simp: unat_of_nat_small)
  have w: "unat (ptr + of_nat i) = unat paddr + i + unat ID_VIRT_REGION_START"
    using assms(4,5) pi unfolding ptr PHYS_TO_VIRT_def add.commute[of paddr] add.assoc
    by (subst unat_add_small) auto
  have c: "canonical (ptr + of_nat i)" using w assms(4,5) by (simp add: canonical_def)
  have lo: "unat ?pa \<le> unat paddr" and hi: "unat paddr + i < unat ?pa + unat ?len"
    using len so pa sum assms(5) by linarith+
  have "in_block (PHYS_TO_VIRT ?pa) ?len (ptr + of_nat i)"
    using bound assms(4) pv w lo hi by (subst in_block_unat) auto
  with t(2) t(5)[OF c] ptr show ?thesis
    by (simp add: PHYS_TO_VIRT_def ioremap_prot_def)
qed

theorem ioremap_window_witness:
  "\<exists>st'. ioremap pmm_alloc_frame False 0xFEE00010 16 witness_vmm = Ret (0xffff8880FEE00010, st')
     \<and> translate (vmem st') witness_pgd 0xffff8880FEE00015 = Some (0xFEE00015, 0x1b)"
proof -
  have v: "frames witness_vmm = witness_pmm" "vmem witness_vmm = zero_mem" "kernel_pgd witness_vmm = witness_pgd"
    by (simp_all add: witness_vmm_def)
  have c: "3 \<le> card (pmm_avail witness_pmm)" using witness_pmm_card by simp
  obtain s' m' where m: "mmu_map_range pmm_alloc_frame False witness_pgd 0xffff8880FEE00000 0xFEE00000 PAGE_SIZE ioremap_prot
      (witness_pmm, zero_mem) = Ret (s', m')"
    using bitmap.map_4K_succeeds[OF witness_pmm_ok witness_root(1) c witness_root(2),
        of "0xffff8880FEE00000" "0xFEE00000" False ioremap_prot] by auto
  then obtain st' where r: "ioremap pmm_alloc_frame False 0xFEE00010 16 witness_vmm = Ret (0xffff8880FEE00010, st')"
    by (auto simp: ioremap_def vmm_map_range_def v PAGE_ALIGN_DOWN_def PAGE_ALIGN_UP_def PHYS_TO_VIRT_def)
  from ioremap_window[OF r, of 5] show ?thesis
    using r witness_pmm_ok witness_root(1) by (auto simp: v)
qed

end
