(* ===== verification/Klist.thy ===== *)
theory Klist
  imports Prelude
begin

text \<open>
  The intrusive doubly linked list of \<^verbatim>\<open>include/list.h\<close>. A list node is its address; the
  \<open>next\<close> and \<open>prev\<close> fields of all nodes are two functions on addresses, so aliasing is as in
  the code. \<open>ring\<close> says which sequence of nodes hangs on a list head, and the lemmas give each
  operation as the operation on that sequence.
\<close>

section \<open>Operations\<close>

record list_head =
  lnext :: "u64 \<Rightarrow> u64"
  lprev :: "u64 \<Rightarrow> u64"

definition set_next :: "u64 \<Rightarrow> u64 \<Rightarrow> list_head \<Rightarrow> list_head" where
  "set_next a v l = l\<lparr>lnext := (lnext l)(a := v)\<rparr>"

definition set_prev :: "u64 \<Rightarrow> u64 \<Rightarrow> list_head \<Rightarrow> list_head" where
  "set_prev a v l = l\<lparr>lprev := (lprev l)(a := v)\<rparr>"

definition INIT_LIST_HEAD :: "u64 \<Rightarrow> list_head \<Rightarrow> list_head" where
  "INIT_LIST_HEAD h l = set_prev h h (set_next h h l)"

definition list_add :: "u64 \<Rightarrow> u64 \<Rightarrow> list_head \<Rightarrow> list_head" where
  "list_add n h l =
     (let l1 = set_prev n h l;
          l2 = set_next n (lnext l1 h) l1;
          l3 = set_prev (lnext l2 h) n l2
      in set_next h n l3)"

definition list_add_tail :: "u64 \<Rightarrow> u64 \<Rightarrow> list_head \<Rightarrow> list_head" where
  "list_add_tail n h l =
     (let l1 = set_next n h l;
          l2 = set_prev n (lprev l1 h) l1;
          l3 = set_next (lprev l2 h) n l2
      in set_prev h n l3)"

definition list_del :: "u64 \<Rightarrow> list_head \<Rightarrow> list_head" where
  "list_del e l =
     (let l1 = set_next (lprev l e) (lnext l e) l
      in set_prev (lnext l1 e) (lprev l1 e) l1)"

definition list_empty :: "u64 \<Rightarrow> list_head \<Rightarrow> bool" where
  "list_empty h l \<longleftrightarrow> lnext l h = h"

text \<open>The nodes a \<^verbatim>\<open>list_for_each\<close> loop visits, if it comes rear to the head within the fuel.\<close>

fun list_nodes :: "nat \<Rightarrow> u64 \<Rightarrow> u64 \<Rightarrow> list_head \<Rightarrow> u64 list option" where
  "list_nodes 0 pos h l = None"
| "list_nodes (Suc fuel) pos h l =
     (if pos = h then Some [] else map_option (Cons pos) (list_nodes fuel (lnext l pos) h l))"

section \<open>Rings\<close>

text \<open>\<open>linked l a xs b\<close>: following \<open>next\<close> from \<open>a\<close> visits \<open>xs\<close> and arrives at \<open>b\<close>, and each
  step is undone by \<open>prev\<close>.\<close>

fun linked :: "list_head \<Rightarrow> u64 \<Rightarrow> u64 list \<Rightarrow> u64 \<Rightarrow> bool" where
  "linked l a [] b \<longleftrightarrow> lnext l a = b \<and> lprev l b = a"
| "linked l a (x # xs) b \<longleftrightarrow> lnext l a = x \<and> lprev l x = a \<and> linked l x xs b"

definition ring :: "list_head \<Rightarrow> u64 \<Rightarrow> u64 list \<Rightarrow> bool" where
  "ring l h xs \<longleftrightarrow> distinct (h # xs) \<and> linked l h xs h"

lemma set_simps [simp]:
  "lnext (set_next a v l) = (lnext l)(a := v)" "lprev (set_next a v l) = lprev l"
  "lnext (set_prev a v l) = lnext l" "lprev (set_prev a v l) = (lprev l)(a := v)"
  by (simp_all add: set_next_def set_prev_def)

lemma linked_append: "linked l a (xs @ y # ys) b \<longleftrightarrow> linked l a xs y \<and> linked l y ys b"
  by (induction xs arbitrary: a) auto

text \<open>A segment only depends on \<open>next\<close> of its nodes but the last and \<open>prev\<close> of its nodes but the first.\<close>

lemma linked_cong:
  assumes "linked l a xs b" "\<And>x. x \<in> set (a # xs) \<Longrightarrow> lnext l' x = lnext l x"
    and "\<And>x. x \<in> set (xs @ [b]) \<Longrightarrow> lprev l' x = lprev l x"
  shows "linked l' a xs b"
  using assms by (induction xs arbitrary: a) auto

lemma ring_other:
  assumes "ring l h xs" "\<And>x. x \<in> set (h # xs) \<Longrightarrow> lnext l' x = lnext l x \<and> lprev l' x = lprev l x"
  shows "ring l' h xs"
  using assms linked_cong[of l h xs h l'] by (auto simp: ring_def)

lemma ring_INIT: "ring (INIT_LIST_HEAD h l) h []"
  by (simp add: ring_def INIT_LIST_HEAD_def)

lemma ring_empty: "ring l h xs \<Longrightarrow> list_empty h l \<longleftrightarrow> xs = []"
  by (cases xs) (auto simp: ring_def list_empty_def)

lemma ring_first: "ring l h (x # xs) \<Longrightarrow> lnext l h = x"
  by (simp add: ring_def)

lemma ring_add:
  assumes "ring l h xs" "n \<notin> set (h # xs)"
  shows "ring (list_add n h l) h (n # xs)"
proof (cases xs)
  case Nil
  with assms show ?thesis by (simp add: ring_def list_add_def Let_def)
next
  case (Cons y ys)
  with assms have "linked l y ys h" "distinct (h # y # ys)" "lnext l h = y" by (auto simp: ring_def)
  then have "linked (list_add n h l) y ys h"
    using assms(2) Cons by (elim linked_cong) (auto simp: list_add_def Let_def)
  with assms Cons show ?thesis by (auto simp: ring_def list_add_def Let_def)
qed

lemma ring_add_tail:
  assumes "ring l h xs" "n \<notin> set (h # xs)"
  shows "ring (list_add_tail n h l) h (xs @ [n])"
proof (cases xs rule: rev_cases)
  case Nil
  with assms show ?thesis by (simp add: ring_def list_add_tail_def Let_def)
next
  case (snoc ys y)
  with assms have "linked l h ys y" "distinct (h # ys @ [y])" "lprev l h = y"
    by (auto simp: ring_def linked_append)
  then have "linked (list_add_tail n h l) h ys y"
    using assms(2) snoc by (elim linked_cong) (auto simp: list_add_tail_def Let_def)
  with assms snoc show ?thesis
    using \<open>lprev l h = y\<close> by (auto simp: ring_def list_add_tail_def Let_def linked_append)
qed

lemma ring_del:
  assumes "ring l h (ys @ n # zs)"
  shows "ring (list_del n l) h (ys @ zs)"
proof -
  have d: "distinct (h # ys @ n # zs)" and k: "linked l h ys n" "linked l n zs h"
    using assms by (simp_all add: ring_def linked_append)
  have front: "linked (list_del n l) h ys' y" if yse: "ys = ys' @ [y]" for ys' y
  proof (rule linked_cong)
    show "linked l h ys' y" using k(1) yse by (simp add: linked_append)
    fix x
    show "lnext (list_del n l) x = lnext l x" if "x \<in> set (h # ys')"
      using that yse d k by (auto simp: list_del_def Let_def linked_append)
    show "lprev (list_del n l) x = lprev l x" if "x \<in> set (ys' @ [y])"
      using that yse d k by (cases zs) (auto simp: list_del_def Let_def linked_append)
  qed
  have rear: "linked (list_del n l) z zs' h" if zse: "zs = z # zs'" for z zs'
  proof (rule linked_cong)
    show "linked l z zs' h" using k(2) zse by simp
    fix x
    show "lnext (list_del n l) x = lnext l x" if "x \<in> set (z # zs')"
      using that zse d k by (cases ys rule: rev_cases) (auto simp: list_del_def Let_def linked_append)
    show "lprev (list_del n l) x = lprev l x" if "x \<in> set (zs' @ [h])"
      using that zse d k by (auto simp: list_del_def Let_def)
  qed
  show ?thesis
  proof (cases ys rule: rev_cases; cases zs)
    assume "ys = []" "zs = []"
    with d k show ?thesis by (simp add: ring_def list_del_def Let_def)
  next
    fix z zs' assume e: "ys = []" "zs = z # zs'"
    with d k rear[OF e(2)] show ?thesis by (simp add: ring_def list_del_def Let_def)
  next
    fix ys' y assume e: "ys = ys' @ [y]" "zs = []"
    with d k front[OF e(1)] show ?thesis by (simp add: ring_def list_del_def Let_def linked_append)
  next
    fix ys' y z zs' assume e: "ys = ys' @ [y]" "zs = z # zs'"
    with d k front[OF e(1)] rear[OF e(2)] show ?thesis
      by (simp add: ring_def list_del_def Let_def linked_append)
  qed
qed

text \<open>What an operation on one ring leaves alone.\<close>

lemma ring_nodes_prev: "ring l h xs \<Longrightarrow> x \<in> set (h # xs) \<Longrightarrow> lprev l x \<in> set (h # xs) \<and> lnext l x \<in> set (h # xs)"
proof -
  have "linked l a xs b \<Longrightarrow> (\<forall>x \<in> set (a # xs). lnext l x \<in> set (xs @ [b])) \<and> (\<forall>x \<in> set (xs @ [b]). lprev l x \<in> set (a # xs))" for a b
    by (induction xs arbitrary: a) auto
  then show "ring l h xs \<Longrightarrow> x \<in> set (h # xs) \<Longrightarrow> lprev l x \<in> set (h # xs) \<and> lnext l x \<in> set (h # xs)"
    by (fastforce simp: ring_def)
qed

lemma add_tail_elsewhere:
  assumes "ring l h xs" "a \<notin> set (n # h # xs)"
  shows "lnext (list_add_tail n h l) a = lnext l a \<and> lprev (list_add_tail n h l) a = lprev l a"
  using assms(2) ring_nodes_prev[OF assms(1), of h] by (auto simp: list_add_tail_def Let_def)

lemma add_elsewhere:
  assumes "ring l h xs" "a \<notin> set (n # h # xs)"
  shows "lnext (list_add n h l) a = lnext l a \<and> lprev (list_add n h l) a = lprev l a"
  using assms(2) ring_nodes_prev[OF assms(1), of h] by (auto simp: list_add_def Let_def)

lemma del_elsewhere:
  assumes "ring l h xs" "n \<in> set xs" "a \<notin> set (h # xs)"
  shows "lnext (list_del n l) a = lnext l a \<and> lprev (list_del n l) a = lprev l a"
proof -
  have "lprev l n \<in> set (h # xs)" "lnext l n \<in> set (h # xs)"
    using ring_nodes_prev[OF assms(1), of n] assms(2) by auto
  then show ?thesis using assms(3) by (auto simp: list_del_def Let_def)
qed

lemma ring_list_nodes:
  assumes "ring l h xs" "length xs < fuel"
  shows "list_nodes fuel (lnext l h) h l = Some xs"
proof -
  have "linked l a xs h \<Longrightarrow> h \<notin> set xs \<Longrightarrow> length xs < fuel \<Longrightarrow> list_nodes fuel (lnext l a) h l = Some xs" for a
  proof (induction xs arbitrary: a fuel)
    case Nil
    then show ?case by (cases fuel) auto
  next
    case (Cons x xs)
    then show ?case by (cases fuel) auto
  qed
  with assms show ?thesis by (auto simp: ring_def)
qed

end
