(* ===== verification/Sched.thy ===== *)
theory Sched
  imports Klist
begin

text \<open>
  Tasks and the scheduler: \<^verbatim>\<open>kernel/sched.c\<close>, the context switch of
  \<^verbatim>\<open>arch/x86_64/kernel/process.c\<close> and \<^verbatim>\<open>arch/x86_64/kernel/switch.asm\<close>, and the task states of
  \<^verbatim>\<open>kernel/task.c\<close>. Tasks are a store from addresses to task structures; their list nodes live in
  the link store of Klist at the address of the field \<^verbatim>\<open>run_node\<close>. The state is that of the
  one processor the kernel uses, and a switch hands it to the next task.
\<close>

section \<open>State\<close>

abbreviation TASK_RUNNING :: u32 where "TASK_RUNNING \<equiv> 0"
abbreviation TASK_INTERRUPTIBLE :: u32 where "TASK_INTERRUPTIBLE \<equiv> 1"
abbreviation TASK_KERNEL_STACK_PAGE_COUNT :: u64 where "TASK_KERNEL_STACK_PAGE_COUNT \<equiv> 4"
abbreviation TASK_KERNEL_STACK_SIZE :: u64 where "TASK_KERNEL_STACK_SIZE \<equiv> 4 * PAGE_SIZE"
abbreviation TASK_USER_STACK_TOP_ADDR :: u64 where "TASK_USER_STACK_TOP_ADDR \<equiv> 0x7FFFFFFFF000"

record task_struct =
  pid :: u32
  state :: u32
  kernel_stack :: u64
  task_mm :: u64
  ctx_rsp :: u64
  fd :: "u64 list"

text \<open>\<open>run_queue\<close> is the address of the static list head, \<open>mm_pgd\<close> the field \<^verbatim>\<open>pgd\<close> of each
  \<^verbatim>\<open>mm_struct\<close>, \<open>cpu_current\<close> and \<open>cpu_kernel_stack\<close> are fields of \<^verbatim>\<open>cpu0_data\<close>; \<open>rsp\<close>,
  \<open>cpu_cr3\<close> and \<open>tss_rsp0\<close> belong to the processor.\<close>

record sched =
  links :: list_head
  task_at :: "u64 \<Rightarrow> task_struct"
  mm_pgd :: "u64 \<Rightarrow> u64"
  run_queue :: u64
  current_task :: u64
  idle_task :: u64
  cpu_current :: u64
  cpu_kernel_stack :: u64
  rsp :: u64
  cpu_cr3 :: u64
  tss_rsp0 :: u64

text \<open>\<^verbatim>\<open>&t->run_node\<close> and \<^verbatim>\<open>list_entry(n, struct task_struct, run_node)\<close>; the field is at offset
  160, after the identifier and state, three pointers and sixteen file pointers.\<close>

definition run_node :: "u64 \<Rightarrow> u64" where
  "run_node t = t + 160"

definition task_of :: "u64 \<Rightarrow> u64" where
  "task_of n = n - 160"

section \<open>Operations\<close>

definition task_set_state :: "u64 \<Rightarrow> u32 \<Rightarrow> sched \<Rightarrow> sched" where
  "task_set_state t s st = st\<lparr>task_at := (task_at st)(t := (task_at st t)\<lparr>state := s\<rparr>)\<rparr>"

text \<open>\<open>p\<close> is the address that \<^verbatim>\<open>kzalloc\<close> returned.\<close>

definition create_idle_task :: "u64 \<Rightarrow> sched \<Rightarrow> sched exec" where
  "create_idle_task p st =
     (if p = 0 then Panic ''create_idle_task: couldn't create the idle task.''
      else Ret (st\<lparr>idle_task := p, current_task := p, cpu_current := p,
             task_at := (task_at st)(p := \<lparr>pid = 0, state = TASK_RUNNING, kernel_stack = 0, task_mm = 0,
               ctx_rsp = 0, fd = replicate 16 0\<rparr>)\<rparr>))"

definition sched_enqueue :: "u64 \<Rightarrow> sched \<Rightarrow> sched" where
  "sched_enqueue t st = st\<lparr>links := list_add_tail (run_node t) (run_queue st) (links st)\<rparr>"

definition sched_dequeue :: "u64 \<Rightarrow> sched \<Rightarrow> sched" where
  "sched_dequeue t st = st\<lparr>links := list_del (run_node t) (links st)\<rparr>"

definition sched_next :: "sched \<Rightarrow> u64 \<times> sched" where
  "sched_next st =
     (if list_empty (run_queue st) (links st) then (idle_task st, st)
      else
        let node = lnext (links st) (run_queue st);
            l = list_add_tail node (run_queue st) (list_del node (links st))
        in (task_of (lnext l (run_queue st)), st\<lparr>links := l\<rparr>))"

text \<open>
  \<^verbatim>\<open>__arch_switch_to\<close> is called with the stack pointer \<open>rsp\<close>: the call and seven pushes take 64
  bytes, the stack pointer is saved in the old task and that of the new one loaded, and seven
  pops and the return release 64 bytes of the new stack.
\<close>

definition raw_switch_to :: "u64 \<Rightarrow> u64 \<Rightarrow> sched \<Rightarrow> sched" where
  "raw_switch_to prev nxt st =
     (let st1 = st\<lparr>task_at := (task_at st)(prev := (task_at st prev)\<lparr>ctx_rsp := rsp st - 64\<rparr>)\<rparr>
      in st1\<lparr>rsp := ctx_rsp (task_at st1 nxt) + 64\<rparr>)"

definition arch_switch_to :: "u64 \<Rightarrow> u64 \<Rightarrow> sched \<Rightarrow> sched" where
  "arch_switch_to prev nxt st =
     (let st1 = (if kernel_stack (task_at st nxt) \<noteq> 0
                 then st\<lparr>tss_rsp0 := kernel_stack (task_at st nxt) + TASK_KERNEL_STACK_SIZE\<rparr> else st);
          st2 = (if task_mm (task_at st nxt) \<noteq> 0 \<and> task_mm (task_at st nxt) \<noteq> task_mm (task_at st prev)
                 then st1\<lparr>cpu_cr3 := VIRT_TO_PHYS (mm_pgd st (task_mm (task_at st nxt)))\<rparr> else st1)
      in raw_switch_to prev nxt st2)"

definition do_schedule :: "bool \<Rightarrow> sched \<Rightarrow> sched" where
  "do_schedule preempt st =
     (let cur = current_task st;
          st1 = (if \<not> preempt \<and> state (task_at st cur) \<noteq> TASK_RUNNING then sched_dequeue cur st else st);
          (nxt, st2) = sched_next st1
      in if nxt \<noteq> cur then
           let st3 = st2\<lparr>current_task := nxt, cpu_current := nxt,
                        cpu_kernel_stack := kernel_stack (task_at st2 nxt)\<rparr>
           in arch_switch_to cur nxt st3
         else st2)"

definition schedule :: "sched \<Rightarrow> sched" where
  "schedule = do_schedule False"

definition wake_up_task :: "u64 \<Rightarrow> sched \<Rightarrow> bool \<times> sched" where
  "wake_up_task t st =
     (if state (task_at st t) \<noteq> TASK_RUNNING
      then (True, sched_enqueue t (task_set_state t TASK_RUNNING st))
      else (False, st))"

definition set_current_state :: "u32 \<Rightarrow> sched \<Rightarrow> sched" where
  "set_current_state s st = task_set_state (current_task st) s st"

definition timer_irq_handler :: "sched \<Rightarrow> sched exec" where
  "timer_irq_handler st =
     (if cpu_current st \<noteq> current_task st then Panic ''cur != sched_current()''
      else Ret (do_schedule True st))"

section \<open>The run queue as a sequence of tasks\<close>

definition queue :: "sched \<Rightarrow> u64 list \<Rightarrow> bool" where
  "queue st ts \<longleftrightarrow> ring (links st) (run_queue st) (map run_node ts)"

lemma task_of_node [simp]: "task_of (run_node t) = t" "run_node (task_of n) = n"
  by (simp_all add: task_of_def run_node_def)

lemma run_node_eq [simp]: "run_node a = run_node b \<longleftrightarrow> a = b"
  by (simp add: run_node_def)

lemma inj_run_node: "inj run_node"
  by (rule injI) simp

lemma queue_distinct: "queue st ts \<Longrightarrow> distinct ts"
  by (auto simp: queue_def ring_def distinct_map)

lemma queue_enqueue:
  assumes "queue st ts" "t \<notin> set ts" "run_node t \<noteq> run_queue st"
  shows "queue (sched_enqueue t st) (ts @ [t])"
  using assms ring_add_tail[of "links st" "run_queue st" "map run_node ts" "run_node t"]
  by (simp add: queue_def sched_enqueue_def image_iff)

lemma queue_dequeue:
  assumes "queue st (xs @ t # ys)"
  shows "queue (sched_dequeue t st) (xs @ ys)"
  using assms ring_del[of "links st" "run_queue st" "map run_node xs" "run_node t" "map run_node ys"]
  by (simp add: queue_def sched_dequeue_def)

lemma queue_next:
  assumes "queue st (t # ts)"
  shows "queue (snd (sched_next st)) (ts @ [t])" and "fst (sched_next st) = hd (ts @ [t])"
proof -
  let ?h = "run_queue st" and ?l = "links st"
  let ?l' = "list_add_tail (run_node t) ?h (list_del (run_node t) ?l)"
  have r: "ring ?l ?h (run_node t # map run_node ts)" using assms by (simp add: queue_def)
  have ne: "\<not> list_empty ?h ?l" using ring_empty[OF r] by simp
  have "ring (list_del (run_node t) ?l) ?h (map run_node ts)"
    using ring_del[of ?l ?h "[]" "run_node t"] r by simp
  moreover have "run_node t \<notin> set (?h # map run_node ts)" using r by (auto simp: ring_def)
  ultimately have r': "ring ?l' ?h (map run_node (ts @ [t]))"
    using ring_add_tail by fastforce
  have st: "sched_next st = (task_of (lnext ?l' ?h), st\<lparr>links := ?l'\<rparr>)"
    using ne ring_first[OF r] by (simp add: sched_next_def Let_def)
  show "queue (snd (sched_next st)) (ts @ [t])" using r' by (simp add: st queue_def)
  show "fst (sched_next st) = hd (ts @ [t])"
    using r' ring_first[of ?l' ?h] by (cases ts) (auto simp: st)
qed

lemma queue_next_empty: "queue st [] \<Longrightarrow> sched_next st = (idle_task st, st)"
  using ring_empty[of "links st" "run_queue st" "[]"] by (simp add: queue_def sched_next_def)

section \<open>Steps of the scheduler\<close>

text \<open>
  What happens to the scheduler between two instructions of a task with interrupts enabled: a
  timer interrupt, a task that goes to sleep or yields, a new task, and a wake-up of any task.
\<close>

inductive sched_step :: "sched \<Rightarrow> sched \<Rightarrow> bool" where
  tick: "timer_irq_handler st = Ret st' \<Longrightarrow> sched_step st st'"
| yield: "sched_step st (schedule st)"
| sleep: "current_task st \<noteq> idle_task st \<Longrightarrow>
    sched_step st (schedule (set_current_state TASK_INTERRUPTIBLE st))"
| spawn: "run_node t \<noteq> run_queue st \<Longrightarrow> t \<noteq> idle_task st \<Longrightarrow> state (task_at st t) = TASK_RUNNING \<Longrightarrow>
    \<forall>ts. queue st ts \<longrightarrow> t \<notin> set ts \<Longrightarrow> sched_step st (sched_enqueue t st)"
| wake: "run_node t \<noteq> run_queue st \<Longrightarrow> sched_step st (snd (wake_up_task t st))"

text \<open>
  The processor runs the head of the queue or, if it is idle, the idle task; queued tasks are
  runnable; the page table, the interrupt stack and the per-processor data are those of the
  current task.
\<close>

definition cpu_ok :: "sched \<Rightarrow> bool" where
  "cpu_ok st \<longleftrightarrow> cpu_current st = current_task st
     \<and> (let t = task_at st (current_task st) in
        (task_mm t \<noteq> 0 \<longrightarrow> cpu_cr3 st = VIRT_TO_PHYS (mm_pgd st (task_mm t)))
        \<and> (kernel_stack t \<noteq> 0 \<longrightarrow> tss_rsp0 st = kernel_stack t + TASK_KERNEL_STACK_SIZE))"

definition sched_inv :: "sched \<Rightarrow> u64 list \<Rightarrow> bool" where
  "sched_inv st ts \<longleftrightarrow> queue st ts \<and> cpu_ok st
     \<and> idle_task st \<notin> set ts \<and> state (task_at st (idle_task st)) = TASK_RUNNING
     \<and> (\<forall>t \<in> set ts. state (task_at st t) = TASK_RUNNING)
     \<and> (current_task st = idle_task st \<or> ts \<noteq> [] \<and> current_task st = hd ts)"

definition runs_next :: "sched \<Rightarrow> u64 list \<Rightarrow> u64" where
  "runs_next st ts = (if ts = [] then idle_task st else hd ts)"

lemma queue_unique: "queue st ts \<Longrightarrow> queue st us \<Longrightarrow> ts = us"
proof -
  have u: "ring l h xs \<Longrightarrow> ring l h ys \<Longrightarrow> xs = ys" for l h xs ys
    using ring_list_nodes[of l h xs "Suc (max (length xs) (length ys))"]
      ring_list_nodes[of l h ys "Suc (max (length xs) (length ys))"] by simp
  assume "queue st ts" "queue st us"
  then have "map run_node ts = map run_node us" using u unfolding queue_def by blast
  then show "ts = us" using inj_run_node by (metis inj_map_eq_map)
qed

text \<open>The switch keeps everything that the invariant needs.\<close>

lemma arch_switch_to_simps [simp]:
  "links (arch_switch_to a b st) = links st" "run_queue (arch_switch_to a b st) = run_queue st"
  "current_task (arch_switch_to a b st) = current_task st" "idle_task (arch_switch_to a b st) = idle_task st"
  "cpu_current (arch_switch_to a b st) = cpu_current st" "mm_pgd (arch_switch_to a b st) = mm_pgd st"
  "state (task_at (arch_switch_to a b st) t) = state (task_at st t)"
  "task_mm (task_at (arch_switch_to a b st) t) = task_mm (task_at st t)"
  "kernel_stack (task_at (arch_switch_to a b st) t) = kernel_stack (task_at st t)"
  by (simp_all add: arch_switch_to_def raw_switch_to_def Let_def)

lemma arch_switch_to_cpu:
  assumes "a \<noteq> b" "current_task st = b" "cpu_current st = b"
    and "task_mm (task_at st a) \<noteq> 0 \<Longrightarrow> cpu_cr3 st = VIRT_TO_PHYS (mm_pgd st (task_mm (task_at st a)))"
  shows "cpu_ok (arch_switch_to a b st)"
    and "rsp (arch_switch_to a b st) = ctx_rsp (task_at st b) + 64"
    and "ctx_rsp (task_at (arch_switch_to a b st) t) = (if t = a then rsp st - 64 else ctx_rsp (task_at st t))"
  using assms by (auto simp: cpu_ok_def arch_switch_to_def raw_switch_to_def Let_def)

lemma sched_next_simps [simp]:
  "task_at (snd (sched_next st)) = task_at st" "run_queue (snd (sched_next st)) = run_queue st"
  "current_task (snd (sched_next st)) = current_task st" "idle_task (snd (sched_next st)) = idle_task st"
  "cpu_current (snd (sched_next st)) = cpu_current st" "mm_pgd (snd (sched_next st)) = mm_pgd st"
  "cpu_cr3 (snd (sched_next st)) = cpu_cr3 st" "tss_rsp0 (snd (sched_next st)) = tss_rsp0 st"
  "rsp (snd (sched_next st)) = rsp st"
  by (simp_all add: sched_next_def Let_def)

lemma queue_next_any:
  assumes "queue st ts"
  shows "queue (snd (sched_next st)) (rotate1 ts)" and "fst (sched_next st) = runs_next st (rotate1 ts)"
  using assms queue_next[of st] queue_next_empty[of st]
  by (cases ts; simp add: runs_next_def)+

text \<open>The second half of \<^verbatim>\<open>__schedule\<close>, from any queue.\<close>

definition switch_next :: "sched \<Rightarrow> sched" where
  "switch_next st = (let (nxt, st2) = sched_next st in
     if nxt \<noteq> current_task st then
       arch_switch_to (current_task st) nxt
         (st2\<lparr>current_task := nxt, cpu_current := nxt, cpu_kernel_stack := kernel_stack (task_at st2 nxt)\<rparr>)
     else st2)"

lemma do_schedule_switch:
  "do_schedule preempt st = switch_next
     (if \<not> preempt \<and> state (task_at st (current_task st)) \<noteq> TASK_RUNNING
      then sched_dequeue (current_task st) st else st)"
  by (simp add: do_schedule_def switch_next_def Let_def sched_dequeue_def case_prod_unfold)

lemma switch_next_queue:
  assumes "queue st ts"
  shows "queue (switch_next st) (rotate1 ts)"
    and "current_task (switch_next st) = runs_next st (rotate1 ts)"
    and "idle_task (switch_next st) = idle_task st" "run_queue (switch_next st) = run_queue st"
    and "state (task_at (switch_next st) t) = state (task_at st t)"
  using queue_next_any[OF assms]
  by (auto simp: switch_next_def Let_def queue_def case_prod_unfold)

lemma switch_next_cpu:
  assumes "cpu_ok st"
  shows "cpu_ok (switch_next st)"
proof (cases "fst (sched_next st) = current_task st")
  case True
  with assms show ?thesis by (simp add: switch_next_def case_prod_unfold cpu_ok_def)
next
  case False
  let ?n = "fst (sched_next st)" and ?s = "snd (sched_next st)"
  have "cpu_ok (arch_switch_to (current_task st) ?n
      (?s\<lparr>current_task := ?n, cpu_current := ?n, cpu_kernel_stack := kernel_stack (task_at ?s ?n)\<rparr>))"
    using False assms[unfolded cpu_ok_def Let_def] by (intro arch_switch_to_cpu(1)) auto
  with False show ?thesis by (simp add: switch_next_def case_prod_unfold Let_def)
qed

text \<open>Both halves together: the invariant survives each step, with the queue that results.\<close>

lemma switch_next_inv:
  assumes "queue st ts" "cpu_ok st" "idle_task st \<notin> set ts" "state (task_at st (idle_task st)) = TASK_RUNNING"
    and "\<forall>t \<in> set ts. state (task_at st t) = TASK_RUNNING"
  shows "sched_inv (switch_next st) (rotate1 ts)"
  using switch_next_queue[OF assms(1)] switch_next_cpu[OF assms(2)] assms(3-5)
  by (auto simp: sched_inv_def runs_next_def)

lemma tick_inv:
  assumes "sched_inv st ts" "timer_irq_handler st = Ret st'"
  shows "sched_inv st' (rotate1 ts)"
  using assms switch_next_inv[of st ts]
  by (auto simp: timer_irq_handler_def do_schedule_switch sched_inv_def split: if_splits)

lemma current_running:
  assumes "sched_inv st ts"
  shows "state (task_at st (current_task st)) = TASK_RUNNING"
  using assms by (cases ts) (auto simp: sched_inv_def)

lemma yield_inv: "sched_inv st ts \<Longrightarrow> sched_inv (schedule st) (rotate1 ts)"
  using current_running[of st ts] switch_next_inv[of st ts]
  by (simp add: schedule_def do_schedule_switch) (simp add: sched_inv_def)

lemma sleep_inv:
  assumes inv: "sched_inv st ts" and cur: "current_task st \<noteq> idle_task st"
  shows "sched_inv (schedule (set_current_state TASK_INTERRUPTIBLE st)) (rotate1 (tl ts))"
proof -
  let ?s = "set_current_state TASK_INTERRUPTIBLE st"
  obtain us where ts: "ts = current_task st # us"
    using inv cur by (cases ts) (auto simp: sched_inv_def)
  have "queue ?s (current_task st # us)"
    using inv ts by (simp add: sched_inv_def queue_def set_current_state_def task_set_state_def)
  from queue_dequeue[of ?s "[]", simplified, OF this]
  have q: "queue (sched_dequeue (current_task st) ?s) us" .
  have d: "current_task st \<notin> set us" using inv ts queue_distinct[of st ts] by (auto simp: sched_inv_def)
  have "sched_inv (switch_next (sched_dequeue (current_task st) ?s)) (rotate1 us)"
    using q d inv ts cur
    by (intro switch_next_inv)
      (auto simp: sched_inv_def cpu_ok_def Let_def sched_dequeue_def set_current_state_def task_set_state_def)
  then show ?thesis
    using ts by (simp add: schedule_def do_schedule_switch) (simp add: set_current_state_def task_set_state_def)
qed

lemma wake_inv:
  assumes inv: "sched_inv st ts" and n: "run_node t \<noteq> run_queue st"
  shows "sched_inv (snd (wake_up_task t st)) (if state (task_at st t) \<noteq> TASK_RUNNING then ts @ [t] else ts)"
proof (cases "state (task_at st t) = TASK_RUNNING")
  case True
  with inv show ?thesis by (simp add: wake_up_task_def)
next
  case False
  have t: "t \<notin> set ts" "t \<noteq> idle_task st" "t \<noteq> current_task st"
    using inv False current_running[OF inv] by (auto simp: sched_inv_def)
  have "queue (task_set_state t TASK_RUNNING st) ts"
    using inv by (simp add: sched_inv_def queue_def task_set_state_def)
  from queue_enqueue[OF this t(1)] n
  have "queue (sched_enqueue t (task_set_state t TASK_RUNNING st)) (ts @ [t])"
    by (simp add: task_set_state_def)
  with inv t False show ?thesis
    by (cases ts) (auto simp: sched_inv_def wake_up_task_def cpu_ok_def Let_def sched_enqueue_def task_set_state_def)
qed

lemma spawn_inv:
  assumes "sched_inv st ts" "run_node t \<noteq> run_queue st" "t \<noteq> idle_task st"
    and "state (task_at st t) = TASK_RUNNING" "t \<notin> set ts"
  shows "sched_inv (sched_enqueue t st) (ts @ [t])"
  using assms queue_enqueue[of st ts t]
  by (cases ts) (auto simp: sched_inv_def cpu_ok_def Let_def sched_enqueue_def)

lemma sched_step_inv: "sched_step st st' \<Longrightarrow> sched_inv st ts \<Longrightarrow> \<exists>us. sched_inv st' us"
proof (induction rule: sched_step.induct)
  case (tick st st')
  then show ?case using tick_inv by blast
next
  case (yield st)
  then show ?case using yield_inv by blast
next
  case (sleep st)
  then show ?case using sleep_inv by blast
next
  case (spawn t st)
  then have "t \<notin> set ts" by (auto simp: sched_inv_def)
  with spawn show ?case using spawn_inv by blast
next
  case (wake t st)
  then show ?case using wake_inv by blast
qed

section \<open>Rotation\<close>

lemma ticks:
  assumes "sched_inv st ts" "ts \<noteq> []"
  shows "sched_inv ((do_schedule True ^^ n) st) (rotate n ts)
    \<and> (0 < n \<longrightarrow> current_task ((do_schedule True ^^ n) st) = ts ! (n mod length ts))"
proof (induction n)
  case 0
  with assms(1) show ?case by simp
next
  case (Suc n)
  let ?s = "(do_schedule True ^^ n) st"
  from Suc have inv: "sched_inv ?s (rotate n ts)" by simp
  have sw: "do_schedule True ?s = switch_next ?s" by (simp add: do_schedule_switch)
  have q: "queue ?s (rotate n ts)" using inv by (simp add: sched_inv_def)
  have "sched_inv (switch_next ?s) (rotate (Suc n) ts)"
    using switch_next_inv[of ?s "rotate n ts"] inv by (simp add: sched_inv_def)
  moreover have "current_task (switch_next ?s) = ts ! (Suc n mod length ts)"
    using switch_next_queue(2)[OF q] assms(2) hd_rotate_conv_nth[of ts "Suc n"]
    by (simp add: runs_next_def)
  ultimately show ?case by (simp add: sw)
qed

section \<open>Stack pointers\<close>

text \<open>The saved stack pointer of a task is only written when the task gives up the processor.\<close>

lemma do_schedule_ctx:
  assumes "current_task st \<noteq> a"
  shows "ctx_rsp (task_at (do_schedule pre st) a) = ctx_rsp (task_at st a)"
    and "current_task (do_schedule pre st) = a \<Longrightarrow> rsp (do_schedule pre st) = ctx_rsp (task_at st a) + 64"
  using assms
  by (auto simp: do_schedule_switch switch_next_def Let_def case_prod_unfold sched_dequeue_def
      arch_switch_to_def raw_switch_to_def)

lemma do_schedule_saves:
  assumes "current_task st = a" "current_task (do_schedule pre st) \<noteq> a"
  shows "ctx_rsp (task_at (do_schedule pre st) a) = rsp st - 64"
  using assms
  by (auto simp: do_schedule_switch switch_next_def Let_def case_prod_unfold sched_dequeue_def
      arch_switch_to_def raw_switch_to_def split: if_splits)

lemma sched_step_ctx:
  assumes "sched_step st st'" "current_task st \<noteq> a"
  shows "current_task st' \<noteq> a \<and> ctx_rsp (task_at st' a) = ctx_rsp (task_at st a)
    \<or> current_task st' = a \<and> rsp st' = ctx_rsp (task_at st a) + 64"
  using assms
proof (induction rule: sched_step.induct)
  case (tick st st')
  then have "st' = do_schedule True st" by (simp add: timer_irq_handler_def split: if_splits)
  with tick do_schedule_ctx[of st a True] show ?case by auto
next
  case (yield st)
  then show ?case using do_schedule_ctx[of st a False] by (auto simp: schedule_def)
next
  case (sleep st)
  let ?s = "set_current_state TASK_INTERRUPTIBLE st"
  have "current_task ?s \<noteq> a" "ctx_rsp (task_at ?s a) = ctx_rsp (task_at st a)"
    using sleep by (simp_all add: set_current_state_def task_set_state_def)
  then show ?case using do_schedule_ctx[of ?s a False] by (auto simp: schedule_def)
qed (auto simp: sched_enqueue_def wake_up_task_def task_set_state_def)

section \<open>Properties\<close>

subsection \<open>A small run queue\<close>

definition witness_task :: "u32 \<Rightarrow> task_struct" where
  "witness_task p = \<lparr>pid = p, state = TASK_RUNNING, kernel_stack = 0x10000 + 0x4000 * ucast p, task_mm = 0, ctx_rsp = 0x10000, fd = []\<rparr>"

definition witness_links :: list_head where
  "witness_links = \<lparr>lnext = (\<lambda>a. if a = 0x100 then 0x10a0 else if a = 0x10a0 then 0x20a0 else 0x100),
     lprev = (\<lambda>a. if a = 0x100 then 0x20a0 else if a = 0x20a0 then 0x10a0 else 0x100)\<rparr>"

definition witness_sched :: sched where
  "witness_sched = \<lparr>links = witness_links, task_at = (\<lambda>a. witness_task (if a = 0x1000 then 1 else if a = 0x2000 then 2 else 0)),
     mm_pgd = (\<lambda>_. 0), run_queue = 0x100, current_task = 0x1000, idle_task = 0x500, cpu_current = 0x1000,
     cpu_kernel_stack = 0x14000, rsp = 0x17f00, cpu_cr3 = 0, tss_rsp0 = 0x18000\<rparr>"

lemma witness_sched_inv: "sched_inv witness_sched [0x1000, 0x2000]"
  by (simp add: sched_inv_def queue_def ring_def witness_sched_def witness_links_def witness_task_def run_node_def cpu_ok_def)

text \<open>
  C20. The list operations of \<^verbatim>\<open>list.h\<close> are the operations on the sequence of nodes that hangs
  on a head: insertion at the front and at the back, removal of any node, and the test for
  emptiness; removing an inserted node restores the sequence.
\<close>

theorem list_operations_refine:
  assumes "ring l h xs" and "n \<notin> set (h # xs)"
  shows "ring (list_add n h l) h (n # xs) \<and> ring (list_add_tail n h l) h (xs @ [n])
    \<and> ring (list_del n (list_add n h l)) h xs \<and> ring (list_del n (list_add_tail n h l)) h xs
    \<and> (list_empty h l \<longleftrightarrow> xs = [])
    \<and> list_nodes (length xs + 1) (lnext l h) h l = Some xs
    \<and> (\<forall>ys y zs. xs = ys @ y # zs \<longrightarrow> ring (list_del y l) h (ys @ zs))"
  using assms ring_add[OF assms] ring_add_tail[OF assms] ring_empty[OF assms(1)]
    ring_del[of "list_add n h l" h "[]" n xs] ring_del[of "list_add_tail n h l" h xs n "[]"]
    ring_list_nodes[OF assms(1), of "length xs + 1"] ring_del[of l h]
  by (auto simp del: list_nodes.simps)

theorem list_operations_refine_witness:
  "ring (list_add_tail 0x30a0 0x100 witness_links) 0x100 [0x10a0, 0x20a0, 0x30a0]"
proof -
  have r: "ring witness_links 0x100 [0x10a0, 0x20a0]" by (simp add: ring_def witness_links_def)
  from list_operations_refine[OF r, of "0x30a0"] show ?thesis by simp
qed



text \<open>
  C15. Scheduling is round robin: with \<open>n\<close> runnable tasks, the \<open>k\<close>-th timer interrupt gives the
  processor to the \<open>k\<close>-th task of the queue, cyclically, so every runnable task runs within \<open>n\<close>
  interrupts.
\<close>

theorem round_robin:
  assumes "sched_inv st ts" and "0 < k" "ts \<noteq> []"
  shows "current_task ((do_schedule True ^^ k) st) = ts ! (k mod length ts)
    \<and> (\<forall>t \<in> set ts. \<exists>i. 0 < i \<and> i \<le> length ts \<and> current_task ((do_schedule True ^^ i) st) = t)"
proof -
  have "\<exists>i. 0 < i \<and> i \<le> length ts \<and> current_task ((do_schedule True ^^ i) st) = t" if t: "t \<in> set ts" for t
  proof -
    obtain j where j: "j < length ts" "ts ! j = t" using t by (auto simp: in_set_conv_nth)
    let ?i = "if j = 0 then length ts else j"
    have "current_task ((do_schedule True ^^ ?i) st) = t"
      using ticks[OF assms(1,3), of ?i] j assms(3) by (auto split: if_splits)
    with j assms(3) show ?thesis by (intro exI[of _ ?i]) auto
  qed
  with ticks[OF assms(1,3), of k] assms(2) show ?thesis by blast
qed

theorem round_robin_witness:
  "current_task ((do_schedule True ^^ 1) witness_sched) = 0x2000
    \<and> current_task ((do_schedule True ^^ 2) witness_sched) = 0x1000"
  using round_robin[OF witness_sched_inv, of 1] round_robin[OF witness_sched_inv, of 2]
  by (simp flip: numeral_2_eq_2)

text \<open>
  A task that loses the processor gets it back with the stack pointer it had: however long
  other tasks run in between, the first step that makes it current again restores it.
\<close>

theorem resumed_stack_pointer:
  assumes "st1 = do_schedule preempt st" "current_task st1 \<noteq> current_task st"
    and "(\<lambda>s s'. sched_step s s' \<and> current_task s' \<noteq> current_task st)\<^sup>*\<^sup>* st1 st2"
    and "sched_step st2 st3" "current_task st3 = current_task st"
  shows "rsp st3 = rsp st"
proof -
  let ?a = "current_task st"
  have c1: "ctx_rsp (task_at st1 ?a) = rsp st - 64"
    using assms(1,2) do_schedule_saves[of st ?a] by simp
  have "current_task st2 \<noteq> ?a \<and> ctx_rsp (task_at st2 ?a) = rsp st - 64"
    using assms(3)
  proof (induction rule: rtranclp_induct)
    case base
    show ?case using assms(2) c1 by simp
  next
    case (step s s')
    then show ?case using sched_step_ctx[of s s' ?a] by auto
  qed
  with sched_step_ctx[OF assms(4), of ?a] assms(5) show ?thesis by auto
qed

theorem resumed_stack_pointer_witness:
  "current_task (do_schedule True (do_schedule True witness_sched)) = current_task witness_sched
    \<and> rsp (do_schedule True (do_schedule True witness_sched)) = 0x17f00"
proof -
  let ?s1 = "do_schedule True witness_sched"
  have c: "current_task witness_sched = 0x1000" "rsp witness_sched = 0x17f00" by (simp_all add: witness_sched_def)
  have t1: "current_task ?s1 = 0x2000" and i1: "sched_inv ?s1 [0x2000, 0x1000]"
    using ticks[OF witness_sched_inv, of 1] by simp_all
  have t2: "current_task (do_schedule True ?s1) = 0x1000"
    using ticks[OF i1, of 1] by simp
  have st: "sched_step ?s1 (do_schedule True ?s1)"
    using i1 by (intro tick) (simp add: timer_irq_handler_def sched_inv_def cpu_ok_def)
  from resumed_stack_pointer[of ?s1 True witness_sched ?s1 "do_schedule True ?s1", OF refl _ _ st] c t1 t2
  show ?thesis by simp
qed



end
