(* ===== verification/Process.thy ===== *)
theory Process
  imports Sched Klibc
begin

text \<open>
  How a task first gets the processor: the two stack frames that
  \<^verbatim>\<open>arch/x86_64/kernel/process.c\<close> writes below the top of a kernel stack, and the creation of tasks
  in \<^verbatim>\<open>kernel/task.c\<close>. The frames are bytes of memory; what \<^verbatim>\<open>__arch_switch_to\<close> and
  \<^verbatim>\<open>ret_from_fork\<close> of \<^verbatim>\<open>switch.asm\<close> pop from them is read back here.
\<close>

section \<open>Frames\<close>

abbreviation sizeof_interrupt_frame :: u64 where "sizeof_interrupt_frame \<equiv> 168"
abbreviation sizeof_switch_frame :: u64 where "sizeof_switch_frame \<equiv> 64"

text \<open>The saved registers of an interrupt frame at \<open>a\<close>: the fields set here are at the offsets
  128 to 160.\<close>

definition write_iframe :: "u64 \<Rightarrow> u64 \<Rightarrow> u64 \<Rightarrow> u64 \<Rightarrow> u64 \<Rightarrow> mem \<Rightarrow> mem" where
  "write_iframe a ip cseg sseg sp m =
     wr64 (wr64 (wr64 (wr64 (wr64 m (a + 128) ip) (a + 136) cseg) (a + 160) sseg) (a + 144) 0x202) (a + 152) sp"

text \<open>The kernel addresses of the two continuations.\<close>

record entry_points =
  kthread_exit :: u64
  ret_from_fork :: u64

text \<open>The result is the stored stack pointer and the memory.\<close>

definition arch_init_kthread_context ::
    "entry_points \<Rightarrow> u64 \<Rightarrow> u64 \<Rightarrow> u64 \<Rightarrow> mem \<Rightarrow> u64 \<times> mem" where
  "arch_init_kthread_context ep stack fn arg m =
     (let stack_top = stack + TASK_KERNEL_STACK_SIZE;
          iret_addr = stack_top - sizeof_interrupt_frame;
          m1 = snd (memset m iret_addr 0 sizeof_interrupt_frame);
          m2 = write_iframe iret_addr (kthread_exit ep) 0x08 0x10 (stack + TASK_KERNEL_STACK_SIZE) m1;
          switch_addr = iret_addr - sizeof_switch_frame;
          m3 = snd (memset m2 switch_addr 0 sizeof_switch_frame);
          m4 = wr64 m3 (switch_addr + 56) (ret_from_fork ep);
          m5 = wr64 m4 (switch_addr + 48) 0x202;
          m6 = wr64 m5 (switch_addr + 24) fn;
          m7 = wr64 m6 (switch_addr + 16) arg
      in (switch_addr, m7))"

definition arch_init_context :: "entry_points \<Rightarrow> u64 \<Rightarrow> u64 \<Rightarrow> mem \<Rightarrow> u64 \<times> mem" where
  "arch_init_context ep stack entry_point m =
     (let stack_top = stack + TASK_KERNEL_STACK_SIZE;
          iret_addr = stack_top - sizeof_interrupt_frame;
          m1 = snd (memset m iret_addr 0 sizeof_interrupt_frame);
          m2 = write_iframe iret_addr entry_point (0x20 + 3) (0x18 + 3) (TASK_USER_STACK_TOP_ADDR - 8) m1;
          switch_addr = iret_addr - sizeof_switch_frame;
          m3 = snd (memset m2 switch_addr 0 sizeof_switch_frame);
          m4 = wr64 m3 (switch_addr + 56) (ret_from_fork ep);
          m5 = wr64 m4 (switch_addr + 48) 0x202
      in (switch_addr, m5))"

definition arch_update_init_task_context :: "u64 \<Rightarrow> u64 \<Rightarrow> mem \<Rightarrow> mem" where
  "arch_update_init_task_context stack entry_point m =
     (let stack_top = stack + TASK_KERNEL_STACK_SIZE;
          iret_addr = stack_top - sizeof_interrupt_frame
      in write_iframe iret_addr entry_point (0x20 + 3) (0x18 + 3) (TASK_USER_STACK_TOP_ADDR - 8) m)"

definition arch_activate_mm :: "u64 \<Rightarrow> sched \<Rightarrow> sched" where
  "arch_activate_mm mm st = st\<lparr>cpu_cr3 := VIRT_TO_PHYS (mm_pgd st mm)\<rparr>"

section \<open>Creating tasks\<close>

text \<open>\<open>counter\<close> is the static variable of \<^verbatim>\<open>get_next_pid\<close>.\<close>

record tasks =
  tsch :: sched
  counter :: u32
  tmem :: mem

definition get_next_pid :: "tasks \<Rightarrow> u32 \<times> tasks" where
  "get_next_pid st = (counter st, st\<lparr>counter := counter st + 1\<rparr>)"

text \<open>\<open>t\<close> and \<open>stack\<close> are what \<^verbatim>\<open>kzalloc\<close> and \<^verbatim>\<open>alloc_pages\<close> return; when the stack cannot be
  allocated the task structure is freed again, so nothing changes.\<close>

definition task_alloc :: "u64 \<Rightarrow> u64 \<Rightarrow> tasks \<Rightarrow> u64 \<times> tasks" where
  "task_alloc t stack st =
     (if t = 0 then (ERR_PTR (- ENOMEM), st)
      else if stack = 0 then (ERR_PTR (- ENOMEM), st)
      else
        let (p, st1) = get_next_pid st;
            s = tsch st1;
            s1 = s\<lparr>task_at := (task_at s)(t := \<lparr>pid = p, state = 0, kernel_stack = stack, task_mm = 0, ctx_rsp = 0,
                    fd = replicate 16 0\<rparr>), links := INIT_LIST_HEAD (run_node t) (links s)\<rparr>
        in (t, st1\<lparr>tsch := s1\<rparr>))"

definition kthread_create :: "entry_points \<Rightarrow> u64 \<Rightarrow> u64 \<Rightarrow> u64 \<Rightarrow> u64 \<Rightarrow> tasks \<Rightarrow> u64 \<times> tasks" where
  "kthread_create ep t0 stack fn arg st =
     (let (t, st1) = task_alloc t0 stack st in
      if IS_ERR t then (t, st1)
      else
        let (sp, m) = arch_init_kthread_context ep (kernel_stack (task_at (tsch st1) t)) fn arg (tmem st1);
            s = tsch st1
        in (t, st1\<lparr>tmem := m, tsch := s\<lparr>task_at := (task_at s)(t := (task_at s t)\<lparr>task_mm := 0, ctx_rsp := sp\<rparr>)\<rparr>\<rparr>))"

definition kthread_run :: "entry_points \<Rightarrow> u64 \<Rightarrow> u64 \<Rightarrow> u64 \<Rightarrow> u64 \<Rightarrow> tasks \<Rightarrow> int \<times> tasks" where
  "kthread_run ep t0 stack fn arg st =
     (let (t, st1) = kthread_create ep t0 stack fn arg st in
      if IS_ERR t then (PTR_ERR t, st1)
      else (0, st1\<lparr>tsch := sched_enqueue t (tsch st1)\<rparr>))"

section \<open>Reading frames back\<close>

lemma in_block_shift: "in_block (b + c) n x \<longleftrightarrow> in_block c n (x - b)"
  by (simp add: in_block_def algebra_simps)

lemma disjoint_shift:
  assumes "unat c + unat n \<le> unat d \<or> unat d + unat k \<le> unat c" "unat c + unat n \<le> 2 ^ 32" "unat d + unat k \<le> 2 ^ 32"
  shows "disjoint_blocks (b + c) n (b + d) k"
proof -
  have "disjoint_blocks c n d k" using assms by (intro disjoint_blocks_unat) auto
  then show ?thesis unfolding disjoint_blocks_def in_block_shift by blast
qed

lemma rd64_wr64_shift:
  assumes "unat c + 8 \<le> unat d \<or> unat d + 8 \<le> unat c" "unat c \<le> 2 ^ 31" "unat d \<le> 2 ^ 31"
  shows "rd64 (wr64 m (b + c) v) (b + d) = rd64 m (b + d)"
  using assms by (intro rd_wr_disjoint disjoint_shift) auto

lemma rd64_memset_inside:
  assumes "unat d \<le> unat c" "unat c + 8 \<le> unat d + unat n" "unat d + unat n \<le> 2 ^ 31"
  shows "rd64 (snd (memset m (b + d) 0 n)) (b + c) = 0"
proof -
  have "rd64 (snd (memset m (b + d) 0 n)) (b + c) = rd64 (\<lambda>_. 0) (b + c)"
  proof (rule rd_le_cong)
    fix i :: nat assume i: "i < 8"
    let ?j = "unat c - unat d + i"
    have "of_nat ?j = c + of_nat i - d"
      using assms(1) by (simp add: word_le_nat_alt)
    then have e: "b + c + of_nat i = b + d + of_nat ?j" by simp
    have "?j < unat n" using assms i by linarith
    then show "snd (memset m (b + d) 0 n) (b + c + of_nat i) = 0"
      unfolding e memset_store snd_conv using store_bytes_inside[of ?j "replicate (unat n) 0" m "b + d"] u64_less[of n]
      by simp
  qed
  also have "\<dots> = (0 :: u64)" by (rule bit_word_eqI) (simp add: rd_le_bit)
  finally show ?thesis .
qed

lemma rd64_memset_outside:
  assumes "unat c + 8 \<le> unat d \<or> unat d + unat n \<le> unat c" "unat c \<le> 2 ^ 31" "unat d + unat n \<le> 2 ^ 31"
  shows "rd64 (snd (memset m (b + d) v n)) (b + c) = rd64 m (b + c)"
proof (rule rd_le_cong)
  fix i :: nat assume i: "i < 8"
  have ci: "unat (c + of_nat i) = unat c + i"
    using assms(2) i by (subst unat_add_small) (auto simp: unat_of_nat_small)
  have "\<not> in_block d n (c + of_nat i)"
    using assms i by (subst in_block_unat) (auto simp: ci)
  then have "b + c + of_nat i \<notin> blk (b + d) (unat n)"
    using u64_less[of n] by (simp add: blk_in_block in_block_def algebra_simps)
  then show "snd (memset m (b + d) v n) (b + c + of_nat i) = m (b + c + of_nat i)"
    unfolding memset_store snd_conv by (intro store_bytes_outside) simp
qed

text \<open>The same facts for addresses written offset first.\<close>

lemma frame_reads:
  shows "unat c + 8 \<le> unat d \<or> unat d + 8 \<le> unat c \<Longrightarrow> unat c \<le> 2 ^ 31 \<Longrightarrow> unat d \<le> 2 ^ 31 \<Longrightarrow>
      rd64 (wr64 m (c + b) v) (d + b) = rd64 m (d + b)"
    and "unat d \<le> unat c \<Longrightarrow> unat c + 8 \<le> unat d + unat n \<Longrightarrow> unat d + unat n \<le> 2 ^ 31 \<Longrightarrow>
      rd64 (snd (memset m (d + b) 0 n)) (c + b) = 0"
    and "unat c + 8 \<le> unat d \<or> unat d + unat n \<le> unat c \<Longrightarrow> unat c \<le> 2 ^ 31 \<Longrightarrow> unat d + unat n \<le> 2 ^ 31 \<Longrightarrow>
      rd64 (snd (memset m (d + b) x n)) (c + b) = rd64 m (c + b)"
  using rd64_wr64_shift[of c d m b v] rd64_memset_inside[of d c n m b] rd64_memset_outside[of c d n m b x]
  by (simp_all add: add.commute)

text \<open>A block inside another.\<close>

lemma in_block_sub:
  assumes "in_block (b + c) n x" "unat d \<le> unat c" "unat c + unat n \<le> unat d + unat k" "unat d + unat k \<le> 2 ^ 31"
  shows "in_block (b + d) k x"
  using assms unfolding in_block_shift by (subst (asm) in_block_unat; simp; subst in_block_unat; simp)

lemma wr64_frame: "\<not> in_block (b + d) k x \<Longrightarrow> unat d \<le> unat c \<Longrightarrow> unat c + 8 \<le> unat d + unat k \<Longrightarrow>
  unat d + unat k \<le> 2 ^ 31 \<Longrightarrow> wr64 m (b + c) v x = m x"
  using in_block_sub[of b c 8 x d k] by (auto intro: wr_le_outside)

lemma memset_frame: "\<not> in_block (b + d) k x \<Longrightarrow> unat d \<le> unat c \<Longrightarrow> unat c + unat n \<le> unat d + unat k \<Longrightarrow>
  unat d + unat k \<le> 2 ^ 31 \<Longrightarrow> snd (memset m (b + c) v n) x = m x"
  using in_block_sub[of b c n x d k] u64_less[of n]
  by (auto simp: memset_store blk_in_block intro!: store_bytes_outside)

section \<open>Properties\<close>

text \<open>What the first switch to a task loads: the registers that \<^verbatim>\<open>__arch_switch_to\<close> pops at \<open>sp\<close>,
  and the frame above them that \<^verbatim>\<open>ret_from_fork\<close> returns through.\<close>

definition switch_pops :: "mem \<Rightarrow> u64 \<Rightarrow> u64 \<Rightarrow> u64 \<Rightarrow> u64 \<Rightarrow> bool" where
  "switch_pops m sp r12 r13 ret \<longleftrightarrow> rd64 m sp = 0 \<and> rd64 m (sp + 8) = 0 \<and> rd64 m (sp + 16) = r13 \<and> rd64 m (sp + 24) = r12
     \<and> rd64 m (sp + 32) = 0 \<and> rd64 m (sp + 40) = 0 \<and> rd64 m (sp + 48) = 0x202 \<and> rd64 m (sp + 56) = ret"

definition iret_pops :: "mem \<Rightarrow> u64 \<Rightarrow> u64 \<Rightarrow> u64 \<Rightarrow> u64 \<Rightarrow> u64 \<Rightarrow> bool" where
  "iret_pops m sp ip cseg sseg usp \<longleftrightarrow> rd64 m (sp + 64) = 0 \<and> rd64 m (sp + 176) = 0 \<and> rd64 m (sp + 192) = ip
     \<and> rd64 m (sp + 200) = cseg \<and> rd64 m (sp + 208) = 0x202 \<and> rd64 m (sp + 216) = usp \<and> rd64 m (sp + 224) = sseg"

text \<open>
  C22. The frames of a new task are what the first switch to it needs: a kernel thread starts in
  \<^verbatim>\<open>ret_from_fork\<close> with its function and argument in the registers that code calls through, with
  interrupts enabled, and returns to \<^verbatim>\<open>kthread_exit\<close> in ring 0; a user task has no function and
  is returned to its entry point in ring 3 on its user stack. Nothing outside the topmost 232
  bytes of the kernel stack is written.
\<close>

theorem new_task_frames:
  "(let (sp, m') = arch_init_kthread_context ep stack fn arg m in
      switch_pops m' sp fn arg (ret_from_fork ep)
      \<and> iret_pops m' sp (kthread_exit ep) 0x08 0x10 (stack + TASK_KERNEL_STACK_SIZE)
      \<and> sp = stack + TASK_KERNEL_STACK_SIZE - 232 \<and> {x. m' x \<noteq> m x} \<subseteq> {x. in_block sp 232 x})
   \<and> (let (sp, m') = arch_init_context ep stack entry m in
      switch_pops m' sp 0 0 (ret_from_fork ep)
      \<and> iret_pops m' sp entry 0x23 0x1b (TASK_USER_STACK_TOP_ADDR - 8)
      \<and> sp = stack + TASK_KERNEL_STACK_SIZE - 232 \<and> {x. m' x \<noteq> m x} \<subseteq> {x. in_block sp 232 x})"
proof -
  have f: "\<not> in_block (16152 + stack) 232 x \<Longrightarrow> unat c + 8 \<le> 16384 \<Longrightarrow> 16152 \<le> unat c \<Longrightarrow> wr64 m (c + stack) v x = m x" for x c m v
    using wr64_frame[of stack 16152 232 x c m v] by (simp add: add.commute[of stack])
  have g: "\<not> in_block (16152 + stack) 232 x \<Longrightarrow> unat c + unat n \<le> 16384 \<Longrightarrow> 16152 \<le> unat c \<Longrightarrow> snd (memset m (c + stack) v n) x = m x" for x c m v n
    using memset_frame[of stack 16152 232 x c n m v] by (simp add: add.commute[of stack])
  have out: "(\<And>x. \<not> P x \<Longrightarrow> m' x = m x) \<Longrightarrow> {x. m' x \<noteq> m x} \<subseteq> {x. P x}" for P and m' :: mem
    by blast
  show ?thesis
    by (intro conjI)
      (simp_all add: arch_init_kthread_context_def arch_init_context_def write_iframe_def Let_def
        switch_pops_def iret_pops_def frame_reads add.commute[of stack] f g out)
qed

end
