(* ===== verification/Blockdev.thy ===== *)
theory Blockdev
  imports Klibc
begin

text \<open>
  Block devices: the registry of \<^verbatim>\<open>block/block.c\<close> and the MBR partitions of \<^verbatim>\<open>block/partition.c\<close>.
  The file system layers above are written against the same environment \<open>kops\<close>: the kernel heap,
  the page allocator and the disk.
\<close>

section \<open>The environment of a driver\<close>

text \<open>
  \<open>kmalloc_op\<close> and \<open>page_op\<close> return an address or null. \<open>disk_op port lba count len\<close> is a transfer of
  \<open>count\<close> sectors from the disk at \<open>port\<close> into a buffer of \<open>len\<close> bytes: the status and what the
  buffer holds afterwards. Buffers that a function allocates, fills and frees again are passed
  as values; the addresses are kept for the calls of the allocator.
\<close>

record 's kops =
  kmalloc_op :: "u64 \<Rightarrow> 's \<Rightarrow> u64 \<times> 's"
  kfree_op :: "u64 \<Rightarrow> 's \<Rightarrow> 's"
  page_op :: "'s \<Rightarrow> u64 \<times> 's"
  free_page_op :: "u64 \<Rightarrow> 's \<Rightarrow> 's"
  disk_op :: "u64 \<Rightarrow> u64 \<Rightarrow> u64 \<Rightarrow> u64 \<Rightarrow> 's \<Rightarrow> (int \<times> u8 list) \<times> 's"

text \<open>Little-endian fields of packed structures in a buffer.\<close>

definition byte_at :: "u8 list \<Rightarrow> nat \<Rightarrow> u8" where
  "byte_at bs i = (if i < length bs then bs ! i else 0)"

definition le16 :: "u8 list \<Rightarrow> nat \<Rightarrow> u16" where
  "le16 bs i = ucast (byte_at bs i) OR push_bit 8 (ucast (byte_at bs (i + 1)))"

definition le32 :: "u8 list \<Rightarrow> nat \<Rightarrow> u32" where
  "le32 bs i = ucast (byte_at bs i) OR push_bit 8 (ucast (byte_at bs (i + 1)))
     OR push_bit 16 (ucast (byte_at bs (i + 2))) OR push_bit 24 (ucast (byte_at bs (i + 3)))"

section \<open>Devices\<close>

text \<open>
  A device is never written once it is registered, so a pointer to one is its value. The
  constructor tells which function \<^verbatim>\<open>read\<close> points to; \<open>priv_data\<close> is the port of a disk, and the
  parent and first sector of a partition.
\<close>

datatype block_dev =
    Ahci_dev (bname: "u8 list") (sector_size: u32) (sector_count: u64) (port: u64)
  | Part_dev (bname: "u8 list") (sector_size: u32) (sector_count: u64) (pparent: block_dev) (lba_start: u64)

abbreviation BLOCK_DEV_NAME_MAX :: nat where "BLOCK_DEV_NAME_MAX \<equiv> 32"
abbreviation BLOCK_DEV_MAX :: nat where "BLOCK_DEV_MAX \<equiv> 32"
abbreviation MBR_OFFSET :: nat where "MBR_OFFSET \<equiv> 446"
abbreviation MBR_ENTRY_COUNT :: nat where "MBR_ENTRY_COUNT \<equiv> 4"

text \<open>\<^verbatim>\<open>bdev->read\<close>: \<^verbatim>\<open>ahci_read\<close> or \<^verbatim>\<open>partition_read\<close>, for a single buffer of \<open>len\<close> bytes.\<close>

primrec bdev_read :: "'s kops \<Rightarrow> block_dev \<Rightarrow> u64 \<Rightarrow> u64 \<Rightarrow> u64 \<Rightarrow> 's \<Rightarrow> (int \<times> u8 list) \<times> 's" where
  "bdev_read ops (Ahci_dev n sz cnt p) lba nr len s = disk_op ops p lba nr len s"
| "bdev_read ops (Part_dev n sz cnt par start) lba nr len s = bdev_read ops par (start + lba) nr len s"

definition block_dev_register :: "block_dev \<Rightarrow> block_dev list \<Rightarrow> block_dev list" where
  "block_dev_register bdev devs = (if length devs \<ge> BLOCK_DEV_MAX then devs else devs @ [bdev])"

section \<open>Partitions\<close>

record mbr_partition_entry =
  mbr_status :: u8
  chs0 :: "u8 list"
  sys_id :: u8
  chs1 :: "u8 list"
  mbr_lba_start :: u32
  mbr_sector_count :: u32

definition mbr_entry :: "u8 list \<Rightarrow> nat \<Rightarrow> mbr_partition_entry" where
  "mbr_entry buf i = (let o' = MBR_OFFSET + 16 * i in
     \<lparr>mbr_status = byte_at buf o', chs0 = map (byte_at buf) [o' + 1..<o' + 4], sys_id = byte_at buf (o' + 4),
      chs1 = map (byte_at buf) [o' + 5..<o' + 8], mbr_lba_start = le32 buf (o' + 8), mbr_sector_count = le32 buf (o' + 12)\<rparr>)"

text \<open>\<^verbatim>\<open>strcpy\<close> of the parent's name and \<^verbatim>\<open>strncat\<close> of the suffix \<^verbatim>\<open>p0\<close> to \<^verbatim>\<open>p3\<close>.\<close>

definition part_name :: "u8 list \<Rightarrow> nat \<Rightarrow> u8 list" where
  "part_name pn i = pn @ take (BLOCK_DEV_NAME_MAX - length pn - 1) [0x70, 0x30 + of_nat i]"

text \<open>An entry of \<^verbatim>\<open>pbdevs\<close>: the two allocations and the device.\<close>

record pbdev =
  dev_addr :: u64
  info_addr :: u64
  pdev :: block_dev

abbreviation sizeof_block_dev :: u64 where "sizeof_block_dev \<equiv> 64"
abbreviation sizeof_partition_info :: u64 where "sizeof_partition_info \<equiv> 16"

primrec scan_entries ::
    "'s kops \<Rightarrow> block_dev \<Rightarrow> u8 list \<Rightarrow> nat list \<Rightarrow> pbdev list \<Rightarrow> 's \<Rightarrow> int \<times> pbdev list \<times> 's" where
  "scan_entries ops bdev buf [] pbdevs s = (0, pbdevs, s)"
| "scan_entries ops bdev buf (i # is) pbdevs s =
     (let entry = mbr_entry buf i in
      if sys_id entry = 0 then scan_entries ops bdev buf is pbdevs s
      else
        let (pb, s1) = kmalloc_op ops sizeof_block_dev s in
        if pb = 0 then (- ENOMEM, pbdevs, s1)
        else
          let (pinfo, s2) = kmalloc_op ops sizeof_partition_info s1;
              d = Part_dev (part_name (bname bdev) i) (sector_size bdev) (ucast (mbr_sector_count entry)) bdev
                    (ucast (mbr_lba_start entry))
          in if pinfo = 0 then (- ENOMEM, pbdevs @ [\<lparr>dev_addr = pb, info_addr = 0, pdev = d\<rparr>], s2)
             else scan_entries ops bdev buf is (pbdevs @ [\<lparr>dev_addr = pb, info_addr = pinfo, pdev = d\<rparr>]) s2)"

definition scan_exit :: "'s kops \<Rightarrow> int \<Rightarrow> pbdev \<Rightarrow> block_dev list \<times> 's \<Rightarrow> block_dev list \<times> 's" where
  "scan_exit ops res pb = (\<lambda>(devs, s).
     if res \<noteq> 0
     then (devs, kfree_op ops (dev_addr pb) (if info_addr pb \<noteq> 0 then kfree_op ops (info_addr pb) s else s))
     else (block_dev_register (pdev pb) devs, s))"

definition partition_scan :: "'s kops \<Rightarrow> block_dev \<Rightarrow> block_dev list \<Rightarrow> 's \<Rightarrow> int \<times> block_dev list \<times> 's" where
  "partition_scan ops bdev devs s =
     (let sz = (if sector_size bdev > 512 then sector_size bdev else 512);
          (buf, s1) = kmalloc_op ops (ucast sz) s
      in if buf = 0 then (- ENOMEM, devs, s1)
         else
           let ((st, bytes), s2) = bdev_read ops bdev 0 1 (ucast sz) s1;
               (res, pbdevs, s3) = (if st \<noteq> 0 then (- EIO, [], s2)
                                    else scan_entries ops bdev bytes [0..<MBR_ENTRY_COUNT] [] s2);
               (devs', s4) = fold (scan_exit ops res) pbdevs (devs, s3);
               s5 = kfree_op ops buf s4
           in (if res = 0 then int (length pbdevs) else res, devs', s5))"

text \<open>\<^verbatim>\<open>vfs_scan_partitions\<close> of \<^verbatim>\<open>fs/vfs.c\<close>: the devices registered so far are scanned in turn.\<close>

primrec scan_devices :: "'s kops \<Rightarrow> block_dev list \<Rightarrow> int \<Rightarrow> block_dev list \<Rightarrow> 's \<Rightarrow> int \<times> block_dev list \<times> 's" where
  "scan_devices ops [] cnt devs s = (cnt, devs, s)"
| "scan_devices ops (d # ds) cnt devs s =
     (let (res, devs1, s1) = partition_scan ops d devs s in
      if res < 0 then (res, devs1, s1) else scan_devices ops ds (cnt + res) devs1 s1)"

definition vfs_scan_partitions :: "'s kops \<Rightarrow> block_dev list \<Rightarrow> 's \<Rightarrow> int \<times> block_dev list \<times> 's" where
  "vfs_scan_partitions ops devs s = scan_devices ops devs 0 devs s"

section \<open>The contract of the environment\<close>

text \<open>
  What the layers above rely on: an allocation is null or fresh, a release takes exactly its
  object away, and a disk transfer does not touch the allocators. \<open>live\<close> are the heap objects with
  the sizes they were requested with, \<open>pages\<close> the pages that are handed out.
\<close>

locale heap_env =
  fixes ops :: "'s kops" and ok :: "'s \<Rightarrow> bool" and live :: "'s \<Rightarrow> u64 \<Rightarrow> nat option" and pages :: "'s \<Rightarrow> u64 set"
  assumes malloc: "ok s \<Longrightarrow> unat sz \<le> 2 ^ 32 \<Longrightarrow> kmalloc_op ops sz s = (a, s') \<Longrightarrow>
      ok s' \<and> pages s' = pages s \<and> (a = 0 \<and> live s' = live s \<or> a \<noteq> 0 \<and> live s a = None \<and> live s' = (live s)(a \<mapsto> unat sz))"
    and free: "ok s \<Longrightarrow> live s a = Some n \<Longrightarrow> n \<le> 1024 \<Longrightarrow>
      ok (kfree_op ops a s) \<and> pages (kfree_op ops a s) = pages s \<and> live (kfree_op ops a s) = (live s)(a := None)"
    and page: "ok s \<Longrightarrow> page_op ops s = (a, s') \<Longrightarrow>
      ok s' \<and> live s' = live s \<and> (a = 0 \<and> pages s' = pages s \<or> a \<noteq> 0 \<and> a \<notin> pages s \<and> pages s' = insert a (pages s))"
    and free_page: "ok s \<Longrightarrow> a \<in> pages s \<Longrightarrow>
      ok (free_page_op ops a s) \<and> live (free_page_op ops a s) = live s \<and> pages (free_page_op ops a s) = pages s - {a}"
    and disk: "ok s \<Longrightarrow> disk_op ops p lba nr len s = (r, s') \<Longrightarrow> ok s' \<and> live s' = live s \<and> pages s' = pages s"
begin

lemma bdev_read_env:
  "ok s \<Longrightarrow> bdev_read ops d lba nr len s = (r, s') \<Longrightarrow> ok s' \<and> live s' = live s \<and> pages s' = pages s"
  by (induction d arbitrary: lba) (auto dest: disk)

end

text \<open>The allocations behind the entries of \<^verbatim>\<open>pbdevs\<close>.\<close>

definition owned :: "pbdev \<Rightarrow> (u64 \<times> nat) list" where
  "owned pb = (if info_addr pb \<noteq> 0 then [(info_addr pb, 16)] else []) @ [(dev_addr pb, 64)]"

lemma owned_entry:
  "owned \<lparr>dev_addr = a, info_addr = b, pdev = d\<rparr> = (if b \<noteq> 0 then [(b, 16)] else []) @ [(a, 64)]"
  by (simp add: owned_def)

definition part_dev :: "block_dev \<Rightarrow> u8 list \<Rightarrow> nat \<Rightarrow> block_dev" where
  "part_dev bdev buf i = Part_dev (part_name (bname bdev) i) (sector_size bdev)
     (ucast (mbr_sector_count (mbr_entry buf i))) bdev (ucast (mbr_lba_start (mbr_entry buf i)))"

definition used_entries :: "u8 list \<Rightarrow> nat list \<Rightarrow> nat list" where
  "used_entries buf is = filter (\<lambda>i. sys_id (mbr_entry buf i) \<noteq> 0) is"

lemma scan_entries_result:
  "scan_entries ops bdev buf is pbs s = (res, pbs', s') \<Longrightarrow>
     (res = 0 \<or> res = - ENOMEM) \<and> (res = 0 \<longrightarrow> map pdev pbs' = map pdev pbs @ map (part_dev bdev buf) (used_entries buf is))"
proof (induction "is" arbitrary: pbs s)
  case (Cons i "is")
  then show ?case
    by (auto simp: used_entries_def part_dev_def Let_def split: prod.splits if_splits; fastforce)
qed (simp add: used_entries_def)

lemma fold_scan_exit_ok:
  "fold (scan_exit ops 0) pbs (devs, s) = (fold block_dev_register (map pdev pbs) devs, s)"
  by (induction pbs arbitrary: devs) (simp_all add: scan_exit_def)

lemma partition_scan_devices:
  assumes "partition_scan ops bdev devs s = (res, devs', s')"
  shows "0 \<le> res \<longrightarrow> (\<exists>s1 s2 sz sector. bdev_read ops bdev 0 1 sz s1 = ((0, sector), s2)
      \<and> devs' = fold block_dev_register (map (part_dev bdev sector) (used_entries sector [0..<4])) devs
      \<and> res = int (length (used_entries sector [0..<4])))"
proof
  assume nn: "0 \<le> res"
  define sz :: u64 where "sz = ucast (if sector_size bdev > 512 then sector_size bdev else 512)"
  obtain buf s1 where m: "kmalloc_op ops sz s = (buf, s1)" by force
  obtain st sector s2 where rd: "bdev_read ops bdev 0 1 sz s1 = ((st, sector), s2)" by (metis prod.exhaust)
  obtain e pbs s3 where en: "(if st \<noteq> 0 then (- EIO, [], s2) else scan_entries ops bdev sector [0..<4] [] s2) = (e, pbs, s3)"
    by (metis prod.exhaust)
  obtain ds s4 where f: "fold (scan_exit ops e) pbs (devs, s3) = (ds, s4)" by force
  have r: "buf \<noteq> 0" "res = (if e = 0 then int (length pbs) else e)" "devs' = ds"
    using assms nn m rd en f by (auto simp: partition_scan_def Let_def split: if_splits simp flip: sz_def)
  have "e = 0" "st = 0" using en nn r(2) scan_entries_result[of ops bdev sector "[0..<4]" "[]" s2] by (auto split: if_splits)
  then have p: "map pdev pbs = map (part_dev bdev sector) (used_entries sector [0..<4])"
    using en scan_entries_result[of ops bdev sector "[0..<4]" "[]" s2] by simp
  then have "length pbs = length (used_entries sector [0..<4])" by (metis length_map)
  with p f r \<open>e = 0\<close> \<open>st = 0\<close> rd show "\<exists>s1 s2 sz sector. bdev_read ops bdev 0 1 sz s1 = ((0, sector), s2)
      \<and> devs' = fold block_dev_register (map (part_dev bdev sector) (used_entries sector [0..<4])) devs
      \<and> res = int (length (used_entries sector [0..<4]))"
    by (auto simp: fold_scan_exit_ok)
qed

lemma map_of_tail:
  assumes "distinct (map fst ((a, n) # zs))"
  shows "(map_of ((a, n) # zs))(a := None) = map_of zs"
proof -
  have "map_of zs a = None" using assms by (simp add: map_of_eq_None_iff)
  then show ?thesis by (simp add: fun_upd_idem)
qed

context heap_env
begin

text \<open>\<open>s\<close> holds the objects \<open>M\<close> and the pages \<open>Q\<close> on top of what was taken in \<open>s0\<close>.\<close>

definition holds :: "'s \<Rightarrow> 's \<Rightarrow> (u64 \<Rightarrow> nat option) \<Rightarrow> u64 set \<Rightarrow> bool" where
  "holds s0 s M Q \<longleftrightarrow> ok s \<and> live s = live s0 ++ M \<and> dom M \<inter> dom (live s0) = {} \<and> pages s = pages s0 \<union> Q \<and> Q \<inter> pages s0 = {}"

lemma holds_refl: "ok s \<Longrightarrow> holds s s Map.empty {}"
  by (simp add: holds_def)

lemma holds_done: "holds s0 s Map.empty {} \<Longrightarrow> ok s \<and> live s = live s0 \<and> pages s = pages s0"
  by (simp add: holds_def)

lemma holds_malloc:
  assumes "holds s0 s M Q" "unat sz \<le> 2 ^ 32" "kmalloc_op ops sz s = (a, s')"
  shows "a = 0 \<and> holds s0 s' M Q \<or> a \<noteq> 0 \<and> a \<notin> dom M \<and> holds s0 s' (M(a \<mapsto> unat sz)) Q"
  using malloc[OF _ assms(2,3)] assms(1) by (auto simp: holds_def map_add_def split: option.splits)

lemma holds_free:
  assumes "holds s0 s M Q" "M a = Some n" "n \<le> 1024"
  shows "holds s0 (kfree_op ops a s) (M(a := None)) Q"
proof -
  have "live s a = Some n" using assms by (simp add: holds_def)
  moreover have "live s0 a = None" using assms by (auto simp: holds_def)
  ultimately show ?thesis
    using free[of s a n] assms by (auto simp: holds_def map_add_def fun_eq_iff split: option.splits)
qed

lemma holds_page:
  assumes "holds s0 s M Q" "page_op ops s = (a, s')"
  shows "a = 0 \<and> holds s0 s' M Q \<or> a \<noteq> 0 \<and> holds s0 s' M (insert a Q)"
  using page[OF _ assms(2)] assms(1) by (auto simp: holds_def)

lemma holds_free_page:
  assumes "holds s0 s M Q" "a \<in> Q"
  shows "holds s0 (free_page_op ops a s) M (Q - {a})"
  using free_page[of s a] assms by (auto simp: holds_def)

lemma holds_read:
  assumes "holds s0 s M Q" "bdev_read ops d lba nr len s = (r, s')"
  shows "holds s0 s' M Q"
  using bdev_read_env[OF _ assms(2)] assms(1) by (simp add: holds_def)

text \<open>The same with the objects as a list.\<close>

definition owns :: "'s \<Rightarrow> 's \<Rightarrow> (u64 \<times> nat) list \<Rightarrow> u64 set \<Rightarrow> bool" where
  "owns s0 s A Q \<longleftrightarrow> distinct (map fst A) \<and> holds s0 s (map_of A) Q"

lemma owns_cong: "owns s0 s A Q \<Longrightarrow> set A = set B \<Longrightarrow> length A = length B \<Longrightarrow> owns s0 s B Q"
proof -
  assume a: "owns s0 s A Q" "set A = set B" "length A = length B"
  have "card (set (map fst A)) = length A" using a(1) by (metis owns_def distinct_card length_map)
  then have "distinct (map fst B)" using a(2,3) by (metis card_distinct length_map list.set_map)
  with a show "owns s0 s B Q" using map_of_inject_set[of A B] by (simp add: owns_def)
qed

lemma owns_malloc:
  assumes "owns s0 s A Q" "unat sz \<le> 2 ^ 32" "kmalloc_op ops sz s = (a, s')"
  shows "a = 0 \<and> owns s0 s' A Q \<or> a \<noteq> 0 \<and> owns s0 s' ((a, unat sz) # A) Q"
  using holds_malloc[of s0 s "map_of A" Q, OF _ assms(2,3)] assms(1) by (auto simp: owns_def dom_map_of_conv_image_fst)

lemma owns_free:
  assumes "owns s0 s ((a, n) # A) Q" "n \<le> 1024"
  shows "owns s0 (kfree_op ops a s) A Q"
  using holds_free[of s0 s "map_of ((a, n) # A)" Q a n] map_of_tail[of a n A] assms by (simp add: owns_def)

lemma owns_read: "owns s0 s A Q \<Longrightarrow> bdev_read ops d lba nr len s = (r, s') \<Longrightarrow> owns s0 s' A Q"
  by (auto simp: owns_def intro: holds_read)

lemma scan_entries_owns:
  "scan_entries ops bdev buf is pbs s = (res, pbs', s') \<Longrightarrow> owns s0 s (concat (map owned pbs) @ [(b, n)]) {} \<Longrightarrow>
     owns s0 s' (concat (map owned pbs') @ [(b, n)]) {}"
proof (induction "is" arbitrary: pbs s)
  case (Cons i "is")
  show ?case
  proof (cases "sys_id (mbr_entry buf i) = 0")
    case True
    with Cons show ?thesis by simp
  next
    case False
    obtain pb s1 where pb: "kmalloc_op ops sizeof_block_dev s = (pb, s1)" by force
    obtain pi s2 where pi: "kmalloc_op ops sizeof_partition_info s1 = (pi, s2)" by force
    let ?X = "concat (map owned pbs) @ [(b, n)]"
    note o1 = owns_malloc[OF Cons.prems(2) _ pb]
    show ?thesis
    proof (cases "pb = 0")
      case True
      with o1 Cons.prems(1) False pb show ?thesis by auto
    next
      case pb0: False
      with o1 have o1': "owns s0 s1 ((pb, 64) # ?X) {}" by simp
      note o2 = owns_malloc[OF o1' _ pi]
      show ?thesis
      proof (cases "pi = 0")
        case True
        with o2 have "owns s0 s2 ((pb, 64) # ?X) {}" by simp
        then have "owns s0 s2 (concat (map owned pbs) @ [(pb, 64), (b, n)]) {}" by (rule owns_cong) auto
        with True Cons.prems(1) False pb0 pb pi show ?thesis by (auto simp: Let_def owned_entry)
      next
        case pi0: False
        with o2 have "owns s0 s2 ((pi, 16) # (pb, 64) # ?X) {}" by simp
        then have "owns s0 s2 (concat (map owned pbs) @ [(pi, 16), (pb, 64), (b, n)]) {}" by (rule owns_cong) auto
        with Cons.IH Cons.prems(1) False pb0 pb pi pi0 show ?thesis by (auto simp: Let_def owned_entry)
      qed
    qed
  qed
qed simp

lemma scan_exit_free:
  "owns s0 s (concat (map owned pbs) @ [(b, n)]) {} \<Longrightarrow> res \<noteq> 0 \<Longrightarrow>
     \<exists>s'. fold (scan_exit ops res) pbs (devs, s) = (devs, s') \<and> owns s0 s' [(b, n)] {}"
proof (induction pbs arbitrary: s)
  case (Cons pb pbs)
  define s1 where "s1 = (if info_addr pb \<noteq> 0 then kfree_op ops (info_addr pb) s else s)"
  have "owns s0 s1 ((dev_addr pb, 64) # concat (map owned pbs) @ [(b, n)]) {}"
    using owns_free[of s0 s "info_addr pb" 16 "(dev_addr pb, 64) # concat (map owned pbs) @ [(b, n)]" "{}"] Cons.prems(1)
    by (cases "info_addr pb = 0") (simp_all add: s1_def owned_def[of pb])
  from owns_free[OF this] have "owns s0 (kfree_op ops (dev_addr pb) s1) (concat (map owned pbs) @ [(b, n)]) {}" by simp
  from Cons.IH[OF this Cons.prems(2)] Cons.prems(2) show ?case by (simp add: scan_exit_def s1_def)
qed simp

text \<open>Whatever happens, the buffer is released; on an error so is everything else.\<close>

lemma partition_scan_owns:
  assumes ok: "ok s" and sz: "unat (sector_size bdev) \<le> 1024" and r: "partition_scan ops bdev devs s = (res, devs', s')"
  shows "ok s' \<and> pages s' = pages s \<and> (res < 0 \<longrightarrow> devs' = devs \<and> live s' = live s) \<and> (0 \<le> res \<longrightarrow> live s \<subseteq>\<^sub>m live s')"
proof -
  define sz' :: u64 where "sz' = ucast (if sector_size bdev > 512 then sector_size bdev else 512)"
  have sz': "unat sz' \<le> 1024" using sz by (simp add: sz'_def unsigned_ucast_eq take_bit_nat_eq_self)
  obtain buf s1 where m: "kmalloc_op ops sz' s = (buf, s1)" by force
  have o0: "owns s s [] {}" using holds_refl[OF ok] by (simp add: owns_def)
  note o1 = owns_malloc[OF o0 _ m]
  show ?thesis
  proof (cases "buf = 0")
    case True
    with o1 sz' have "owns s s1 [] {}" by simp
    then have "ok s1 \<and> live s1 = live s \<and> pages s1 = pages s" using holds_done by (simp add: owns_def)
    with True r m show ?thesis by (simp add: partition_scan_def sz'_def)
  next
    case buf: False
    obtain st bytes s2 where rd: "bdev_read ops bdev 0 1 sz' s1 = ((st, bytes), s2)" by (metis prod.exhaust)
    obtain e pbs s3 where en: "(if st \<noteq> 0 then (- EIO, [], s2) else scan_entries ops bdev bytes [0..<4] [] s2) = (e, pbs, s3)"
      by (metis prod.exhaust)
    have "owns s s2 ((buf, unat sz') # []) {}" using o1 sz' buf owns_read[OF _ rd] by simp
    then have o3: "owns s s3 (concat (map owned pbs) @ [(buf, unat sz')]) {}"
      using scan_entries_owns[of bdev bytes "[0..<4]" "[]" s2 e pbs s3 s buf "unat sz'"] en by (cases "st = 0") auto
    have e: "e = 0 \<or> e < 0" using en scan_entries_result[of ops bdev bytes "[0..<4]" "[]" s2] by (auto split: if_splits)
    show ?thesis
    proof (cases "e = 0")
      case True
      note f = fold_scan_exit_ok[of ops pbs devs s3]
      from o3 have "owns s s3 ((buf, unat sz') # concat (map owned pbs)) {}" by (rule owns_cong) auto
      from owns_free[OF this sz'] have "holds s (kfree_op ops buf s3) (map_of (concat (map owned pbs))) {}" by (simp add: owns_def)
      then have "ok (kfree_op ops buf s3) \<and> pages (kfree_op ops buf s3) = pages s \<and> live s \<subseteq>\<^sub>m live (kfree_op ops buf s3)"
        by (auto simp: holds_def map_le_def map_add_def split: option.splits)
      with True f r m buf rd en show ?thesis by (auto simp: partition_scan_def Let_def simp flip: sz'_def)
    next
      case False
      from scan_exit_free[OF o3 this, of devs] obtain s4 where
        f: "fold (scan_exit ops e) pbs (devs, s3) = (devs, s4)" and o4: "owns s s4 [(buf, unat sz')] {}" by blast
      from owns_free[OF o4 sz'] have "ok (kfree_op ops buf s4) \<and> live (kfree_op ops buf s4) = live s \<and> pages (kfree_op ops buf s4) = pages s"
        using holds_done by (simp add: owns_def)
      with False e f r m buf rd en show ?thesis by (auto simp: partition_scan_def Let_def simp flip: sz'_def)
    qed
  qed
qed

end

end
