(* ===== verification/Dcache.thy ===== *)
theory Dcache
  imports Blockdev
begin

text \<open>
  The objects of the virtual file system (\<^verbatim>\<open>include/vfs.h\<close>, \<^verbatim>\<open>include/fs/ext2.h\<close>) and the directory
  entries of \<^verbatim>\<open>fs/vfs.c\<close>. Superblocks, inodes, directory entries and open files are reached through
  pointers and are kept in stores; what only one of them points to (the private data of a superblock
  and of an inode) is part of the record. On-disk structures are records read out of a buffer.
\<close>

section \<open>On-disk structures\<close>

record ext2_superblock =
  inode_count :: u32
  block_count :: u32
  superuser_rsv_block_count :: u32
  free_block_count :: u32
  free_inode_count :: u32
  first_data_block :: u32
  log_block_size :: u32
  log_frag_size :: u32
  blocks_per_blockgroup :: u32
  fragments_per_blockgroup :: u32
  inodes_per_blockgroup :: u32
  last_mount_time :: u32
  last_written_time :: u32
  mount_count :: u16
  max_mount_count :: u16
  ext2_signature :: u16
  fs_state :: u16
  error_action :: u16
  version_minor :: u16
  last_check_time :: u32
  check_interval :: u32
  os_id :: u32
  version_major :: u32
  default_res_uid :: u16
  default_res_gid :: u16
  first_non_rsv_inode :: u32
  inode_struct_size :: u16
  superblock_blockgroup :: u16
  optinal_features :: u32
  required_features :: u32
  ro_compat_features :: u32
  fs_id :: "u8 list"
  volume_name :: "u8 list"
  last_mounted_path :: "u8 list"

definition bytes_at :: "u8 list \<Rightarrow> nat \<Rightarrow> nat \<Rightarrow> u8 list" where
  "bytes_at b off n = map (byte_at b) [off..<off + n]"

text \<open>The fields after the path of the last mount are never read.\<close>

definition superblock_at :: "u8 list \<Rightarrow> nat \<Rightarrow> ext2_superblock" where
  "superblock_at b off =
     \<lparr>inode_count = le32 b off, block_count = le32 b (off + 4), superuser_rsv_block_count = le32 b (off + 8),
      free_block_count = le32 b (off + 12), free_inode_count = le32 b (off + 16), first_data_block = le32 b (off + 20),
      log_block_size = le32 b (off + 24), log_frag_size = le32 b (off + 28), blocks_per_blockgroup = le32 b (off + 32),
      fragments_per_blockgroup = le32 b (off + 36), inodes_per_blockgroup = le32 b (off + 40),
      last_mount_time = le32 b (off + 44), last_written_time = le32 b (off + 48), mount_count = le16 b (off + 52),
      max_mount_count = le16 b (off + 54), ext2_signature = le16 b (off + 56), fs_state = le16 b (off + 58),
      error_action = le16 b (off + 60), version_minor = le16 b (off + 62), last_check_time = le32 b (off + 64),
      check_interval = le32 b (off + 68), os_id = le32 b (off + 72), version_major = le32 b (off + 76),
      default_res_uid = le16 b (off + 80), default_res_gid = le16 b (off + 82), first_non_rsv_inode = le32 b (off + 84),
      inode_struct_size = le16 b (off + 88), superblock_blockgroup = le16 b (off + 90),
      optinal_features = le32 b (off + 92), required_features = le32 b (off + 96), ro_compat_features = le32 b (off + 100),
      fs_id = bytes_at b (off + 104) 16, volume_name = bytes_at b (off + 120) 16,
      last_mounted_path = bytes_at b (off + 136) 64\<rparr>"

record ext2_blockgroup_desc =
  block_bitmap_addr :: u32
  inode_bitmap_addr :: u32
  inode_table_addr :: u32
  free_blocks_count :: u16
  free_inodes_count :: u16
  dir_count :: u16

definition blockgroup_at :: "u8 list \<Rightarrow> nat \<Rightarrow> ext2_blockgroup_desc" where
  "blockgroup_at b off =
     \<lparr>block_bitmap_addr = le32 b off, inode_bitmap_addr = le32 b (off + 4), inode_table_addr = le32 b (off + 8),
      free_blocks_count = le16 b (off + 12), free_inodes_count = le16 b (off + 14), dir_count = le16 b (off + 16)\<rparr>"

record ext2_inode =
  e_mode :: u16
  user_id :: u16
  sizel :: u32
  last_access_time :: u32
  creation_time :: u32
  last_mod_time :: u32
  deletion_time :: u32
  group_id :: u16
  hard_links_count :: u16
  e_sector_count :: u32
  e_flags :: u32
  os_specific_val0 :: u32
  direct_ptrs :: "u32 list"
  singly_ptr :: u32
  doubly_ptr :: u32
  triply_ptr :: u32
  generation_num :: u32
  extended_attr_block :: u32
  sizeu :: u32
  fragment_block_addr :: u32
  os_specific_val1 :: "u8 list"

definition inode_at :: "u8 list \<Rightarrow> nat \<Rightarrow> ext2_inode" where
  "inode_at b off =
     \<lparr>e_mode = le16 b off, user_id = le16 b (off + 2), sizel = le32 b (off + 4), last_access_time = le32 b (off + 8),
      creation_time = le32 b (off + 12), last_mod_time = le32 b (off + 16), deletion_time = le32 b (off + 20),
      group_id = le16 b (off + 24), hard_links_count = le16 b (off + 26), e_sector_count = le32 b (off + 28),
      e_flags = le32 b (off + 32), os_specific_val0 = le32 b (off + 36),
      direct_ptrs = map (\<lambda>i. le32 b (off + 40 + 4 * i)) [0..<12],
      singly_ptr = le32 b (off + 88), doubly_ptr = le32 b (off + 92), triply_ptr = le32 b (off + 96),
      generation_num = le32 b (off + 100), extended_attr_block = le32 b (off + 104), sizeu = le32 b (off + 108),
      fragment_block_addr = le32 b (off + 112), os_specific_val1 = bytes_at b (off + 116) 12\<rparr>"

text \<open>A directory entry: the fixed part; its name follows at offset 8.\<close>

record ext2_dir_entry =
  d_inode :: u32
  entry_size :: u16
  name_len_lower :: u8
  d_type :: u8

definition dir_entry_at :: "u8 list \<Rightarrow> nat \<Rightarrow> ext2_dir_entry" where
  "dir_entry_at b off =
     \<lparr>d_inode = le32 b off, entry_size = le16 b (off + 4), name_len_lower = byte_at b (off + 6), d_type = byte_at b (off + 7)\<rparr>"

section \<open>Objects in memory\<close>

record ext2_fs_info =
  fs_super :: ext2_superblock
  inodes_per_group :: u32
  block_per_group :: u32
  block_group_count :: u32
  bgd_addr :: u64
  bgd_table :: "ext2_blockgroup_desc list"

record superblock =
  sb_bdev :: block_dev
  sb_root :: u64
  sb_block_size :: u32
  sb_sectors_per_block :: u32
  sb_info :: ext2_fs_info

text \<open>The tables of functions that an inode or a file can point to; \<open>No_iops\<close> and \<open>No_fops\<close> are null.\<close>

datatype inode_operations = No_iops | Ext2_file_iops | Ext2_dir_iops
datatype file_operations = No_fops | Ext2_file_fops | Ext2_dir_fops | Tty_fops

record ext2_inode_info =
  raw_inode :: ext2_inode
  i_size :: u64
  singly :: "u32 list option"

record inode =
  ino :: u32
  isize :: u64
  imode :: u32
  isb :: u64
  iops :: inode_operations
  ifops :: file_operations
  i_info :: ext2_inode_info

text \<open>A counted string: the address of its characters and the characters from there on.\<close>

record qstr =
  str_addr :: u64
  str :: "u8 list"
  qlen :: u32
  qhash :: u32

record dentry =
  dname :: qstr
  dinode :: u64
  dparent :: u64
  first_child :: u64
  next_sibling :: u64
  dsb :: u64

record vfile =
  fdentry :: u64
  pos :: u64
  ref_count :: u32
  fops :: file_operations

record 's fs =
  env :: 's
  supers :: "u64 \<Rightarrow> superblock option"
  inodes :: "u64 \<Rightarrow> inode option"
  dentries :: "u64 \<Rightarrow> dentry option"
  files :: "u64 \<Rightarrow> vfile option"
  vfs_root :: u64

definition on_env :: "('s \<Rightarrow> 'a \<times> 's) \<Rightarrow> 's fs \<Rightarrow> 'a \<times> 's fs" where
  "on_env f st = (case f (env st) of (r, s) \<Rightarrow> (r, st\<lparr>env := s\<rparr>))"

abbreviation S_IFMT :: u32 where "S_IFMT \<equiv> 0xF000"
abbreviation S_IFREG :: u32 where "S_IFREG \<equiv> 0x8000"
abbreviation S_IFDIR :: u32 where "S_IFDIR \<equiv> 0x4000"

definition S_ISREG :: "u32 \<Rightarrow> bool" where "S_ISREG m \<longleftrightarrow> m AND S_IFMT = S_IFREG"
definition S_ISDIR :: "u32 \<Rightarrow> bool" where "S_ISDIR m \<longleftrightarrow> m AND S_IFMT = S_IFDIR"

section \<open>Directory entries\<close>

text \<open>\<^verbatim>\<open>char\<close> is signed: a byte above 127 is sign-extended before it is added.\<close>

definition vfs_hash_name :: "u8 list \<Rightarrow> u32 \<Rightarrow> u32" where
  "vfs_hash_name s n = fold (\<lambda>i h. (push_bit 5 h + h) + scast (byte_at s i)) [0..<unat n] 5381"

abbreviation sizeof_dentry :: u64 where "sizeof_dentry \<equiv> 56"

definition d_alloc :: "'s kops \<Rightarrow> u64 \<Rightarrow> qstr \<Rightarrow> 's fs \<Rightarrow> u64 \<times> 's fs" where
  "d_alloc ops parent q st =
     (let (d, st1) = on_env (kmalloc_op ops sizeof_dentry) st in
      if d = 0 then (ERR_PTR (- ENOMEM), st1)
      else
        let (nm, st2) = on_env (kmalloc_op ops (ucast (qlen q + 1))) st1 in
        if nm = 0 then (ERR_PTR (- ENOMEM), st2\<lparr>env := kfree_op ops d (env st2)\<rparr>)
        else (d, st2\<lparr>dentries := (dentries st2)(d \<mapsto>
               \<lparr>dname = \<lparr>str_addr = nm, str = take (unat (qlen q)) (str q) @ [0], qlen = qlen q, qhash = qhash q\<rparr>,
                dinode = 0, dparent = parent, first_child = 0, next_sibling = 0, dsb = 0\<rparr>)\<rparr>))"

definition d_free :: "'s kops \<Rightarrow> u64 \<Rightarrow> 's fs \<Rightarrow> 's fs exec" where
  "d_free ops d st =
     (if d = 0 then Ret st
      else exec_bind (deref (dentries st) d) (\<lambda>de.
        let s1 = (if str_addr (dname de) \<noteq> 0 then kfree_op ops (str_addr (dname de)) (env st) else env st)
        in Ret (st\<lparr>env := kfree_op ops d s1, dentries := (dentries st)(d := None)\<rparr>)))"

definition d_add :: "u64 \<Rightarrow> u64 \<Rightarrow> 's fs \<Rightarrow> 's fs exec" where
  "d_add child i st =
     exec_bind (deref (dentries st) child) (\<lambda>c.
       if dparent c = 0 then Ret (st\<lparr>dentries := (dentries st)(child \<mapsto> c\<lparr>dinode := i\<rparr>)\<rparr>)
       else
         let ds = (dentries st)(child \<mapsto> c\<lparr>dinode := i\<rparr>) in
         exec_bind (deref ds (dparent c)) (\<lambda>p.
           let ds = ds(child \<mapsto> c\<lparr>dinode := i, next_sibling := first_child p\<rparr>) in
           exec_bind (deref ds (dparent c)) (\<lambda>p. Ret (st\<lparr>dentries := ds(dparent c \<mapsto> p\<lparr>first_child := child\<rparr>)\<rparr>))))"

end
