(* ===== verification/Ext2.thy ===== *)
theory Ext2
  imports Dcache
begin

text \<open>
  The ext2 driver: \<^verbatim>\<open>fs/ext2/super.c\<close>, \<^verbatim>\<open>ext2.c\<close>, \<^verbatim>\<open>inode.c\<close>, \<^verbatim>\<open>dir.c\<close> and \<^verbatim>\<open>file.c\<close>. Divisions by zero and
  accesses outside a buffer, which a damaged image can provoke, are \<open>Oob\<close>.
\<close>

abbreviation EXT2_SIGNATURE :: u16 where "EXT2_SIGNATURE \<equiv> 0xEF53"
abbreviation EXT2_SUPERBLOCK_OFFSET :: u32 where "EXT2_SUPERBLOCK_OFFSET \<equiv> 1024"
abbreviation EXT2_FEATURE_REQUIRED_SUPPORTED :: u32 where "EXT2_FEATURE_REQUIRED_SUPPORTED \<equiv> 2"
abbreviation EXT2_ROOT_DIR_INO :: u32 where "EXT2_ROOT_DIR_INO \<equiv> 2"
abbreviation sizeof_ext2_superblock :: u32 where "sizeof_ext2_superblock \<equiv> 1024"

definition EXT2_ISDIR :: "u16 \<Rightarrow> bool" where "EXT2_ISDIR m \<longleftrightarrow> m AND 0xF000 = 0x4000"
definition EXT2_ISREG :: "u16 \<Rightarrow> bool" where "EXT2_ISREG m \<longleftrightarrow> m AND 0xF000 = 0x8000"

text \<open>\<^verbatim>\<open>1024 << log_block_size\<close>; the processor takes the shift count modulo 32.\<close>

definition block_size_of :: "ext2_superblock \<Rightarrow> u32" where
  "block_size_of super = push_bit (unat (log_block_size super) mod 32) 1024"

section \<open>Superblock (super.c)\<close>

definition ext2_read_superblock :: "'s kops \<Rightarrow> block_dev \<Rightarrow> 's \<Rightarrow> ((int \<times> ext2_superblock) \<times> 's) exec" where
  "ext2_read_superblock ops bdev s =
     (if sector_size bdev = 0 then Oob
      else
        let start_sector = EXT2_SUPERBLOCK_OFFSET div sector_size bdev;
            end_byte = EXT2_SUPERBLOCK_OFFSET + sizeof_ext2_superblock;
            end_sector = (end_byte + sector_size bdev - 1) div sector_size bdev;
            sector_cnt = end_sector - start_sector;
            total_bytes = sector_cnt * sector_size bdev;
            (buf, s1) = kmalloc_op ops (ucast total_bytes) s
        in if buf = 0 then Ret ((- ENOMEM, superblock_at [] 0), s1)
           else
             let ((status, bytes), s2) = bdev_read ops bdev (ucast start_sector) (ucast sector_cnt) (ucast total_bytes) s1 in
             if status < 0 then Ret ((status, superblock_at [] 0), kfree_op ops buf s2)
             else
               let off = EXT2_SUPERBLOCK_OFFSET - start_sector * sector_size bdev
               in Ret ((0, superblock_at bytes (unat off)), kfree_op ops buf s2))"

text \<open>
  \<^verbatim>\<open>ext2_probe\<close>, with the label it stores when the caller passes a probe record: the volume name up to
  its null byte, padded with zeros to 32 bytes. A name of 16 bytes has no null byte, and the copy
  goes on into the field after it.
\<close>

definition probe_label :: "ext2_superblock \<Rightarrow> u8 list" where
  "probe_label super = (let nm = takeWhile (\<lambda>c. c \<noteq> 0) (take 32 (volume_name super @ last_mounted_path super)) in
     (nm @ replicate (32 - length nm) 0)[31 := 0])"

definition ext2_probe :: "'s kops \<Rightarrow> block_dev \<Rightarrow> 's \<Rightarrow> ((int \<times> u8 list option) \<times> 's) exec" where
  "ext2_probe ops bdev s =
     (let (super_addr, s1) = kmalloc_op ops (ucast sizeof_ext2_superblock) s in
      if super_addr = 0 then Ret ((- ENOMEM, None), s1)
      else exec_bind (ext2_read_superblock ops bdev s1) (\<lambda>((status, super), s2).
        if status < 0 then Ret ((status, None), kfree_op ops super_addr s2)
        else if ext2_signature super \<noteq> EXT2_SIGNATURE \<or> version_major super \<noteq> 1
              \<or> required_features super AND NOT EXT2_FEATURE_REQUIRED_SUPPORTED \<noteq> 0 \<or> 4096 < block_size_of super
        then Ret ((- EINVAL, None), kfree_op ops super_addr s2)
        else Ret ((0, Some (probe_label super)), kfree_op ops super_addr s2)))"

definition ext2_fill_bgd_table_info :: "'s kops \<Rightarrow> block_dev \<Rightarrow> ext2_fs_info \<Rightarrow> 's \<Rightarrow> ((int \<times> ext2_fs_info) \<times> 's) exec" where
  "ext2_fill_bgd_table_info ops bdev info s =
     (let super = fs_super info;
          info1 = info\<lparr>inodes_per_group := inodes_per_blockgroup super, block_per_group := blocks_per_blockgroup super\<rparr>;
          block_size = block_size_of super
      in if inodes_per_group info1 = 0 \<or> block_size = 0 \<or> sector_size bdev = 0 then Oob
         else
           let info2 = info1\<lparr>block_group_count := (inode_count super + inodes_per_group info1 - 1) div inodes_per_group info1\<rparr>;
               bgd_table_start_block = first_data_block super + 1;
               bgd_table_bytes = 32 * block_group_count info2;
               blocks = (bgd_table_bytes + block_size - 1) div block_size;
               (tbl, s1) = kmalloc_op ops (ucast (blocks * block_size)) s
           in if tbl = 0 then Ret ((- ENOMEM, info2), s1)
              else
                let sectors_per_block = block_size div sector_size bdev;
                    lba = bgd_table_start_block * sectors_per_block;
                    lba_count = blocks * sectors_per_block;
                    ((status, bytes), s2) = bdev_read ops bdev (ucast lba) (ucast lba_count) (ucast (blocks * block_size)) s1
                in if status < 0 then Ret ((status, info2), kfree_op ops tbl s2)
                   else Ret ((0, info2\<lparr>bgd_addr := tbl,
                          bgd_table := map (\<lambda>i. blockgroup_at bytes (32 * i)) [0..<unat (blocks * block_size) div 32]\<rparr>), s2))"

section \<open>Blocks (ext2.c)\<close>

definition ext2_alloc_block :: "'s kops \<Rightarrow> u32 \<Rightarrow> 's \<Rightarrow> u64 \<times> 's" where
  "ext2_alloc_block ops block_size s = (if block_size = 4096 then page_op ops s else kmalloc_op ops (ucast block_size) s)"

definition ext2_free_block :: "'s kops \<Rightarrow> u64 \<Rightarrow> u32 \<Rightarrow> 's \<Rightarrow> 's" where
  "ext2_free_block ops block block_size s = (if block_size = 4096 then free_page_op ops block s else kfree_op ops block s)"

text \<open>
  \<^verbatim>\<open>ext2_init_singly\<close> of the inode at \<open>ip\<close>. The table is the block as an array of 32-bit numbers.
\<close>

definition u32_array :: "u8 list \<Rightarrow> u32 \<Rightarrow> u32 list" where
  "u32_array b n = map (\<lambda>i. le32 b (4 * i)) [0..<unat n div 4]"

definition ext2_init_singly :: "'s kops \<Rightarrow> u64 \<Rightarrow> 's fs \<Rightarrow> (int \<times> 's fs) exec" where
  "ext2_init_singly ops ip st =
     exec_bind (deref (inodes st) ip) (\<lambda>i.
       if singly (i_info i) \<noteq> None then Ret (0, st)
       else exec_bind (deref (supers st) (isb i)) (\<lambda>sb.
         let (buf, s1) = ext2_alloc_block ops (sb_block_size sb) (env st) in
         if buf = 0 then Ret (- ENOMEM, st\<lparr>env := s1\<rparr>)
         else
           let lba = singly_ptr (raw_inode (i_info i)) * sb_sectors_per_block sb;
               ((status, bytes), s2) =
                 bdev_read ops (sb_bdev sb) (ucast lba) (ucast (sb_sectors_per_block sb)) (ucast (sb_block_size sb)) s1
           in if status < 0 then Ret (status, st\<lparr>env := ext2_free_block ops buf (sb_block_size sb) s2\<rparr>)
              else Ret (0, st\<lparr>env := s2,
                     inodes := (inodes st)(ip \<mapsto> i\<lparr>i_info := (i_info i)\<lparr>singly := Some (u32_array bytes (sb_block_size sb))\<rparr>\<rparr>)\<rparr>)))"

section \<open>Inodes (inode.c)\<close>

definition ext2_inode_data_size :: "ext2_inode \<Rightarrow> u64" where
  "ext2_inode_data_size i = ucast (sizel i) OR push_bit 32 (ucast (sizeu i))"

abbreviation sizeof_ext2_inode :: u64 where "sizeof_ext2_inode \<equiv> 128"
abbreviation sizeof_inode :: u64 where "sizeof_inode \<equiv> 56"
abbreviation sizeof_ext2_inode_info :: u64 where "sizeof_ext2_inode_info \<equiv> 48"

text \<open>The error exit: whatever was allocated is released.\<close>

definition read_inode_out_err :: "'s kops \<Rightarrow> u32 \<Rightarrow> u64 \<Rightarrow> u64 \<Rightarrow> u64 \<Rightarrow> u64 \<Rightarrow> 's \<Rightarrow> 's" where
  "read_inode_out_err ops block_size block_buf raw inode' info s =
     (let s = (if block_buf \<noteq> 0 then ext2_free_block ops block_buf block_size s else s);
          s = (if raw \<noteq> 0 then kfree_op ops raw s else s);
          s = (if inode' \<noteq> 0 then kfree_op ops inode' s else s)
      in if info \<noteq> 0 then kfree_op ops info s else s)"

text \<open>The fields of the new inode, from the raw inode.\<close>

definition new_inode :: "u32 \<Rightarrow> u64 \<Rightarrow> ext2_inode \<Rightarrow> inode" where
  "new_inode n sbp raw =
     \<lparr>ino = n, isize = ext2_inode_data_size raw,
      imode = (if EXT2_ISREG (e_mode raw) then S_IFREG else S_IFDIR), isb = sbp,
      iops = (if EXT2_ISDIR (e_mode raw) then Ext2_dir_iops else if EXT2_ISREG (e_mode raw) then Ext2_file_iops else No_iops),
      ifops = (if EXT2_ISDIR (e_mode raw) then Ext2_dir_fops else if EXT2_ISREG (e_mode raw) then Ext2_file_fops else No_fops),
      i_info = \<lparr>raw_inode = raw, i_size = ext2_inode_data_size raw, singly = None\<rparr>\<rparr>"

definition ext2_read_inode :: "'s kops \<Rightarrow> block_dev \<Rightarrow> u64 \<Rightarrow> u32 \<Rightarrow> 's fs \<Rightarrow> (u64 \<times> 's fs) exec" where
  "ext2_read_inode ops bdev sbp n st =
     exec_bind (deref (supers st) sbp) (\<lambda>sb.
       let info = sb_info sb in
       if inodes_per_group info = 0 then Oob
       else if (n - 1) div inodes_per_group info \<ge> block_group_count info then Ret (ERR_PTR (- EINVAL), st)
       else
         let block_group = (n - 1) div inodes_per_group info;
             inode_size = ucast (inode_struct_size (fs_super info));
             index = (n - 1) mod inodes_per_group info;
             inodes_per_block = sb_block_size sb div inode_size
         in if inode_size = 0 \<or> inodes_per_block = 0 then Oob
            else exec_bind (array_get (bgd_table info) (unat block_group)) (\<lambda>bgd.
              let block_offset = index div inodes_per_block;
                  index_in_block = index mod inodes_per_block;
                  target_block = inode_table_addr bgd + block_offset;
                  lba = target_block * sb_sectors_per_block sb;
                  (block_buf, s1) = ext2_alloc_block ops (sb_block_size sb) (env st);
                  (raw, s2) = kmalloc_op ops sizeof_ext2_inode s1;
                  (ip, s3) = kmalloc_op ops sizeof_inode s2;
                  (ii, s4) = kmalloc_op ops sizeof_ext2_inode_info s3
              in if block_buf = 0 \<or> raw = 0 \<or> ip = 0 \<or> ii = 0
                 then Ret (ERR_PTR (- ENOMEM), st\<lparr>env := read_inode_out_err ops (sb_block_size sb) block_buf raw ip ii s4\<rparr>)
                 else
                   let ((res, bytes), s5) =
                         bdev_read ops bdev (ucast lba) (ucast (sb_sectors_per_block sb)) (ucast (sb_block_size sb)) s4
                   in if res < 0
                      then Ret (ERR_PTR res, st\<lparr>env := read_inode_out_err ops (sb_block_size sb) block_buf raw ip ii s5\<rparr>)
                      else
                        let off = unat (inode_size * index_in_block); i = inode_at bytes off in
                        if length bytes < off + 128 then Oob
                        else if \<not> EXT2_ISREG (e_mode i) \<and> \<not> EXT2_ISDIR (e_mode i)
                        then Panic (''ext2_lookup: unsupported type.'' @ [CHR 0x0A])
                        else Ret (ip, st\<lparr>env := ext2_free_block ops block_buf (sb_block_size sb) s5,
                               inodes := (inodes st)(ip \<mapsto> new_inode n sbp i)\<rparr>)))"

section \<open>Directories (dir.c)\<close>

text \<open>\<^verbatim>\<open>memcmp(entry->name, name, n) == 0\<close> with the entry's name at offset \<open>off\<close> of the block.\<close>

fun name_matches :: "u8 list \<Rightarrow> nat \<Rightarrow> u8 list \<Rightarrow> nat \<Rightarrow> bool exec" where
  "name_matches buf off name 0 = Ret True"
| "name_matches buf off name (Suc n) =
     (case name of
        [] \<Rightarrow> Oob
      | c # cs \<Rightarrow> if off \<ge> length buf then Oob else if buf ! off \<noteq> c then Ret False else name_matches buf (Suc off) cs n)"

text \<open>One entry: it is in use and has the name looked for.\<close>

definition entry_matches :: "u8 list \<Rightarrow> nat \<Rightarrow> u8 list \<Rightarrow> u8 \<Rightarrow> bool exec" where
  "entry_matches buf off name name_len =
     (let entry = dir_entry_at buf off in
      if d_inode entry = 0 then Ret False
      else if name_len_lower entry \<noteq> name_len then Ret False
      else name_matches buf (off + 8) name (unat name_len))"

text \<open>The result: an error, or the offset of the entry if there is one.\<close>

function search_dir_block :: "u8 list \<Rightarrow> nat \<Rightarrow> u8 list \<Rightarrow> u8 \<Rightarrow> nat \<Rightarrow> (int + nat option) exec" where
  "search_dir_block buf block_size name name_len off =
     (if off \<ge> block_size then Ret (Inr None)
      else if length buf < off + 8 then Oob
      else if entry_size (dir_entry_at buf off) = 0 then Ret (Inl (- EUCLEAN))
      else exec_bind (entry_matches buf off name name_len) (\<lambda>m.
        if m then Ret (Inr (Some off))
        else search_dir_block buf block_size name name_len (off + unat (entry_size (dir_entry_at buf off)))))"
  by pat_completeness auto
termination
  by (relation "measure (\<lambda>(buf, block_size, name, name_len, off). block_size - off)")
     (auto intro!: diff_less_mono2 simp: unat_gt_0)

declare search_dir_block.simps [simp del]

text \<open>
  The loop of \<^verbatim>\<open>ext2_lookup\<close> over the blocks of the directory, with the buffer already allocated:
  an error, or the block and the offset of the entry in it.
\<close>

definition dir_block_addr :: "'s kops \<Rightarrow> u64 \<Rightarrow> nat \<Rightarrow> 's fs \<Rightarrow> ((int + u32) \<times> 's fs) exec" where
  "dir_block_addr ops dir i st =
     (if i < 12 then exec_bind (deref (inodes st) dir) (\<lambda>d.
        exec_bind (array_get (direct_ptrs (raw_inode (i_info d))) i) (\<lambda>a. Ret (Inr a, st)))
      else exec_bind (ext2_init_singly ops dir st) (\<lambda>(res, st1).
        if res < 0 then Ret (Inl res, st1)
        else exec_bind (deref (inodes st1) dir) (\<lambda>d.
          case singly (i_info d) of None \<Rightarrow> Oob
          | Some tbl \<Rightarrow> exec_bind (array_get tbl (i - 12)) (\<lambda>a. Ret (Inr a, st1)))))"

primrec lookup_blocks ::
    "'s kops \<Rightarrow> superblock \<Rightarrow> u64 \<Rightarrow> qstr \<Rightarrow> nat list \<Rightarrow> 's fs \<Rightarrow> ((int + (u8 list \<times> nat) option) \<times> 's fs) exec" where
  "lookup_blocks ops sb dir name [] st = Ret (Inr None, st)"
| "lookup_blocks ops sb dir name (i # is) st =
     exec_bind (dir_block_addr ops dir i st) (\<lambda>(r, st1).
       case r of Inl e \<Rightarrow> Ret (Inl e, st1)
       | Inr addr \<Rightarrow>
         if addr = 0 then Ret (Inr None, st1)
         else
           let lba = addr * sb_sectors_per_block sb;
               ((res, bytes), st2) = on_env (bdev_read ops (sb_bdev sb) (ucast lba) (ucast (sb_sectors_per_block sb))
                  (ucast (sb_block_size sb))) st1
           in if res < 0 then Ret (Inl res, st2)
              else exec_bind (search_dir_block bytes (unat (sb_block_size sb)) (str name) (ucast (qlen name)) 0) (\<lambda>e.
                case e of Inl err \<Rightarrow> Ret (Inl err, st2)
                | Inr (Some off) \<Rightarrow> Ret (Inr (Some (bytes, off)), st2)
                | Inr None \<Rightarrow> lookup_blocks ops sb dir name is st2))"

definition ext2_lookup :: "'s kops \<Rightarrow> u64 \<Rightarrow> u64 \<Rightarrow> 's fs \<Rightarrow> (int \<times> 's fs) exec" where
  "ext2_lookup ops dir child st =
     exec_bind (deref (inodes st) dir) (\<lambda>d.
     exec_bind (deref (supers st) (isb d)) (\<lambda>sb.
       let block_size = sb_block_size sb;
           (buf, st1) = on_env (ext2_alloc_block ops block_size) st;
           free = (\<lambda>st. st\<lparr>env := ext2_free_block ops buf block_size (env st)\<rparr>)
       in if buf = 0 then Ret (- ENOMEM, st1)
          else
            exec_bind (deref (dentries st1) child) (\<lambda>c.
            exec_bind (lookup_blocks ops sb dir (dname c) [0..<12 + unat block_size div 4] st1) (\<lambda>(r, st2).
              case r of Inl e \<Rightarrow> Ret (e, free st2)
              | Inr None \<Rightarrow> Ret (- ENOENT, free st2)
              | Inr (Some (bytes, off)) \<Rightarrow>
                  exec_bind (ext2_read_inode ops (sb_bdev sb) (isb d) (d_inode (dir_entry_at bytes off)) st2) (\<lambda>(ip, st3).
                    if IS_ERR ip then Ret (PTR_ERR ip, free st3)
                    else exec_bind (d_add child ip st3) (\<lambda>st4.
                         exec_bind (deref (dentries st4) child) (\<lambda>c.
                           Ret (0, free (st4\<lparr>dentries := (dentries st4)(child \<mapsto> c\<lparr>dsb := isb d\<rparr>)\<rparr>)))))))))"

section \<open>Files (file.c)\<close>

text \<open>The sector at which a block of the file starts, 0 for a hole.\<close>

definition block_lba :: "'s kops \<Rightarrow> superblock \<Rightarrow> u64 \<Rightarrow> u32 \<Rightarrow> 's fs \<Rightarrow> (u64 \<times> 's fs) exec" where
  "block_lba ops sb ip block st =
     (if block < 12 then exec_bind (deref (inodes st) ip) (\<lambda>i.
        exec_bind (array_get (direct_ptrs (raw_inode (i_info i))) (unat block)) (\<lambda>a.
          Ret (ucast (a * sb_sectors_per_block sb), st)))
      else if block < 12 + sb_block_size sb div 4
      then exec_bind (ext2_init_singly ops ip st) (\<lambda>(res, st1).
        exec_bind (deref (inodes st1) ip) (\<lambda>i.
          case singly (i_info i) of None \<Rightarrow> Oob
          | Some tbl \<Rightarrow> exec_bind (array_get tbl (unat (block - 12))) (\<lambda>a.
              Ret (ucast (a * sb_sectors_per_block sb), st1))))
      else Ret (0, st))"

text \<open>A failed transfer is tried once more.\<close>

definition read_retry :: "'s kops \<Rightarrow> superblock \<Rightarrow> u64 \<Rightarrow> 's fs \<Rightarrow> (int \<times> u8 list) \<times> 's fs" where
  "read_retry ops sb lba st =
     (let rd = on_env (bdev_read ops (sb_bdev sb) lba (ucast (sb_sectors_per_block sb)) (ucast (sb_block_size sb)));
          ((status, bytes), st1) = rd st
      in if status < 0 then rd st1 else ((status, bytes), st1))"

text \<open>
  The copying loop, over the numbers of the iterations: what it stores at \<^verbatim>\<open>buf\<close>, in order, or the
  error. \<open>off\<close> is \<^verbatim>\<open>*offset\<close>, which the loop does not change.
\<close>

primrec read_blocks ::
    "'s kops \<Rightarrow> superblock \<Rightarrow> u64 \<Rightarrow> u64 \<Rightarrow> u32 \<Rightarrow> nat list \<Rightarrow> u64 \<Rightarrow> u8 list \<Rightarrow> 's fs \<Rightarrow> ((int + u8 list) \<times> 's fs) exec" where
  "read_blocks ops sb ip off start [] remaining out st = Ret (Inr out, st)"
| "read_blocks ops sb ip off start (i # is) remaining out st =
     (let block = start + of_nat i; block_size = sb_block_size sb in
      exec_bind (block_lba ops sb ip block st) (\<lambda>(lba, st1).
        let ((status, bytes), st2) = (if lba = 0 then ((0, []), st1) else read_retry ops sb lba st1) in
        if status < 0 then Ret (Inl status, st2)
        else
          let first_offset = (if block = start then ucast (off mod ucast block_size) else 0);
              tocopy = u32_min (ucast remaining) (block_size - first_offset)
          in if lba \<noteq> 0 \<and> length bytes < unat first_offset + unat tocopy then Oob
             else
               let chunk = (if lba \<noteq> 0 then take (unat tocopy) (drop (unat first_offset) bytes) else replicate (unat tocopy) 0)
               in read_blocks ops sb ip off start is (remaining - ucast tocopy) (out @ chunk) st2))"

text \<open>The result, the bytes stored at \<^verbatim>\<open>buf\<close>, and the new value of \<^verbatim>\<open>*offset\<close>.\<close>

definition ext2_read_file :: "'s kops \<Rightarrow> vfile \<Rightarrow> u64 \<Rightarrow> u64 \<Rightarrow> 's fs \<Rightarrow> ((int \<times> u8 list \<times> u64) \<times> 's fs) exec" where
  "ext2_read_file ops f count off st =
     exec_bind (deref (dentries st) (fdentry f)) (\<lambda>d.
     exec_bind (deref (inodes st) (dinode d)) (\<lambda>i.
     exec_bind (deref (supers st) (dsb d)) (\<lambda>sb.
       let size = i_size (i_info i); block_size = sb_block_size sb in
       if count = 0 \<or> off \<ge> size then Ret ((0, [], off), st)
       else if block_size = 0 then Oob
       else
         let count = (if off + count > size then size - off else count);
             start_block = ucast (off div ucast block_size);
             end_block = ucast ((off + count + ucast block_size - 1) div ucast block_size);
             block_count = end_block - start_block :: u32;
             (block_buf, st1) = on_env (ext2_alloc_block ops block_size) st
         in if block_buf = 0 then Ret ((- ENOMEM, [], off), st1)
            else
              exec_bind (read_blocks ops sb (dinode d) off start_block [0..<unat block_count] count [] st1) (\<lambda>(r, st2).
                let st3 = st2\<lparr>env := ext2_free_block ops block_buf block_size (env st2)\<rparr> in
                case r of Inl status \<Rightarrow> Ret ((status, [], off), st3)
                | Inr out \<Rightarrow> Ret ((sint count, out, off + count), st3)))))"

section \<open>Mounting (super.c, ext2.c)\<close>

definition ext2_get_root :: "'s kops \<Rightarrow> block_dev \<Rightarrow> u64 \<Rightarrow> 's fs \<Rightarrow> (u64 \<times> 's fs) exec" where
  "ext2_get_root ops bdev sbp st =
     exec_bind (ext2_read_inode ops bdev sbp EXT2_ROOT_DIR_INO st) (\<lambda>(ip, st1).
       if ip = 0 then Ret (ERR_PTR (- ENOMEM), st1)
       else
         let (d, st2) = d_alloc ops 0 \<lparr>str_addr = 0, str = [0x2f, 0], qlen = 1, qhash = vfs_hash_name [0x2f, 0] 1\<rparr> st1 in
         if IS_ERR d then Ret (ERR_PTR (- ENOMEM), st2\<lparr>env := kfree_op ops ip (env st2), inodes := (inodes st2)(ip := None)\<rparr>)
         else exec_bind (deref (dentries st2) d) (\<lambda>de.
           exec_bind (d_add d ip (st2\<lparr>dentries := (dentries st2)(d \<mapsto> de\<lparr>dsb := sbp\<rparr>)\<rparr>)) (\<lambda>st3. Ret (d, st3))))"

abbreviation sizeof_superblock :: u64 where "sizeof_superblock \<equiv> 32"
abbreviation sizeof_ext2_fs_info :: u64 where "sizeof_ext2_fs_info \<equiv> 1048"

text \<open>
  The error exit. \<^verbatim>\<open>info\<close> comes from \<^verbatim>\<open>kmalloc\<close>, so \<^verbatim>\<open>info->bgd_table\<close> is what the memory held
  before, the argument \<open>junk\<close> of \<open>ext2_mount\<close>, until the table has been read.
\<close>

definition mount_exit_err :: "'s kops \<Rightarrow> u64 \<Rightarrow> u64 \<Rightarrow> u64 \<Rightarrow> 's fs \<Rightarrow> 's fs" where
  "mount_exit_err ops sbp infop table st =
     (let s = (if sbp \<noteq> 0 then kfree_op ops sbp (env st) else env st);
          s = (if infop \<noteq> 0 \<and> table \<noteq> 0 then kfree_op ops table s else s);
          s = (if infop \<noteq> 0 then kfree_op ops infop s else s)
      in st\<lparr>env := s, supers := (supers st)(sbp := None)\<rparr>)"

definition ext2_mount :: "'s kops \<Rightarrow> u64 \<Rightarrow> block_dev \<Rightarrow> 's fs \<Rightarrow> (u64 \<times> 's fs) exec" where
  "ext2_mount ops junk bdev st =
     (let (sbp, st1) = on_env (kmalloc_op ops sizeof_superblock) st in
      if sbp = 0 then Ret (ERR_PTR (- ENOMEM), mount_exit_err ops 0 0 0 st1)
      else
        let (infop, st2) = on_env (kmalloc_op ops sizeof_ext2_fs_info) st1 in
        if infop = 0 then Ret (ERR_PTR (- ENOMEM), mount_exit_err ops sbp 0 0 st2)
        else exec_bind (ext2_read_superblock ops bdev (env st2)) (\<lambda>((status, super), s3).
          if status < 0 then Ret (ERR_PTR status, mount_exit_err ops sbp infop junk (st2\<lparr>env := s3\<rparr>))
          else exec_bind (ext2_fill_bgd_table_info ops bdev
              \<lparr>fs_super = super, inodes_per_group = 0, block_per_group = 0, block_group_count = 0, bgd_addr = junk, bgd_table = []\<rparr> s3)
            (\<lambda>((status, info), s4).
              let st4 = st2\<lparr>env := s4\<rparr> in
              if status < 0 then Ret (ERR_PTR status, mount_exit_err ops sbp infop (bgd_addr info) st4)
              else
                let block_size = block_size_of super;
                    sb = \<lparr>sb_bdev = bdev, sb_root = 0, sb_block_size = block_size,
                          sb_sectors_per_block = block_size div sector_size bdev, sb_info = info\<rparr>
                in exec_bind (ext2_get_root ops bdev sbp (st4\<lparr>supers := (supers st4)(sbp \<mapsto> sb)\<rparr>)) (\<lambda>(root, st5).
                     if IS_ERR root then Ret (root, mount_exit_err ops sbp infop (bgd_addr info) st5)
                     else Ret (sbp, st5\<lparr>supers := (supers st5)(sbp \<mapsto> sb\<lparr>sb_root := root\<rparr>)\<rparr>)))))"

end
