(* ===== verification/Ext2_Read.thy ===== *)
theory Ext2_Read
  imports Ext2
begin

text \<open>
  What reading an ext2 file returns: the bytes of the file, as the block pointers of its inode place
  them on the disk.
\<close>

section \<open>The contents of a file\<close>

text \<open>\<open>bk lba\<close> is the block that starts at sector \<open>lba\<close>.\<close>

definition disk_holds :: "'s kops \<Rightarrow> superblock \<Rightarrow> (u64 \<Rightarrow> u8 list) \<Rightarrow> bool" where
  "disk_holds ops sb bk \<longleftrightarrow> (\<forall>lba s. length (bk lba) = unat (sb_block_size sb) \<and>
     (\<exists>s'. bdev_read ops (sb_bdev sb) lba (ucast (sb_sectors_per_block sb)) (ucast (sb_block_size sb)) s = ((0, bk lba), s')))"

definition singly_table :: "superblock \<Rightarrow> (u64 \<Rightarrow> u8 list) \<Rightarrow> ext2_inode \<Rightarrow> u32 list" where
  "singly_table sb bk raw = u32_array (bk (ucast (singly_ptr raw * sb_sectors_per_block sb))) (sb_block_size sb)"

definition block_ptr :: "superblock \<Rightarrow> (u64 \<Rightarrow> u8 list) \<Rightarrow> ext2_inode \<Rightarrow> nat \<Rightarrow> u32" where
  "block_ptr sb bk raw b =
     (if b < 12 then direct_ptrs raw ! b
      else if b < 12 + unat (sb_block_size sb) div 4 then singly_table sb bk raw ! (b - 12) else 0)"

definition file_byte :: "superblock \<Rightarrow> (u64 \<Rightarrow> u8 list) \<Rightarrow> ext2_inode \<Rightarrow> nat \<Rightarrow> u8" where
  "file_byte sb bk raw n =
     (let p = block_ptr sb bk raw (n div unat (sb_block_size sb)) in
      if p = 0 then 0 else bk (ucast (p * sb_sectors_per_block sb)) ! (n mod unat (sb_block_size sb)))"

text \<open>The pointers do not overflow when they are turned into sectors.\<close>

definition image_ok :: "superblock \<Rightarrow> (u64 \<Rightarrow> u8 list) \<Rightarrow> ext2_inode \<Rightarrow> bool" where
  "image_ok sb bk raw \<longleftrightarrow> 0 < sb_block_size sb \<and> unat (sb_block_size sb) < 2 ^ 31 \<and> 0 < sb_sectors_per_block sb
     \<and> length (direct_ptrs raw) = 12
     \<and> (\<forall>b < 12 + unat (sb_block_size sb) div 4. unat (block_ptr sb bk raw b) * unat (sb_sectors_per_block sb) < 2 ^ 32)"

text \<open>The inode at \<open>ip\<close> is \<open>raw\<close>, and its table of indirect blocks is absent or the one on the disk.\<close>

definition inode_holds :: "superblock \<Rightarrow> (u64 \<Rightarrow> u8 list) \<Rightarrow> ext2_inode \<Rightarrow> u64 \<Rightarrow> 's fs \<Rightarrow> bool" where
  "inode_holds sb bk raw ip st \<longleftrightarrow> ip \<noteq> 0 \<and> (\<exists>i. inodes st ip = Some i \<and> raw_inode (i_info i) = raw
     \<and> isb i \<noteq> 0 \<and> supers st (isb i) = Some sb
     \<and> (singly (i_info i) = None \<or> singly (i_info i) = Some (singly_table sb bk raw)))"

lemma inode_holds_env [simp]: "inode_holds sb bk raw ip (st\<lparr>env := s\<rparr>) = inode_holds sb bk raw ip st"
  by (simp add: inode_holds_def)

lemma lba_zero_iff:
  fixes p spb :: u32
  assumes "unat p * unat spb < 2 ^ 32" "0 < spb"
  shows "(ucast (p * spb) :: u64) = 0 \<longleftrightarrow> p = 0"
proof -
  have "unat (p * spb) = unat p * unat spb" using assms(1) by (simp add: unat_word_ariths)
  moreover have "0 < unat spb" using assms(2) by (simp add: word_less_nat_alt)
  ultimately have "unat (p * spb) = 0 \<longleftrightarrow> unat p = 0" by simp
  then show ?thesis by (metis unat_0 unat_eq_zero unat_ucast_u64)
qed

section \<open>Finding a block\<close>

lemma init_singly_holds:
  assumes d: "disk_holds ops sb bk" and h: "inode_holds sb bk raw ip st"
  shows "\<exists>res st'. ext2_init_singly ops ip st = Ret (res, st') \<and> inode_holds sb bk raw ip st' \<and>
    (res = 0 \<and> (\<exists>i. inodes st' ip = Some i \<and> singly (i_info i) = Some (singly_table sb bk raw))
     \<or> res = - ENOMEM \<and> fst (ext2_alloc_block ops (sb_block_size sb) (env st)) = 0
       \<and> (\<exists>i. inodes st' ip = Some i \<and> singly (i_info i) = None))"
proof -
  obtain i where i: "ip \<noteq> 0" "inodes st ip = Some i" "raw_inode (i_info i) = raw" "isb i \<noteq> 0" "supers st (isb i) = Some sb"
    "singly (i_info i) = None \<or> singly (i_info i) = Some (singly_table sb bk raw)" using h by (auto simp: inode_holds_def)
  show ?thesis
  proof (cases "singly (i_info i) = None")
    case False
    with i h show ?thesis by (auto simp: ext2_init_singly_def deref_def)
  next
    case True
    obtain a s1 where a: "ext2_alloc_block ops (sb_block_size sb) (env st) = (a, s1)" by force
    obtain s2 where r: "bdev_read ops (sb_bdev sb) (ucast (singly_ptr raw * sb_sectors_per_block sb))
        (ucast (sb_sectors_per_block sb)) (ucast (sb_block_size sb)) s1
      = ((0, bk (ucast (singly_ptr raw * sb_sectors_per_block sb))), s2)"
      using d by (auto simp: disk_holds_def)
    from True i h a r show ?thesis
      by (cases "a = 0") (auto simp: ext2_init_singly_def deref_def inode_holds_def singly_table_def)
  qed
qed

lemma block_lba_holds:
  assumes d: "disk_holds ops sb bk" and ok: "image_ok sb bk raw" and h: "inode_holds sb bk raw ip st"
  shows "(\<exists>st'. block_lba ops sb ip b st = Ret (ucast (block_ptr sb bk raw (unat b) * sb_sectors_per_block sb), st')
      \<and> inode_holds sb bk raw ip st')
    \<or> block_lba ops sb ip b st = Oob \<and> 12 \<le> unat b \<and> fst (ext2_alloc_block ops (sb_block_size sb) (env st)) = 0"
proof -
  obtain i where i: "ip \<noteq> 0" "inodes st ip = Some i" "raw_inode (i_info i) = raw" using h by (auto simp: inode_holds_def)
  have bs: "unat (12 + sb_block_size sb div 4) = 12 + unat (sb_block_size sb) div 4"
  proof -
    have "unat (sb_block_size sb) div 4 < 2 ^ 31" using ok div_le_dividend[of "unat (sb_block_size sb)" 4] unfolding image_ok_def by linarith
    then show ?thesis by (simp add: unat_word_ariths unat_div)
  qed
  consider "b < 12" | "\<not> b < 12" "b < 12 + sb_block_size sb div 4" | "\<not> b < 12" "\<not> b < 12 + sb_block_size sb div 4" by blast
  then show ?thesis
  proof cases
    case 1
    then have "unat b < 12" by (simp add: word_less_nat_alt)
    with 1 i h ok show ?thesis by (auto simp: block_lba_def deref_def image_ok_def block_ptr_def)
  next
    case 2
    have ub: "12 \<le> unat b" "unat b < 12 + unat (sb_block_size sb) div 4" using 2 bs by (simp_all add: word_less_nat_alt)
    have sub: "unat (b - 12) = unat b - 12" using ub(1) by (simp add: unat_sub word_le_nat_alt)
    have len: "length (singly_table sb bk raw) = unat (sb_block_size sb) div 4" by (simp add: singly_table_def u32_array_def)
    from init_singly_holds[OF d h] obtain res st' where r: "ext2_init_singly ops ip st = Ret (res, st')" "inode_holds sb bk raw ip st'"
      "res = 0 \<and> (\<exists>i. inodes st' ip = Some i \<and> singly (i_info i) = Some (singly_table sb bk raw))
       \<or> res = - ENOMEM \<and> fst (ext2_alloc_block ops (sb_block_size sb) (env st)) = 0
         \<and> (\<exists>i. inodes st' ip = Some i \<and> singly (i_info i) = None)" by blast
    from r(3) show ?thesis
    proof (elim disjE conjE exE)
      fix j assume "inodes st' ip = Some j" "singly (i_info j) = Some (singly_table sb bk raw)"
      with 2 r(1,2) i(1) ub sub len show ?thesis by (simp add: block_lba_def deref_def block_ptr_def)
    next
      fix j assume "inodes st' ip = Some j" "singly (i_info j) = None" "fst (ext2_alloc_block ops (sb_block_size sb) (env st)) = 0"
      with 2 r(1) i(1) ub show ?thesis by (simp add: block_lba_def deref_def)
    qed
  next
    case 3
    with bs have "\<not> unat b < 12 + unat (sb_block_size sb) div 4" by (simp add: word_less_nat_alt)
    with 3 h show ?thesis by (simp add: block_lba_def block_ptr_def)
  qed
qed

section \<open>Copying\<close>

lemma div_mod_block: "r < b \<Longrightarrow> (q * b + r) div b = q" "r < b \<Longrightarrow> (q * b + r) mod b = r" for b :: nat
  by simp_all

lemma file_bytes_block:
  fixes raw :: ext2_inode
  assumes d: "disk_holds ops sb bk" and m: "p mod unat (sb_block_size sb) + m \<le> unat (sb_block_size sb)"
  defines "b \<equiv> block_ptr sb bk raw (p div unat (sb_block_size sb))"
  shows "map (file_byte sb bk raw) [p..<p + m] =
    (if b = 0 then replicate m 0
     else take m (drop (p mod unat (sb_block_size sb)) (bk (ucast (b * sb_sectors_per_block sb)))))"
proof -
  let ?bs = "unat (sb_block_size sb)"
  have len: "length (bk lba) = ?bs" for lba using d by (simp add: disk_holds_def)
  have dm: "(p + j) div ?bs = p div ?bs" "(p + j) mod ?bs = p mod ?bs + j" if "j < m" for j
  proof -
    have "p mod ?bs + j < ?bs" using that m by simp
    moreover have "p + j = p div ?bs * ?bs + (p mod ?bs + j)" using div_mult_mod_eq[of p ?bs] by linarith
    ultimately show "(p + j) div ?bs = p div ?bs" "(p + j) mod ?bs = p mod ?bs + j"
      using div_mod_block[of "p mod ?bs + j" ?bs "p div ?bs"] by metis+
  qed
  show ?thesis
    by (rule nth_equalityI) (use m in \<open>auto simp: file_byte_def Let_def dm b_def len\<close>)
qed

text \<open>The position in the file after \<open>k\<close> iterations.\<close>

definition read_pos :: "nat \<Rightarrow> nat \<Rightarrow> nat \<Rightarrow> nat \<Rightarrow> nat" where
  "read_pos bs off n k = min (off + n) (max off ((off div bs + k) * bs))"

lemma read_pos_step:
  assumes "0 < bs" "(off div bs + k) * bs < off + n" "0 < n"
  defines "p \<equiv> read_pos bs off n k"
  shows "p div bs = off div bs + k" "p mod bs = (if k = 0 then off mod bs else 0)" "off \<le> p" "p < off + n"
    "read_pos bs off n (Suc k) = p + min (off + n - p) (bs - p mod bs)"
proof -
  have off: "off = off div bs * bs + off mod bs" "off mod bs < bs" using assms(1) by simp_all
  have p: "p = (if k = 0 then off else (off div bs + k) * bs)"
  proof (cases k)
    case (Suc j)
    then have "off div bs * bs + bs \<le> (off div bs + k) * bs" by (simp add: algebra_simps)
    then have "off \<le> (off div bs + k) * bs" using off by linarith
    with Suc assms(2) show ?thesis by (simp add: p_def read_pos_def)
  qed (use off assms(3) in \<open>simp add: p_def read_pos_def\<close>)
  show dv: "p div bs = off div bs + k" using assms(1) by (simp add: p)
  show md: "p mod bs = (if k = 0 then off mod bs else 0)" by (simp add: p)
  show "off \<le> p" by (simp add: p_def read_pos_def)
  show lt: "p < off + n" using p assms(2,3) by simp
  have "(off div bs + Suc k) * bs = p + (bs - p mod bs)"
    using div_mult_mod_eq[of p bs] dv mod_less_divisor[OF assms(1), of p] by (simp add: algebra_simps)
  then show "read_pos bs off n (Suc k) = p + min (off + n - p) (bs - p mod bs)"
    using lt \<open>off \<le> p\<close> unfolding read_pos_def[of bs off n "Suc k"] by linarith
qed

lemma read_retry_holds:
  assumes "disk_holds ops sb bk"
  shows "\<exists>s'. read_retry ops sb lba st = ((0, bk lba), st\<lparr>env := s'\<rparr>)"
proof -
  obtain s' where "bdev_read ops (sb_bdev sb) lba (ucast (sb_sectors_per_block sb)) (ucast (sb_block_size sb)) (env st) = ((0, bk lba), s')"
    using assms by (auto simp: disk_holds_def)
  then show ?thesis by (auto simp: read_retry_def on_env_def)
qed

text \<open>The word arithmetic of one iteration.\<close>

lemma chunk_sizes:
  fixes off :: u64 and bs :: u32
  assumes bs: "0 < bs" and n: "unat off + n < 2 ^ 32" and k: "(unat off div unat bs + k) * unat bs < unat off + n" "0 < n"
  defines "p \<equiv> read_pos (unat bs) (unat off) n k"
  defines "start \<equiv> ucast (off div ucast bs) :: u32"
  defines "fo \<equiv> (if start + of_nat k = start then ucast (off mod ucast bs) else 0 :: u32)"
  shows "unat (start + of_nat k) = p div unat bs" "unat fo = p mod unat bs"
    "unat (u32_min (ucast (of_nat (unat off + n - p) :: u64)) (bs - fo)) = min (unat off + n - p) (unat bs - p mod unat bs)"
proof -
  have b: "0 < unat bs" using bs by (simp add: word_less_nat_alt)
  note st = read_pos_step[OF b k, folded p_def]
  have "unat off div unat bs + k \<le> (unat off div unat bs + k) * unat bs" using b by simp
  then have lt: "unat off div unat bs + k < 2 ^ 32" using k n by linarith
  have s: "unat start = unat off div unat bs"
    using lt by (simp add: start_def unat_ucast_u32 unat_div)
  have "unat (start + of_nat k) = unat off div unat bs + k"
    using lt s by (simp add: unat_word_ariths unat_of_nat)
  note sk = this
  with st(1) show "unat (start + of_nat k) = p div unat bs" by simp
  have eq: "start + of_nat k = start \<longleftrightarrow> k = 0"
  proof
    assume "start + of_nat k = start"
    with sk s show "k = 0" by simp
  qed simp
  have "unat off mod unat bs < 2 ^ 32" using n by (meson less_le_trans mod_less_eq_dividend le_add1 le_less_trans)
  then show fo: "unat fo = p mod unat bs"
    using st(2) eq by (simp add: fo_def unat_ucast_u32 unat_mod)
  have "unat off + n - p < 2 ^ 32" using n by linarith
  then have rem: "unat (ucast (of_nat (unat off + n - p) :: u64) :: u32) = unat off + n - p"
    by (simp add: unat_ucast_u32 unat_of_nat)
  have "unat (bs - fo) = unat bs - p mod unat bs"
    using fo b by (subst unat_sub) (simp_all add: word_le_nat_alt less_imp_le)
  with rem show "unat (u32_min (ucast (of_nat (unat off + n - p) :: u64)) (bs - fo)) = min (unat off + n - p) (unat bs - p mod unat bs)"
    by (simp add: u32_min_def word_less_nat_alt min_def)
qed

lemma block_ptr_lba:
  assumes "image_ok sb bk raw"
  shows "(ucast (block_ptr sb bk raw b * sb_sectors_per_block sb) :: u64) = 0 \<longleftrightarrow> block_ptr sb bk raw b = 0"
proof (cases "b < 12 + unat (sb_block_size sb) div 4")
  case True
  with assms show ?thesis by (intro lba_zero_iff) (simp_all add: image_ok_def)
qed (simp add: block_ptr_def)

text \<open>The loop copies the rest of the request, or fails to allocate the table of indirect blocks.\<close>

lemma read_blocks_holds:
  fixes off :: u64
  assumes d: "disk_holds ops sb bk" and ok: "image_ok sb bk raw" and n: "unat off + n < 2 ^ 32" "0 < n"
    and cnt: "\<And>k. k < cnt \<Longrightarrow> (unat off div unat (sb_block_size sb) + k) * unat (sb_block_size sb) < unat off + n"
  defines "start \<equiv> ucast (off div ucast (sb_block_size sb)) :: u32"
  shows "k \<le> cnt \<Longrightarrow> inode_holds sb bk raw ip st \<Longrightarrow>
    (\<exists>st'. read_blocks ops sb ip off start [k..<cnt] (of_nat (unat off + n - read_pos (unat (sb_block_size sb)) (unat off) n k))
        (map (file_byte sb bk raw) [unat off..<read_pos (unat (sb_block_size sb)) (unat off) n k]) st
      = Ret (Inr (map (file_byte sb bk raw) [unat off..<read_pos (unat (sb_block_size sb)) (unat off) n cnt]), st')
        \<and> inode_holds sb bk raw ip st')
    \<or> read_blocks ops sb ip off start [k..<cnt] (of_nat (unat off + n - read_pos (unat (sb_block_size sb)) (unat off) n k))
        (map (file_byte sb bk raw) [unat off..<read_pos (unat (sb_block_size sb)) (unat off) n k]) st = Oob
      \<and> (\<exists>s. fst (ext2_alloc_block ops (sb_block_size sb) s) = 0) \<and> 12 * unat (sb_block_size sb) < unat off + n"
proof (induction "cnt - k" arbitrary: k st)
  case 0
  then show ?case by auto
next
  case (Suc m)
  let ?bs = "unat (sb_block_size sb)" and ?fb = "file_byte sb bk raw"
  define p where "p = read_pos ?bs (unat off) n k"
  have k: "k < cnt" using Suc.hyps(2) by simp
  have bs: "0 < sb_block_size sb" "0 < ?bs" using ok by (simp_all add: image_ok_def word_less_nat_alt)
  note sz = chunk_sizes[OF bs(1) n(1) cnt[OF k] n(2), folded p_def start_def]
  note st = read_pos_step[OF bs(2) cnt[OF k] n(2), folded p_def]
  define fo :: u32 where "fo = (if start + of_nat k = start then ucast (off mod ucast (sb_block_size sb)) else 0)"
  define c where "c = min (unat off + n - p) (?bs - p mod ?bs)"
  define tc where "tc = u32_min (ucast (of_nat (unat off + n - p) :: u64)) (sb_block_size sb - fo)"
  have tc: "unat tc = c" "unat fo = p mod ?bs" using sz(2,3) by (simp_all add: tc_def c_def fo_def)
  define b where "b = block_ptr sb bk raw (p div ?bs)"
  define lba :: u64 where "lba = ucast (b * sb_sectors_per_block sb)"
  have upt: "[k..<cnt] = k # [Suc k..<cnt]" using k by (rule upt_conv_Cons)
  have fit: "p mod ?bs + c \<le> ?bs" using mod_less_divisor[OF bs(2), of p] by (simp add: c_def)
  have z: "lba = 0 \<longleftrightarrow> b = 0" unfolding lba_def b_def by (rule block_ptr_lba[OF ok])
  have len: "length (bk x) = ?bs" for x using d by (simp add: disk_holds_def)
  have chunk: "map ?fb [p..<p + c] = (if lba \<noteq> 0 then take c (drop (p mod ?bs) (bk lba)) else replicate c 0)"
    using file_bytes_block[OF d fit, of raw] z by (simp add: lba_def b_def)
  have app: "map ?fb [unat off..<p] @ map ?fb [p..<p + c] = map ?fb [unat off..<p + c]"
    using st(3) upt_add_eq_append[of "unat off" p c] by simp
  have rest: "(of_nat (unat off + n - p) :: u64) - ucast tc = of_nat (unat off + n - (p + c))"
  proof -
    have "(ucast tc :: u64) = of_nat c" using of_nat_unat[of tc, where ?'a = u64] by (simp add: tc(1))
    then show ?thesis by (simp add: c_def of_nat_diff[symmetric] diff_diff_left)
  qed
  from block_lba_holds[OF d ok Suc.prems(2), of "start + of_nat k"] show ?case
  proof (elim disjE exE conjE)
    fix st1 assume l: "block_lba ops sb ip (start + of_nat k) st
        = Ret (ucast (block_ptr sb bk raw (unat (start + of_nat k)) * sb_sectors_per_block sb), st1)"
      and h: "inode_holds sb bk raw ip st1"
    have l': "block_lba ops sb ip (start + of_nat k) st = Ret (lba, st1)" using l sz(1) by (simp add: lba_def b_def)
    obtain s2 where r: "read_retry ops sb lba st1 = ((0, bk lba), st1\<lparr>env := s2\<rparr>)" using read_retry_holds[OF d] by blast
    define st2 where "st2 = (if lba = 0 then st1 else st1\<lparr>env := s2\<rparr>)"
    have h2: "inode_holds sb bk raw ip st2" using h by (simp add: st2_def)
    have e: "read_blocks ops sb ip off start [k..<cnt] (of_nat (unat off + n - p)) (map ?fb [unat off..<p]) st
        = read_blocks ops sb ip off start [Suc k..<cnt] (of_nat (unat off + n - (p + c))) (map ?fb [unat off..<p + c]) st2"
      unfolding app[symmetric] chunk upt read_blocks.simps Let_def l' exec_bind.simps prod.case fo_def[symmetric] tc_def[symmetric] tc rest
      using r fit len[of lba] by (cases "lba = 0") (simp_all add: fo_def[symmetric] tc_def[symmetric] tc rest st2_def)
    have "k < cnt \<Longrightarrow> Suc k \<le> cnt" by simp
    with Suc.hyps(1)[of "Suc k" st2] Suc.hyps(2) h2 k show ?thesis
      unfolding p_def[symmetric] e using st(5) by (simp add: c_def)
  next
    assume "block_lba ops sb ip (start + of_nat k) st = Oob" "12 \<le> unat (start + of_nat k)"
      "fst (ext2_alloc_block ops (sb_block_size sb) (env st)) = 0"
    moreover have "12 * ?bs < unat off + n"
    proof -
      have "12 * ?bs \<le> p div ?bs * ?bs" using \<open>12 \<le> unat (start + of_nat k)\<close> sz(1) by simp
      also have "\<dots> \<le> p" by simp
      finally show ?thesis using st(4) by linarith
    qed
    ultimately show ?thesis by (auto simp: upt Let_def)
  qed
qed

section \<open>Reading a file\<close>

text \<open>The blocks that a request touches.\<close>

lemma block_range:
  fixes off n bs :: nat
  assumes "0 < bs" "0 < n"
  defines "e \<equiv> (off + n + bs - 1) div bs"
  shows "off div bs \<le> e" "k < e - off div bs \<Longrightarrow> (off div bs + k) * bs < off + n" "off + n \<le> e * bs" "e \<le> off + n"
proof -
  have e: "e * bs \<le> off + n + bs - 1" unfolding e_def by (rule div_times_less_eq_dividend)
  have e': "off + n + bs - 1 < e * bs + bs"
    using mod_less_divisor[OF assms(1), of "off + n + bs - 1"] div_mult_mod_eq[of "off + n + bs - 1" bs] unfolding e_def by linarith
  then show "off + n \<le> e * bs" by linarith
  show le: "off div bs \<le> e" unfolding e_def using assms by (intro div_le_mono) simp
  show "(off div bs + k) * bs < off + n" if "k < e - off div bs"
  proof -
    have "Suc (off div bs + k) \<le> e" using that le by linarith
    then have "Suc (off div bs + k) * bs \<le> e * bs" by (rule mult_le_mono1)
    then show ?thesis using e assms(1) by simp
  qed
  show "e \<le> off + n"
  proof (rule ccontr)
    assume "\<not> e \<le> off + n"
    then have "(off + n + 1) * bs \<le> e * bs" by (intro mult_le_mono1) simp
    moreover have "off + n + bs \<le> (off + n + 1) * bs" using assms(1) by simp
    ultimately show False using e assms(1) by linarith
  qed
qed

lemma block_count_value:
  fixes off cnt :: u64 and bs :: u32
  assumes "0 < bs" "unat bs < 2 ^ 31" "0 < unat cnt" "unat off + unat cnt < 2 ^ 32"
  shows "unat (ucast ((off + cnt + ucast bs - 1) div ucast bs) - ucast (off div ucast bs) :: u32)
    = (unat off + unat cnt + unat bs - 1) div unat bs - unat off div unat bs"
proof -
  have b: "0 < unat bs" using assms(1) by (simp add: word_less_nat_alt)
  note r = block_range[OF b assms(3), where off = "unat off"]
  have "unat (off + cnt + ucast bs) = unat off + unat cnt + unat bs" using assms by (simp add: unat_word_ariths)
  then have "unat (off + cnt + ucast bs - 1) = unat off + unat cnt + unat bs - 1"
    using b by (subst unat_sub) (simp_all add: word_le_nat_alt)
  then have e: "unat (ucast ((off + cnt + ucast bs - 1) div ucast bs) :: u32) = (unat off + unat cnt + unat bs - 1) div unat bs"
    using r(4) assms(4) by (simp add: unat_ucast_u32 unat_div)
  have "unat off div unat bs < 2 ^ 32" using r(1,4) assms(4) by linarith
  then have s: "unat (ucast (off div ucast bs) :: u32) = unat off div unat bs" by (simp add: unat_ucast_u32 unat_div)
  show ?thesis using e s r(1) by (subst unat_sub) (simp_all add: word_le_nat_alt)
qed


text \<open>A disk whose sectors are filled with their own number, and a file of 3000 bytes with a hole.\<close>

definition witness_ops :: "unit kops" where
  "witness_ops = \<lparr>kmalloc_op = \<lambda>sz s. (0x1000, s), kfree_op = \<lambda>a s. s, page_op = \<lambda>s. (0x2000, s), free_page_op = \<lambda>a s. s,
     disk_op = \<lambda>p lba nr len s. ((0, replicate (unat len) (ucast lba)), s)\<rparr>"

definition witness_super :: superblock where
  "witness_super = \<lparr>sb_bdev = Ahci_dev [] 512 1000 0, sb_root = 0, sb_block_size = 1024, sb_sectors_per_block = 2,
     sb_info = \<lparr>fs_super = superblock_at [] 0, inodes_per_group = 8, block_per_group = 8, block_group_count = 1, bgd_addr = 0, bgd_table = []\<rparr>\<rparr>"

definition witness_raw :: ext2_inode where
  "witness_raw = (inode_at [] 0)\<lparr>sizel := 3000, direct_ptrs := [10, 0, 12, 0, 0, 0, 0, 0, 0, 0, 0, 0]\<rparr>"

definition witness_file :: vfile where
  "witness_file = \<lparr>fdentry = 0x50, pos = 1000, ref_count = 1, fops = Ext2_file_fops\<rparr>"

definition witness_dentry :: dentry where
  "witness_dentry = \<lparr>dname = \<lparr>str_addr = 0, str = [], qlen = 0, qhash = 0\<rparr>, dinode = 0x60, dparent = 0, first_child = 0,
     next_sibling = 0, dsb = 0x70\<rparr>"

definition witness_fs :: "unit fs" where
  "witness_fs = \<lparr>env = (), supers = [0x70 \<mapsto> witness_super],
     inodes = [0x60 \<mapsto> \<lparr>ino = 12, isize = 3000, imode = S_IFREG, isb = 0x70, iops = Ext2_file_iops, ifops = Ext2_file_fops,
       i_info = \<lparr>raw_inode = witness_raw, i_size = 3000, singly = None\<rparr>\<rparr>],
     dentries = [0x50 \<mapsto> witness_dentry],
     files = Map.empty, vfs_root = 0\<rparr>"

definition witness_block :: "u64 \<Rightarrow> u8 list" where
  "witness_block lba = replicate 1024 (ucast lba)"

lemma witness_image: "image_ok witness_super witness_block witness_raw"
proof -
  have z: "le32 (replicate n 0) i = 0" for n i by (simp add: le32_def byte_at_def)
  have "singly_ptr witness_raw = 0" by (simp add: witness_raw_def inode_at_def le32_def byte_at_def)
  then have t: "b < 256 \<Longrightarrow> singly_table witness_super witness_block witness_raw ! b = 0" for b
    by (simp add: singly_table_def u32_array_def witness_super_def witness_block_def z del: upt_rec_numeral)
  have "unat (block_ptr witness_super witness_block witness_raw b) \<le> 12" for b
    using t[of "b - 12"] unfolding block_ptr_def by (auto simp: witness_raw_def nth_Cons' witness_super_def)
  then have "unat (block_ptr witness_super witness_block witness_raw b) * 2 < 2 ^ 32" for b 
    by (rule le_less_trans[OF mult_le_mono1]) simp
  then show ?thesis by (simp add: image_ok_def) (simp add: witness_super_def witness_raw_def)
qed


end
