(* ===== verification/Ext2_Dir.thy ===== *)
theory Ext2_Dir
  imports Ext2
begin

text \<open>
  Looking up a name in a block of a directory: the search over the packed entries agrees with the
  lookup in the list of names and inode numbers that the block encodes.
\<close>

section \<open>The format of a directory block\<close>

record entry_spec =
  s_ino :: u32
  s_size :: u16
  s_type :: u8
  s_name :: "u8 list"

definition encode_entry :: "entry_spec \<Rightarrow> u8 list" where
  "encode_entry e =
     [ucast (s_ino e), ucast (drop_bit 8 (s_ino e)), ucast (drop_bit 16 (s_ino e)), ucast (drop_bit 24 (s_ino e)),
      ucast (s_size e), ucast (drop_bit 8 (s_size e)), of_nat (length (s_name e)), s_type e]
     @ s_name e @ replicate (unat (s_size e) - 8 - length (s_name e)) 0"

definition entry_ok :: "entry_spec \<Rightarrow> bool" where
  "entry_ok e \<longleftrightarrow> length (s_name e) < 256 \<and> 8 + length (s_name e) \<le> unat (s_size e)"

definition encode_block :: "entry_spec list \<Rightarrow> u8 list" where
  "encode_block es = concat (map encode_entry es)"

text \<open>The directory that a block encodes: the entries in use.\<close>

definition dir_of :: "entry_spec list \<Rightarrow> (u8 list \<times> u32) list" where
  "dir_of es = map (\<lambda>e. (s_name e, s_ino e)) (filter (\<lambda>e. s_ino e \<noteq> 0) es)"

lemma length_encode_entry: "entry_ok e \<Longrightarrow> length (encode_entry e) = unat (s_size e)"
  by (auto simp: encode_entry_def entry_ok_def)

section \<open>Decoding\<close>

lemma byte_at_append: "byte_at (pre @ xs) (length pre + k) = byte_at xs k"
  by (simp add: byte_at_def nth_append)

lemma le32_append: "le32 (pre @ xs) (length pre + k) = le32 xs k"
  unfolding le32_def add.assoc byte_at_append ..

lemma le16_append: "le16 (pre @ xs) (length pre + k) = le16 xs k"
  unfolding le16_def add.assoc byte_at_append ..

lemma le32_bytes:
  "le32 (ucast x # ucast (drop_bit 8 x) # ucast (drop_bit 16 x) # ucast (drop_bit 24 x) # xs) 0 = x"
proof (rule bit_word_eqI)
  fix n assume "n < LENGTH(32)"
  then consider "n < 8" | "8 \<le> n" "n < 16" | "16 \<le> n" "n < 24" | "24 \<le> n" "n < 32" by fastforce
  then show "bit (le32 (ucast x # ucast (drop_bit 8 x) # ucast (drop_bit 16 x) # ucast (drop_bit 24 x) # xs) 0) n = bit x n"
    by cases (auto simp: le32_def byte_at_def bit_simps)
qed

lemma le16_bytes: "le16 (a # b # c # d # ucast x # ucast (drop_bit 8 x) # xs) 4 = x"
proof (rule bit_word_eqI)
  fix n assume "n < LENGTH(16)"
  then consider "n < 8" | "8 \<le> n" "n < 16" by fastforce
  then show "bit (le16 (a # b # c # d # ucast x # ucast (drop_bit 8 x) # xs) 4) n = bit x n"
    by cases (auto simp: le16_def byte_at_def bit_simps)
qed

lemma dir_entry_encoded:
  "dir_entry_at (pre @ encode_entry e @ rest) (length pre) =
     \<lparr>d_inode = s_ino e, entry_size = s_size e, name_len_lower = of_nat (length (s_name e)), d_type = s_type e\<rparr>"
proof -
  let ?b = "pre @ encode_entry e @ rest"
  have "le32 ?b (length pre) = s_ino e"
    using le32_append[of pre "encode_entry e @ rest" 0] by (simp add: encode_entry_def le32_bytes)
  moreover have "le16 ?b (length pre + 4) = s_size e"
    using le16_append[of pre "encode_entry e @ rest" 4] by (simp add: encode_entry_def le16_bytes)
  moreover have "byte_at ?b (length pre + 6) = of_nat (length (s_name e))" "byte_at ?b (length pre + 7) = s_type e"
    unfolding byte_at_append by (simp_all add: encode_entry_def byte_at_def)
  ultimately show ?thesis by (simp add: dir_entry_at_def)
qed

lemma name_matches_run:
  "length nm = n \<Longrightarrow> n \<le> length xs \<Longrightarrow> name_matches (pre @ nm @ rest) (length pre) xs n = Ret (nm = take n xs)"
proof (induction n arbitrary: pre nm xs)
  case (Suc n)
  obtain c nm' where nm: "nm = c # nm'" using Suc.prems(1) by (cases nm) auto
  obtain d xs' where xs: "xs = d # xs'" using Suc.prems(2) by (cases xs) auto
  have "name_matches ((pre @ [c]) @ nm' @ rest) (length (pre @ [c])) xs' n = Ret (nm' = take n xs')"
    using Suc.prems nm xs by (intro Suc.IH) auto
  then show ?case by (auto simp: nm xs nth_append)
qed simp

lemma entry_matches_encoded:
  assumes e: "entry_ok e" and name: "length name < 256"
  shows "entry_matches (pre @ encode_entry e @ rest) (length pre) (name @ [0]) (of_nat (length name))
    = Ret (s_ino e \<noteq> 0 \<and> s_name e = name)"
proof -
  define hd where "hd = take 8 (encode_entry e)"
  define tail where "tail = replicate (unat (s_size e) - 8 - length (s_name e)) (0 :: u8) @ rest"
  have split: "pre @ encode_entry e @ rest = (pre @ hd) @ s_name e @ tail" "length hd = 8"
    by (simp_all add: hd_def tail_def encode_entry_def)
  have len: "(of_nat (length (s_name e)) :: u8) = of_nat (length name) \<longleftrightarrow> length (s_name e) = length name"
    using e name by (simp add: entry_ok_def word_unat_eq_iff unat_of_nat)
  have un: "unat (of_nat (length name) :: u8) = length name" using name by (simp add: unat_of_nat)
  show ?thesis
  proof (cases "length (s_name e) = length name")
    case True
    have "name_matches ((pre @ hd) @ s_name e @ tail) (length (pre @ hd)) (name @ [0]) (length name)
        = Ret (s_name e = take (length name) (name @ [0]))"
      using True by (intro name_matches_run) auto
    then have "name_matches (pre @ encode_entry e @ rest) (length pre + 8) (name @ [0]) (length name) = Ret (s_name e = name)"
      using split by simp
    then show ?thesis unfolding entry_matches_def dir_entry_encoded Let_def using True by (simp add: un)
  next
    case False
    then show ?thesis unfolding entry_matches_def dir_entry_encoded Let_def using len by auto
  qed
qed

section \<open>The search\<close>

lemma search_encoded:
  assumes "\<forall>e \<in> set es. entry_ok e" "length name < 256"
  shows "\<exists>r. search_dir_block (pre @ encode_block es) (length (pre @ encode_block es)) (name @ [0]) (of_nat (length name)) (length pre)
      = Ret (Inr r) \<and> map_of (dir_of es) name = map_option (\<lambda>off. d_inode (dir_entry_at (pre @ encode_block es) off)) r"
  using assms(1)
proof (induction es arbitrary: pre)
  case Nil
  then show ?case by (subst search_dir_block.simps) (simp add: encode_block_def dir_of_def)
next
  case (Cons e es)
  have e: "entry_ok e" using Cons.prems by simp
  let ?b = "pre @ encode_block (e # es)"
  have b: "?b = pre @ encode_entry e @ encode_block es" "?b = (pre @ encode_entry e) @ encode_block es" by (simp_all add: encode_block_def)
  have size: "8 \<le> unat (s_size e)" "s_size e \<noteq> 0" using e by (auto simp: entry_ok_def)
  note m = entry_matches_encoded[OF e assms(2), of pre "encode_block es", folded b(1)]
  note de = dir_entry_encoded[of pre e "encode_block es", folded b(1)]
  obtain r where r: "search_dir_block ?b (length ?b) (name @ [0]) (of_nat (length name)) (length pre + unat (s_size e)) = Ret (Inr r)"
      "map_of (dir_of es) name = map_option (\<lambda>off. d_inode (dir_entry_at ?b off)) r"
    using Cons.IH[of "pre @ encode_entry e"] Cons.prems unfolding b(2)[symmetric] by (auto simp: length_encode_entry[OF e])
  have len: "length pre + 8 \<le> length ?b" "encode_block (e # es) \<noteq> []"
    using size length_encode_entry[OF e] by (auto simp: encode_block_def)
  show ?case
  proof (cases "s_ino e \<noteq> 0 \<and> s_name e = name")
    case True
    then show ?thesis
      using len size(2) by (intro exI[of _ "Some (length pre)"], subst search_dir_block.simps) (simp add: de m dir_of_def del: append_assoc)
  next
    case False
    then have "map_of (dir_of (e # es)) name = map_of (dir_of es) name" by (auto simp: dir_of_def)
    with False r len size(2) show ?thesis
      by (intro exI[of _ r], subst search_dir_block.simps) (auto simp: de m simp del: append_assoc)
  qed
qed

text \<open>
  C11. For a directory block that encodes a list of entries, \<^verbatim>\<open>search_dir_block\<close> ends without reading
  outside the block, and finds exactly what looking the name up in the list of used entries finds:
  the entry it points to has the inode number of the first used entry with that name.
\<close>

theorem search_dir_block_lookup:
  assumes "\<forall>e \<in> set es. entry_ok e" "length name < 256"
  shows "\<exists>r. search_dir_block (encode_block es) (length (encode_block es)) (name @ [0]) (of_nat (length name)) 0 = Ret (Inr r)
    \<and> map_of (dir_of es) name = map_option (\<lambda>off. d_inode (dir_entry_at (encode_block es) off)) r"
  using search_encoded[OF assms, of "[]"] by simp

text \<open>The entries \<^verbatim>\<open>.\<close>, a deleted one, and \<^verbatim>\<open>a\<close>.\<close>

definition witness_entries :: "entry_spec list" where
  "witness_entries = [\<lparr>s_ino = 2, s_size = 12, s_type = 2, s_name = [0x2e]\<rparr>, \<lparr>s_ino = 0, s_size = 12, s_type = 0, s_name = [0x61]\<rparr>,
     \<lparr>s_ino = 13, s_size = 16, s_type = 1, s_name = [0x61]\<rparr>]"

theorem search_dir_block_lookup_witness:
  "\<exists>off. search_dir_block (encode_block witness_entries) (length (encode_block witness_entries)) [0x61, 0] 1 0 = Ret (Inr (Some off))
    \<and> d_inode (dir_entry_at (encode_block witness_entries) off) = 13"
proof -
  have ok: "\<forall>e \<in> set witness_entries. entry_ok e" "length [0x61 :: u8] < 256" by (simp_all add: witness_entries_def entry_ok_def)
  have "map_of (dir_of witness_entries) [0x61] = Some 13" by (simp add: dir_of_def witness_entries_def)
  with search_dir_block_lookup[OF ok] show ?thesis by (auto simp: eq_commute[of "Some _" "map_option _ _"])
qed

end
