(* ===== verification/Vfs.thy ===== *)
theory Vfs
  imports Ext2
begin

text \<open>
  The virtual file system of \<^verbatim>\<open>fs/vfs.c\<close>: drivers, mounting, resolving paths through the tree of
  directory entries, and open files.
\<close>

section \<open>Drivers and the root (fs/vfs.c, fs/ext2/ext2.c)\<close>

text \<open>What the function pointers of a driver can be.\<close>

datatype fs_functions = Null_fs | Ext2_fs

record fs_driver =
  drv_name :: "u8 list"
  probe :: fs_functions
  mount :: fs_functions

text \<open>
  \<^verbatim>\<open>ext2_register\<close> copies 16 bytes from a literal of seven; \<open>beyond\<close> are the nine bytes that follow it.
\<close>

definition ext2_register :: "u8 list \<Rightarrow> fs_driver" where
  "ext2_register beyond = \<lparr>drv_name = [0x65, 0x78, 0x74, 0x32, 0x66, 0x73, 0] @ take 9 beyond, probe = Ext2_fs, mount = Ext2_fs\<rparr>"

definition vfs_init :: "u8 list \<Rightarrow> fs_driver list \<Rightarrow> fs_driver list" where
  "vfs_init beyond drivers = drivers @ [ext2_register beyond]"

text \<open>
  The loops of \<^verbatim>\<open>vfs_mount_root\<close>: the drivers on one device, then the devices. The result says whether a
  root was found. \<open>junk\<close> is what the memory of the driver's information held (see \<open>ext2_mount\<close>).
\<close>

primrec try_drivers :: "'s kops \<Rightarrow> u64 \<Rightarrow> block_dev \<Rightarrow> fs_driver list \<Rightarrow> 's fs \<Rightarrow> (bool \<times> 's fs) exec" where
  "try_drivers ops junk bdev [] st = Ret (False, st)"
| "try_drivers ops junk bdev (d # ds) st =
     (if probe d = Null_fs \<or> mount d = Null_fs then try_drivers ops junk bdev ds st
      else exec_bind (ext2_probe ops bdev (env st)) (\<lambda>((res, label), s1).
        let st1 = st\<lparr>env := s1\<rparr> in
        if res \<noteq> 0 then try_drivers ops junk bdev ds st1
        else exec_bind (ext2_mount ops junk bdev st1) (\<lambda>(sbp, st2).
          if IS_ERR sbp then try_drivers ops junk bdev ds st2
          else exec_bind (deref (supers st2) sbp) (\<lambda>sb. Ret (True, st2\<lparr>vfs_root := sb_root sb\<rparr>)))))"

primrec vfs_mount_root :: "'s kops \<Rightarrow> u64 \<Rightarrow> fs_driver list \<Rightarrow> block_dev list \<Rightarrow> 's fs \<Rightarrow> (int \<times> 's fs) exec" where
  "vfs_mount_root ops junk drivers [] st = Ret (- ENOENT, st)"
| "vfs_mount_root ops junk drivers (b # bs) st =
     exec_bind (try_drivers ops junk b drivers st) (\<lambda>(found, st1).
       if found then Ret (0, st1) else vfs_mount_root ops junk drivers bs st1)"

section \<open>Paths\<close>

text \<open>
  The search among the children of a directory. The list is followed for at most \<open>fuel\<close> links; a
  cyclic one would be followed for ever.
\<close>

definition same_name :: "qstr \<Rightarrow> qstr \<Rightarrow> bool" where
  "same_name a b \<longleftrightarrow> qhash a = qhash b \<and> qlen a = qlen b \<and> take (unat (qlen b)) (str a) = take (unat (qlen b)) (str b)"

primrec find_child :: "nat \<Rightarrow> (u64 \<Rightarrow> dentry option) \<Rightarrow> qstr \<Rightarrow> u64 \<Rightarrow> u64 exec" where
  "find_child 0 ds name cur = Diverge"
| "find_child (Suc fuel) ds name cur =
     (if cur = 0 then Ret 0
      else exec_bind (deref ds cur) (\<lambda>d. if same_name (dname d) name then Ret cur else find_child fuel ds name (next_sibling d)))"

definition vfs_lookup_direct :: "'s kops \<Rightarrow> nat \<Rightarrow> u64 \<Rightarrow> qstr \<Rightarrow> 's fs \<Rightarrow> (u64 \<times> 's fs) exec" where
  "vfs_lookup_direct ops fuel parent name st =
     exec_bind (deref (dentries st) parent) (\<lambda>p.
     exec_bind (find_child fuel (dentries st) name (first_child p)) (\<lambda>c.
       if c \<noteq> 0 then Ret (c, st)
       else
         let (child, st1) = d_alloc ops parent name st in
         if IS_ERR child then Ret (child, st1)
         else exec_bind (deref (inodes st1) (dinode p)) (\<lambda>i.
           if iops i \<noteq> Ext2_dir_iops then Oob
           else exec_bind (ext2_lookup ops (dinode p) child st1) (\<lambda>(res, st2).
             if res < 0 then exec_bind (d_free ops child st2) (\<lambda>st3. Ret (ERR_PTR res, st3))
             else Ret (child, st2)))))"

abbreviation slash :: u8 where "slash \<equiv> 0x2f"

definition skip_slashes :: "u8 list \<Rightarrow> u8 list" where
  "skip_slashes = dropWhile (\<lambda>c. c = slash)"

definition path_token :: "u8 list \<Rightarrow> qstr" where
  "path_token path = (let n = of_nat (length (takeWhile (\<lambda>c. c \<noteq> slash) path)) in
     \<lparr>str_addr = 0, str = path, qlen = n, qhash = vfs_hash_name path n\<rparr>)"

definition path_rest :: "u8 list \<Rightarrow> u8 list" where
  "path_rest path = skip_slashes (dropWhile (\<lambda>c. c \<noteq> slash) path)"

lemma path_rest_shorter: "path \<noteq> [] \<Longrightarrow> length (path_rest path) < length path"
proof (cases path)
  case (Cons c cs)
  have le: "length (dropWhile P xs) \<le> length xs" for P and xs :: "u8 list" by (rule length_dropWhile_le)
  show ?thesis
  proof (cases "c = slash")
    case True
    then show ?thesis using le[of "\<lambda>c. c = slash" cs] by (simp add: path_rest_def skip_slashes_def Cons)
  next
    case False
    then show ?thesis
      using le[of "\<lambda>c. c \<noteq> slash" cs] le[of "\<lambda>c. c = slash" "dropWhile (\<lambda>c. c \<noteq> slash) cs"]
      by (simp add: path_rest_def skip_slashes_def Cons)
  qed
qed simp

function lookup_loop :: "'s kops \<Rightarrow> nat \<Rightarrow> u64 \<Rightarrow> u8 list \<Rightarrow> 's fs \<Rightarrow> (u64 \<times> 's fs) exec" where
  "lookup_loop ops fuel cur path st =
     (if path = [] then Ret (cur, st)
      else exec_bind (deref (dentries st) cur) (\<lambda>d.
        exec_bind (deref (inodes st) (dinode d)) (\<lambda>i.
          if \<not> S_ISDIR (imode i) then Ret (ERR_PTR (- ENOTDIR), st)
          else exec_bind (vfs_lookup_direct ops fuel cur (path_token path) st) (\<lambda>(child, st1).
            if IS_ERR child then Ret (child, st1) else lookup_loop ops fuel child (path_rest path) st1))))"
  by pat_completeness auto
termination
  by (relation "measure (\<lambda>(ops, fuel, cur, path, st). length path)") (auto simp: path_rest_shorter)

declare lookup_loop.simps [simp del]

definition vfs_lookup :: "'s kops \<Rightarrow> nat \<Rightarrow> u8 list \<Rightarrow> 's fs \<Rightarrow> (u64 \<times> 's fs) exec" where
  "vfs_lookup ops fuel path st = lookup_loop ops fuel (vfs_root st) (skip_slashes path) st"

section \<open>Open files\<close>

abbreviation sizeof_file :: u64 where "sizeof_file \<equiv> 40"

definition vfs_open :: "'s kops \<Rightarrow> nat \<Rightarrow> u8 list \<Rightarrow> 's fs \<Rightarrow> (u64 \<times> 's fs) exec" where
  "vfs_open ops fuel path st =
     exec_bind (vfs_lookup ops fuel path st) (\<lambda>(d, st1).
       if IS_ERR d then Ret (d, st1)
       else exec_bind (deref (dentries st1) d) (\<lambda>de.
         exec_bind (deref (inodes st1) (dinode de)) (\<lambda>i.
           if \<not> S_ISREG (imode i) then Ret (ERR_PTR (- ENOTDIR), st1)
           else
             let (f, st2) = on_env (kmalloc_op ops sizeof_file) st1 in
             if f = 0 then Ret (ERR_PTR (- ENOMEM), st2)
             else Ret (f, st2\<lparr>files := (files st2)(f \<mapsto> \<lparr>fdentry = d, pos = 0, ref_count = 1, fops = ifops i\<rparr>)\<rparr>))))"

abbreviation SSIZE_MAX :: u64 where "SSIZE_MAX \<equiv> 0x7fffffffffffffff"

definition file_inode :: "'s fs \<Rightarrow> vfile \<Rightarrow> inode exec" where
  "file_inode st f = exec_bind (deref (dentries st) (fdentry f)) (\<lambda>d. deref (inodes st) (dinode d))"

text \<open>The result and the bytes stored at \<^verbatim>\<open>buf\<close>. A file whose table has no \<^verbatim>\<open>read\<close> would call null.\<close>

definition vfs_read :: "'s kops \<Rightarrow> u64 \<Rightarrow> u64 \<Rightarrow> 's fs \<Rightarrow> ((int \<times> u8 list) \<times> 's fs) exec" where
  "vfs_read ops fp count st =
     exec_bind (deref (files st) fp) (\<lambda>f.
     exec_bind (file_inode st f) (\<lambda>i.
       if \<not> S_ISREG (imode i) then Ret ((- EINVAL, []), st)
       else if ref_count f = 0 then Ret ((- EINVAL, []), st)
       else
         let count = (if count > SSIZE_MAX then SSIZE_MAX else count) in
         if fops f \<noteq> Ext2_file_fops then Oob
         else exec_bind (ext2_read_file ops f count (pos f) st) (\<lambda>((r, out, pos'), st1).
           Ret ((r, out), st1\<lparr>files := (files st1)(fp \<mapsto> f\<lparr>pos := pos'\<rparr>)\<rparr>))))"

definition vfs_close :: "'s kops \<Rightarrow> u64 \<Rightarrow> 's fs \<Rightarrow> (int \<times> 's fs) exec" where
  "vfs_close ops fp st =
     (if fp = 0 then Ret (- EINVAL, st)
      else exec_bind (deref (files st) fp) (\<lambda>f.
        let n = ref_count f - 1 in
        if n = 0 then Ret (0, st\<lparr>env := kfree_op ops fp (env st), files := (files st)(fp := None)\<rparr>)
        else Ret (0, st\<lparr>files := (files st)(fp \<mapsto> f\<lparr>ref_count := n\<rparr>)\<rparr>)))"

abbreviation SEEK_SET :: int where "SEEK_SET \<equiv> 0"
abbreviation SEEK_CUR :: int where "SEEK_CUR \<equiv> 1"

text \<open>\<^verbatim>\<open>ssize_t\<close> values are words read as signed numbers.\<close>

definition vfs_seek :: "u64 \<Rightarrow> u64 \<Rightarrow> int \<Rightarrow> 's fs \<Rightarrow> (int \<times> 's fs) exec" where
  "vfs_seek fp offset whence st =
     exec_bind (deref (files st) fp) (\<lambda>f.
     exec_bind (file_inode st f) (\<lambda>i.
       if \<not> S_ISREG (imode i) then Ret (- EINVAL, st)
       else if whence \<noteq> SEEK_SET \<and> whence \<noteq> SEEK_CUR then Ret (- EINVAL, st)
       else
         let new_pos = (if whence = SEEK_SET then offset else pos f + offset) in
         if sint new_pos < 0 then Ret (- EINVAL, st)
         else
           let new_pos = (if sint new_pos > sint (isize i) then isize i else new_pos)
           in Ret (sint new_pos, st\<lparr>files := (files st)(fp \<mapsto> f\<lparr>pos := new_pos\<rparr>)\<rparr>)))"

section \<open>System calls\<close>

abbreviation OPEN_FILE_TABLE_COUNT :: nat where "OPEN_FILE_TABLE_COUNT \<equiv> 16"

text \<open>
  \<open>fds\<close> is the table of open files of the running task. The terminal's functions work on the rest of
  the kernel; \<open>tty_op\<close> is \<^verbatim>\<open>tty_read\<close> or \<^verbatim>\<open>tty_write\<close> with the buffer that was passed.
\<close>

definition sys_read ::
    "'s kops \<Rightarrow> (u64 \<Rightarrow> u64 \<Rightarrow> 's fs \<Rightarrow> ((int \<times> u8 list) \<times> 's fs) exec) \<Rightarrow> u64 list \<Rightarrow> u32 \<Rightarrow> u64 \<Rightarrow> 's fs
      \<Rightarrow> ((int \<times> u8 list) \<times> 's fs) exec" where
  "sys_read ops tty_op fds fd count st =
     (if unat fd \<ge> OPEN_FILE_TABLE_COUNT then Ret ((- EBADF, []), st)
      else exec_bind (array_get fds (unat fd)) (\<lambda>fp.
        if fp = 0 then Ret ((- EBADF, []), st)
        else
          let count = (if count > SSIZE_MAX then SSIZE_MAX else count) in
          exec_bind (deref (files st) fp) (\<lambda>f.
            case fops f of
              Ext2_file_fops \<Rightarrow> exec_bind (ext2_read_file ops f count (pos f) st) (\<lambda>((r, out, pos'), st1).
                Ret ((r, out), st1\<lparr>files := (files st1)(fp \<mapsto> f\<lparr>pos := pos'\<rparr>)\<rparr>))
            | Tty_fops \<Rightarrow> tty_op fp count st
            | _ \<Rightarrow> Ret ((- EBADF, []), st))))"

definition sys_write ::
    "(u64 \<Rightarrow> u64 \<Rightarrow> 's fs \<Rightarrow> (int \<times> 's fs) exec) \<Rightarrow> u64 list \<Rightarrow> u32 \<Rightarrow> u64 \<Rightarrow> 's fs \<Rightarrow> (int \<times> 's fs) exec" where
  "sys_write tty_op fds fd count st =
     (if unat fd \<ge> OPEN_FILE_TABLE_COUNT then Ret (- EBADF, st)
      else exec_bind (array_get fds (unat fd)) (\<lambda>fp.
        if fp = 0 then Ret (- EBADF, st)
        else
          let count = (if count > SSIZE_MAX then SSIZE_MAX else count) in
          exec_bind (deref (files st) fp) (\<lambda>f. case fops f of Tty_fops \<Rightarrow> tty_op fp count st | _ \<Rightarrow> Ret (- EBADF, st))))"

section \<open>Seeking\<close>

lemma sint_word_small:
  fixes x :: u64
  assumes "unat x < 2 ^ 63"
  shows "sint x = int (unat x)"
proof -
  have "int (unat x) < int (2 ^ 63)" using assms by (simp only: of_nat_less_iff)
  then have "uint x < 2 ^ 63" by simp
  moreover have "- (2 ^ 63) \<le> uint x" by (rule order_trans[OF _ uint_nonnegative]) simp
  ultimately have "signed_take_bit 63 (uint x) = uint x" by (intro signed_take_bit_int_eq_self)
  then show ?thesis by (simp add: sint_uint)
qed

text \<open>
  C32. \<^verbatim>\<open>vfs_seek\<close> on a regular file: an unknown \<^verbatim>\<open>whence\<close> or a target before the start of the file is
  refused and the position stays; otherwise the new position is the target, cut to the size of the
  file, and it is the result. So the position never lies behind the end of the file. The target
  relative to the current position is computed modulo \<open>2 ^ 64\<close>.
\<close>

theorem vfs_seek_bounds:
  assumes "fp \<noteq> 0" "files st fp = Some f" "file_inode st f = Ret i" "S_ISREG (imode i)" "unat (isize i) < 2 ^ 63"
    and "target = sint (if whence = SEEK_SET then offset else pos f + offset)" "p = nat (min target (int (unat (isize i))))"
  shows "vfs_seek fp offset whence st =
    (if whence \<notin> {SEEK_SET, SEEK_CUR} \<or> target < 0 then Ret (- EINVAL, st)
     else Ret (int p, st\<lparr>files := (files st)(fp \<mapsto> f\<lparr>pos := of_nat p\<rparr>)\<rparr>)) \<and> p \<le> unat (isize i)"
proof -
  define x where "x = (if whence = SEEK_SET then offset else pos f + offset)"
  define z where "z = unat (isize i)"
  have pz: "p = nat (min target (int z))" using assms(7) by (simp only: z_def)
  then have p: "p \<le> z" by linarith
  have sz: "sint (isize i) = int z" unfolding z_def using assms(5) by (rule sint_word_small)
  have run: "vfs_seek fp offset whence st =
    (if whence \<notin> {SEEK_SET, SEEK_CUR} \<or> target < 0 then Ret (- EINVAL, st)
     else let y = (if sint x > sint (isize i) then isize i else x) in Ret (sint y, st\<lparr>files := (files st)(fp \<mapsto> f\<lparr>pos := y\<rparr>)\<rparr>))"
    using assms(1-4,6) by (simp add: vfs_seek_def deref_def x_def[symmetric] Let_def)
  have y: "(if sint x > sint (isize i) then isize i else x) = of_nat p" if "\<not> target < 0"
  proof -
    have t: "target = sint x" using assms(6) by (simp add: x_def)
    show ?thesis
    proof (cases "sint x > sint (isize i)")
      case True
      then have "p = z" using pz t sz by simp
      with True show ?thesis by (simp add: z_def)
    next
      case False
      then have "p = nat (sint x)" using pz t sz by simp
      moreover have "of_nat (nat (sint x)) = x" using that t by (simp add: of_nat_nat)
      ultimately show ?thesis using False by simp
    qed
  qed
  have "sint (of_nat p :: u64) = int p"
  proof -
    have b: "p < 2 ^ 63" using p assms(5) unfolding z_def by linarith
    then have "unat (of_nat p :: u64) = p" by (simp add: unat_of_nat)
    with sint_word_small[of "of_nat p :: u64"] b show ?thesis by simp
  qed
  with run y p[unfolded z_def] show ?thesis by (auto simp: Let_def)
qed

definition witness_seek :: "unit fs" where
  "witness_seek = \<lparr>env = (), supers = Map.empty,
     inodes = [0x60 \<mapsto> \<lparr>ino = 12, isize = 3000, imode = S_IFREG, isb = 0x70, iops = Ext2_file_iops, ifops = Ext2_file_fops,
       i_info = \<lparr>raw_inode = inode_at [] 0, i_size = 3000, singly = None\<rparr>\<rparr>],
     dentries = [0x50 \<mapsto> \<lparr>dname = \<lparr>str_addr = 0, str = [], qlen = 0, qhash = 0\<rparr>, dinode = 0x60, dparent = 0, first_child = 0,
       next_sibling = 0, dsb = 0x70\<rparr>],
     files = [0x80 \<mapsto> \<lparr>fdentry = 0x50, pos = 1000, ref_count = 1, fops = Ext2_file_fops\<rparr>], vfs_root = 0\<rparr>"

theorem vfs_seek_bounds_witness:
  "(\<exists>st'. vfs_seek 0x80 5000 SEEK_CUR witness_seek = Ret (3000, st')) \<and> (\<exists>st'. vfs_seek 0x80 (- 2000) SEEK_CUR witness_seek = Ret (- EINVAL, st'))"
proof -
  define f where "f = the (files witness_seek 0x80)"
  define i where "i = the (inodes witness_seek 0x60)"
  have w: "files witness_seek 0x80 = Some f" "file_inode witness_seek f = Ret i" "S_ISREG (imode i)" "unat (isize i) < 2 ^ 63" "pos f = 1000" "isize i = 3000"
    by (simp_all add: f_def i_def witness_seek_def file_inode_def deref_def S_ISREG_def)
  note s = vfs_seek_bounds[OF _ w(1-4) refl refl, of _ SEEK_CUR]
  show ?thesis using s[of 5000] s[of "- 2000"] w(5,6) by simp
qed

end
