(* ===== verification/Kmalloc.thy ===== *)
theory Kmalloc
  imports Pmm Klibc
begin

text \<open>
  The kernel heap of \<^verbatim>\<open>mm/kmalloc.c\<close>: six size classes whose free slots are chained through the
  slots themselves, pool pages with a header that names their class, and a list of allocations
  that are too big for a class. The heap lives in the byte memory of theory \<open>Memory\<close>, at the
  virtual addresses of the direct map, and takes its pages from the bitmap allocator.
\<close>

section \<open>State and operations\<close>

abbreviation MAGIC :: u32 where "MAGIC \<equiv> 0xFC6792DA"
abbreviation TOO_BIG_SIZE :: int where "TOO_BIG_SIZE \<equiv> - 1"

record tier =
  slot_size :: u16
  free_head :: u64

record kheap =
  kmem :: mem
  kpmm :: pmm
  tiers :: "tier list"
  big_alloc_head :: u64

definition tiers_static :: "tier list" where
  "tiers_static = [\<lparr>slot_size = 32, free_head = 0\<rparr>, \<lparr>slot_size = 64, free_head = 0\<rparr>,
     \<lparr>slot_size = 128, free_head = 0\<rparr>, \<lparr>slot_size = 256, free_head = 0\<rparr>,
     \<lparr>slot_size = 512, free_head = 0\<rparr>, \<lparr>slot_size = 1024, free_head = 0\<rparr>]"

text \<open>The structures that the code keeps in pages: the fields of a pool page header (\<^verbatim>\<open>magic\<close> at
  0, \<^verbatim>\<open>tier_idx\<close> at 4, \<^verbatim>\<open>count\<close> at 5), the link of a free slot (at 0) and the fields of a big
  allocation node (\<^verbatim>\<open>vaddr\<close> at 0, \<^verbatim>\<open>pages_count\<close> at 8, \<^verbatim>\<open>next\<close> at 16).\<close>

definition header_tier :: "mem \<Rightarrow> u64 \<Rightarrow> nat" where
  "header_tier m h = unat (m (h + 4))"

definition slot_next :: "mem \<Rightarrow> u64 \<Rightarrow> u64" where
  "slot_next m s = rd64 m s"

definition node_next :: "mem \<Rightarrow> u64 \<Rightarrow> u64" where
  "node_next m n = rd64 m (n + 16)"

abbreviation sizeof_big_alloc_node :: u64 where "sizeof_big_alloc_node \<equiv> 24"

subsection \<open>Pages\<close>

definition alloc_page :: "pmm \<Rightarrow> u64 \<times> pmm" where
  "alloc_page p =
     (let (frame, p') = pmm_alloc_frame p in if frame = 0 then (0, p') else (PHYS_TO_VIRT frame, p'))"

definition alloc_pages :: "u64 \<Rightarrow> pmm \<Rightarrow> (u64 \<times> pmm) exec" where
  "alloc_pages nr p =
     exec_bind (pmm_alloc_contiguous_frames nr p) (\<lambda>(start_frame, p').
       if start_frame = 0 then Ret (0, p') else Ret (PHYS_TO_VIRT start_frame, p'))"

definition free_page :: "u64 \<Rightarrow> pmm \<Rightarrow> pmm exec" where
  "free_page vaddr p = pmm_free_frame (VIRT_TO_PHYS vaddr) p"

definition free_pages :: "u64 \<Rightarrow> u64 \<Rightarrow> pmm \<Rightarrow> pmm exec" where
  "free_pages vaddr nr p = pmm_free_contiguous_frames (VIRT_TO_PHYS vaddr) nr p"

subsection \<open>Size classes\<close>

primrec tier_from :: "nat \<Rightarrow> tier list \<Rightarrow> u64 \<Rightarrow> int" where
  "tier_from i [] sz = TOO_BIG_SIZE"
| "tier_from i (t # ts) sz = (if sz \<le> ucast (slot_size t) then int i else tier_from (Suc i) ts sz)"

definition size_to_tier_idx :: "tier list \<Rightarrow> u64 \<Rightarrow> int" where
  "size_to_tier_idx ts sz = tier_from 0 ts sz"

text \<open>The loop over the slots of a new page follows the link it has just written.\<close>

primrec init_tier_loop :: "nat \<Rightarrow> u64 \<Rightarrow> u64 \<Rightarrow> u64 \<Rightarrow> mem \<Rightarrow> mem exec" where
  "init_tier_loop 0 slotsize last_slot s m = Diverge"
| "init_tier_loop (Suc n) slotsize last_slot s m =
     (if s < last_slot
      then let m' = wr64 m s (s + slotsize) in init_tier_loop n slotsize last_slot (slot_next m' s) m'
      else Ret m)"

definition init_tier :: "nat \<Rightarrow> kheap \<Rightarrow> (int \<times> kheap) exec" where
  "init_tier tr st =
     (let (frame, p) = alloc_page (kpmm st) in
      if frame = 0 then Ret (- ENOMEM, st\<lparr>kpmm := p\<rparr>)
      else exec_bind (array_get (tiers st) tr) (\<lambda>t.
        let m1 = wr8 (kmem st) (frame + 5) 0;
            m2 = wr32 m1 frame MAGIC;
            m3 = wr8 m2 (frame + 4) (of_nat tr);
            slotsize = ucast (slot_size t);
            s = frame + slotsize;
            last_slot = frame + PAGE_SIZE - slotsize
        in exec_bind (init_tier_loop 128 slotsize last_slot s m3) (\<lambda>m4.
             Ret (0, st\<lparr>kmem := wr64 m4 last_slot 0, kpmm := p,
               tiers := (tiers st)[tr := t\<lparr>free_head := frame + slotsize\<rparr>]\<rparr>))))"

primrec kmalloc_small :: "nat \<Rightarrow> nat \<Rightarrow> kheap \<Rightarrow> (u64 \<times> kheap) exec" where
  "kmalloc_small 0 tr st = Diverge"
| "kmalloc_small (Suc n) tr st =
     exec_bind (array_get (tiers st) tr) (\<lambda>t.
       if free_head t \<noteq> 0 then
         let head = free_head t;
             header = PAGE_ALIGN_DOWN head;
             m = wr8 (kmem st) (header + 5) (kmem st (header + 5) + 1)
         in Ret (head, st\<lparr>kmem := m, tiers := (tiers st)[tr := t\<lparr>free_head := slot_next m head\<rparr>]\<rparr>)
       else exec_bind (init_tier tr st) (\<lambda>(res, st1).
         if res < 0 then Ret (0, st1) else kmalloc_small n tr st1))"

text \<open>\<^verbatim>\<open>kmalloc\<close> and \<^verbatim>\<open>kmalloc_big\<close> call each other; the first argument bounds the depth.\<close>

fun kmalloc :: "nat \<Rightarrow> u64 \<Rightarrow> kheap \<Rightarrow> (u64 \<times> kheap) exec"
  and kmalloc_big :: "nat \<Rightarrow> u64 \<Rightarrow> kheap \<Rightarrow> (u64 \<times> kheap) exec" where
  "kmalloc 0 sz st = Diverge"
| "kmalloc (Suc n) sz st =
     (let tr = size_to_tier_idx (tiers st) sz in
      if tr = TOO_BIG_SIZE then kmalloc_big n sz st else kmalloc_small n (nat tr) st)"
| "kmalloc_big 0 sz st = Diverge"
| "kmalloc_big (Suc n) sz st =
     (let npages = PAGE_ALIGN_UP sz div PAGE_SIZE in
      exec_bind (alloc_pages npages (kpmm st)) (\<lambda>(vaddr, p).
        let st1 = st\<lparr>kpmm := p\<rparr> in
        if vaddr = 0 then Ret (0, st1)
        else exec_bind (kmalloc n sizeof_big_alloc_node st1) (\<lambda>(cur_node, st2).
          if cur_node = 0
          then exec_bind (free_pages vaddr npages (kpmm st2)) (\<lambda>p2. Ret (0, st2\<lparr>kpmm := p2\<rparr>))
          else
            let m1 = wr64 (kmem st2) cur_node vaddr;
                m2 = wr64 m1 (cur_node + 8) npages;
                m3 = wr64 m2 (cur_node + 16) (if big_alloc_head st2 = 0 then 0 else big_alloc_head st2)
            in Ret (vaddr, st2\<lparr>kmem := m3, big_alloc_head := cur_node\<rparr>))))"

definition kzalloc :: "nat \<Rightarrow> u64 \<Rightarrow> kheap \<Rightarrow> (u64 \<times> kheap) exec" where
  "kzalloc n sz st =
     exec_bind (kmalloc n sz st) (\<lambda>(ptr, st1).
       if ptr = 0 then Ret (0, st1)
       else let (r, m) = memset (kmem st1) ptr 0 sz in Ret (r, st1\<lparr>kmem := m\<rparr>))"

text \<open>The walk along the big allocations: the node that holds \<open>vaddr\<close>, or null, and the one before
  it.\<close>

primrec big_search :: "nat \<Rightarrow> mem \<Rightarrow> u64 \<Rightarrow> u64 \<Rightarrow> u64 \<Rightarrow> (u64 \<times> u64) exec" where
  "big_search 0 m vaddr prev cur = Diverge"
| "big_search (Suc n) m vaddr prev cur =
     (if cur \<noteq> 0 \<and> rd64 m cur \<noteq> vaddr then big_search n m vaddr cur (node_next m cur)
      else Ret (prev, cur))"

fun kfree :: "nat \<Rightarrow> u64 \<Rightarrow> kheap \<Rightarrow> kheap exec"
  and kfree_big :: "nat \<Rightarrow> u64 \<Rightarrow> kheap \<Rightarrow> kheap exec" where
  "kfree 0 vaddr st = Diverge"
| "kfree (Suc n) vaddr st =
     (let header = PAGE_ALIGN_DOWN vaddr in
      if rd32 (kmem st) header \<noteq> MAGIC then kfree_big n vaddr st
      else
        let i = header_tier (kmem st) header in
        exec_bind (array_get (tiers st) i) (\<lambda>t.
          let m = wr64 (kmem st) vaddr (free_head t);
              j = header_tier m header
          in exec_bind (array_get (tiers st) j) (\<lambda>t'.
               Ret (st\<lparr>kmem := m, tiers := (tiers st)[j := t'\<lparr>free_head := vaddr\<rparr>]\<rparr>))))"
| "kfree_big 0 vaddr st = Diverge"
| "kfree_big (Suc n) vaddr st =
     exec_bind (big_search n (kmem st) vaddr 0 (big_alloc_head st)) (\<lambda>(prev, cur).
       if cur = 0 then Panic ''kfree_big: trying to free a non-existing big allocation.''
       else
         let st1 = (if cur = big_alloc_head st
                    then st\<lparr>big_alloc_head := node_next (kmem st) (big_alloc_head st)\<rparr>
                    else st\<lparr>kmem := wr64 (kmem st) (prev + 16) (node_next (kmem st) cur)\<rparr>)
         in exec_bind (free_pages vaddr (rd64 (kmem st1) (cur + 8)) (kpmm st1)) (\<lambda>p.
              kfree n cur (st1\<lparr>kpmm := p\<rparr>)))"

declare kmalloc.simps [simp del] kmalloc_big.simps [simp del] kfree.simps [simp del] kfree_big.simps [simp del]

section \<open>Well-formed heaps\<close>

text \<open>A null-terminated list through a link function.\<close>

primrec chain :: "(u64 \<Rightarrow> u64) \<Rightarrow> u64 \<Rightarrow> u64 list \<Rightarrow> bool" where
  "chain nx h [] \<longleftrightarrow> h = 0"
| "chain nx h (x # xs) \<longleftrightarrow> h = x \<and> x \<noteq> 0 \<and> chain nx (nx x) xs"

lemma chain_cong: "(\<And>x. x \<in> set xs \<Longrightarrow> nx x = nx' x) \<Longrightarrow> chain nx h xs \<longleftrightarrow> chain nx' h xs"
  by (induction xs arbitrary: h) auto

text \<open>Pages are counted by their virtual page number; \<open>KB\<close> is the first one of the direct map.\<close>

abbreviation KB :: nat where "KB \<equiv> 0xffff888000000"

definition vp :: "nat \<Rightarrow> u64" where
  "vp q = of_nat q * PAGE_SIZE"

definition class_size :: "nat \<Rightarrow> nat" where
  "class_size t = 32 * 2 ^ t"

definition held :: "pmm \<Rightarrow> nat \<Rightarrow> bool" where
  "held p q \<longleftrightarrow> KB \<le> q \<and> q < KB + 8 * length (bitmap p) \<and> \<not> is_free (bitmap p) (q - KB)"

text \<open>
  What the bytes of the heap mean: \<open>pool\<close> gives the class of a pool page, \<open>frees\<close> the free slots
  of a class, \<open>used\<close> the slots that are handed out, and \<open>bigs\<close> the big allocations as node, first
  page and number of pages.
\<close>

record heap_view =
  pool :: "nat \<Rightarrow> nat option"
  frees :: "nat \<Rightarrow> u64 list"
  used :: "u64 set"
  bigs :: "(u64 \<times> nat \<times> nat) list"

definition is_slot :: "heap_view \<Rightarrow> u64 \<Rightarrow> nat \<Rightarrow> bool" where
  "is_slot V s t \<longleftrightarrow> pool V (unat s div 4096) = Some t \<and> unat s mod class_size t = 0 \<and> unat s mod 4096 \<noteq> 0"

definition pools_ok :: "pmm \<Rightarrow> mem \<Rightarrow> heap_view \<Rightarrow> bool" where
  "pools_ok p m V \<longleftrightarrow> (\<forall>q t. pool V q = Some t \<longrightarrow>
     t < 6 \<and> held p q \<and> rd32 m (vp q) = MAGIC \<and> m (vp q + 4) = of_nat t)"

definition frees_ok :: "tier list \<Rightarrow> mem \<Rightarrow> heap_view \<Rightarrow> bool" where
  "frees_ok ts m V \<longleftrightarrow> (\<forall>t < 6. chain (slot_next m) (free_head (ts ! t)) (frees V t) \<and> distinct (frees V t)
     \<and> (\<forall>s. s \<in> set (frees V t) \<longleftrightarrow> is_slot V s t \<and> s \<notin> used V))"

definition big_ok :: "pmm \<Rightarrow> mem \<Rightarrow> heap_view \<Rightarrow> u64 \<Rightarrow> nat \<Rightarrow> nat \<Rightarrow> bool" where
  "big_ok p m V n q k \<longleftrightarrow> n \<in> used V \<and> is_slot V n 0 \<and> rd64 m n = vp q \<and> rd64 m (n + 8) = of_nat k
     \<and> KB < q \<and> 0 < k \<and> (\<forall>i < k. held p (q + i) \<and> pool V (q + i) = None)"

definition bigs_ok :: "pmm \<Rightarrow> u64 \<Rightarrow> mem \<Rightarrow> heap_view \<Rightarrow> bool" where
  "bigs_ok p h m V \<longleftrightarrow> chain (node_next m) h (map fst (bigs V)) \<and> distinct (map fst (bigs V))
     \<and> (\<forall>(n, q, k) \<in> set (bigs V). big_ok p m V n q k)
     \<and> (\<forall>(n, q, k) \<in> set (bigs V). \<forall>(n', q', k') \<in> set (bigs V).
          n \<noteq> n' \<longrightarrow> q + k \<le> q' \<or> q' + k' \<le> q)"

lemma bigs_ok_cong:
  assumes "bigs_ok p h m V" "bigs V' = bigs V" "\<And>n. n \<in> fst ` set (bigs V) \<Longrightarrow> node_next m' n = node_next m n"
    and "\<And>n q k. (n, q, k) \<in> set (bigs V) \<Longrightarrow> big_ok p m V n q k \<Longrightarrow> big_ok p' m' V' n q k"
  shows "bigs_ok p' h m' V'"
proof -
  have "chain (node_next m') h (map fst (bigs V)) \<longleftrightarrow> chain (node_next m) h (map fst (bigs V))"
    by (rule chain_cong) (use assms(3) in auto)
  with assms(1,2,4) show ?thesis unfolding bigs_ok_def by auto
qed

lemma bigs_okD:
  assumes "bigs_ok p h m V"
  shows "(n, q, k) \<in> set (bigs V) \<Longrightarrow> big_ok p m V n q k"
    and "n \<in> fst ` set (bigs V) \<Longrightarrow> n \<in> used V \<and> is_slot V n 0"
  using assms by (auto simp: bigs_ok_def big_ok_def)

definition heap_ok :: "kheap \<Rightarrow> heap_view \<Rightarrow> bool" where
  "heap_ok st V \<longleftrightarrow> map slot_size (tiers st) = [32, 64, 128, 256, 512, 1024]
     \<and> pmm_ok (kpmm st) \<and> length (bitmap (kpmm st)) \<le> 2 ^ 31
     \<and> pools_ok (kpmm st) (kmem st) V \<and> frees_ok (tiers st) (kmem st) V
     \<and> bigs_ok (kpmm st) (big_alloc_head st) (kmem st) V \<and> (\<forall>s \<in> used V. \<exists>t < 6. is_slot V s t)"

subsection \<open>Addresses of pages and slots\<close>

lemma held_bound: "held p q \<Longrightarrow> length (bitmap p) \<le> 2 ^ 31 \<Longrightarrow> KB \<le> q \<and> q < KB + 2 ^ 34"
  by (auto simp: held_def)

lemma unat_vp: "q < 2 ^ 52 \<Longrightarrow> unat (vp q) = q * 4096"
  by (simp add: vp_def unat_frame)

lemma vp_div: "4096 dvd unat v \<Longrightarrow> vp (unat v div 4096) = v"
  by (simp add: vp_def frame_of_nat)

lemma PHYS_TO_VIRT_vp: "PHYS_TO_VIRT (of_nat p * PAGE_SIZE) = vp (KB + p)"
  by (simp add: PHYS_TO_VIRT_def vp_def algebra_simps)

lemma VIRT_TO_PHYS_vp: "KB \<le> q \<Longrightarrow> VIRT_TO_PHYS (vp q) = of_nat (q - KB) * PAGE_SIZE"
  using PHYS_TO_VIRT_vp[of "q - KB"] by (metis PHYS_VIRT_inverse(1) le_add_diff_inverse)

lemma PAGE_ALIGN_DOWN_vp: "PAGE_ALIGN_DOWN s = vp (unat s div 4096)"
proof -
  have "unat s div 4096 < 2 ^ 52" using u64_less[of s] by auto
  then show ?thesis by (intro word_unat_eq_iff[THEN iffD2]) (simp add: unat_PAGE_ALIGN_DOWN unat_vp)
qed

lemma unat_vp_off: "q < 2 ^ 52 \<Longrightarrow> unat k < 4096 \<Longrightarrow> unat (vp q + k) = q * 4096 + unat k"
  by (subst unat_add_small) (auto simp: unat_vp)

lemma class_cases:
  "t < 6 \<Longrightarrow> t = 0 \<or> t = 1 \<or> t = 2 \<or> t = 3 \<or> t = 4 \<or> t = (5 :: nat)"
  by linarith

lemma class_size_dvd: "t < 6 \<Longrightarrow> \<exists>d. 4096 = class_size t * d \<and> 4 \<le> d"
  by (rule exI[of _ "2 ^ (7 - t)"], drule class_cases) (auto simp: class_size_def)

lemma class_size_ge: "32 \<le> class_size t"
  by (simp add: class_size_def)

text \<open>The bytes of a slot: the page and the slot they belong to can be read off the address.\<close>

lemma slot_bytes:
  assumes "is_slot V s t" "t < 6" "unat s \<le> x" "x < unat s + class_size t"
  shows "x div 4096 = unat s div 4096" "32 \<le> x mod 4096" "unat s = x div class_size t * class_size t"
    "unat s + class_size t \<le> (unat s div 4096 + 1) * 4096"
proof -
  define c where "c = class_size t"
  obtain d where d: "4096 = c * d" using class_size_dvd[OF assms(2)] by (auto simp: c_def)
  have c: "32 \<le> c" by (simp add: c_def class_size_ge)
  obtain j where j: "unat s = c * j" using assms(1) by (auto simp: is_slot_def c_def mod_eq_0_iff_dvd)
  have x: "x div c = j" using assms(3,4) j by (intro div_nat_eqI) (simp_all add: c_def mult.commute)
  have s: "unat s div c = j" using j c by simp
  have "j mod d \<noteq> 0" using assms(1) j c unfolding is_slot_def d by (simp add: mult_mod_right[symmetric])
  moreover have "x mod 4096 = c * (j mod d) + x mod c" unfolding d mod_mult2_eq x ..
  moreover have "c * 1 \<le> c * (j mod d)" if "j mod d \<noteq> 0" using that by (intro mult_le_mono2) simp
  ultimately show "32 \<le> x mod 4096" using c by linarith
  show "x div 4096 = unat s div 4096" unfolding d div_mult2_eq x s ..
  show "unat s = x div class_size t * class_size t" using j x by (simp add: c_def)
  have "0 < d" using d by (cases d) auto
  then have "j < (j div d + 1) * d" by (simp add: dividend_less_div_times)
  then have "c * (j + 1) \<le> c * ((j div d + 1) * d)" by (intro mult_le_mono2) simp
  then show "unat s + class_size t \<le> (unat s div 4096 + 1) * 4096"
    unfolding d div_mult2_eq s j c_def[symmetric] by (simp add: algebra_simps)
qed

lemma slot_unique:
  assumes "is_slot V s t" "is_slot V s' t'" "t < 6" "t' < 6"
    and "unat s \<le> x" "x < unat s + class_size t" "unat s' \<le> x" "x < unat s' + class_size t'"
  shows "s = s'"
proof -
  from slot_bytes(1)[OF assms(1,3,5,6)] slot_bytes(1)[OF assms(2,4,7,8)] assms(1,2)
  have "t = t'" by (simp add: is_slot_def)
  with slot_bytes(3)[OF assms(1,3,5,6)] slot_bytes(3)[OF assms(2,4,7,8)] show ?thesis
    by (simp add: word_unat_eq_iff)
qed

lemma slot_fits:
  assumes "is_slot V s t" "t < 6"
  shows "unat s + class_size t \<le> 2 ^ 64"
proof -
  have "unat s div 4096 < 2 ^ 52" using u64_less[of s] by auto
  with slot_bytes(4)[OF assms, of "unat s"] class_size_ge[of t] show ?thesis by simp
qed

subsection \<open>The part of the memory that the heap relies on\<close>

lemma rd_le_same:
  assumes "unat a + k \<le> 2 ^ 64" "\<And>x. unat a \<le> unat x \<Longrightarrow> unat x < unat a + k \<Longrightarrow> m' x = m x"
  shows "rd_le k m' a = rd_le k m a"
proof (rule rd_le_cong)
  fix i assume "i < k"
  with assms(1) have "unat (a + of_nat i) = unat a + i"
    by (subst unat_add_small) (auto simp: unat_of_nat_small)
  with \<open>i < k\<close> show "m' (a + of_nat i) = m (a + of_nat i)" by (intro assms(2)) auto
qed

lemma wr_le_elsewhere:
  assumes "unat a + k \<le> 2 ^ 64" "k < 2 ^ 64" "\<not> (unat a \<le> unat x \<and> unat x < unat a + k)"
  shows "wr_le k m a v x = m x"
  using assms by (intro wr_le_outside) (simp add: in_block_unat unat_of_nat_small)

definition relevant :: "heap_view \<Rightarrow> u64 \<Rightarrow> bool" where
  "relevant V x \<longleftrightarrow> (pool V (unat x div 4096) \<noteq> None \<and> unat x mod 4096 < 5)
     \<or> (\<exists>t < 6. \<exists>s \<in> set (frees V t). unat s \<le> unat x \<and> unat x < unat s + 8)
     \<or> (\<exists>n \<in> fst ` set (bigs V). unat n \<le> unat x \<and> unat x < unat n + 24)"

lemma heap_okD:
  assumes "heap_ok st V"
  shows "map slot_size (tiers st) = [32, 64, 128, 256, 512, 1024]" "pmm_ok (kpmm st)"
    "length (bitmap (kpmm st)) \<le> 2 ^ 31" "pools_ok (kpmm st) (kmem st) V" "frees_ok (tiers st) (kmem st) V"
    "bigs_ok (kpmm st) (big_alloc_head st) (kmem st) V" "s \<in> used V \<Longrightarrow> \<exists>t < 6. is_slot V s t"
    "length (tiers st) = 6"
proof -
  show t: "map slot_size (tiers st) = [32, 64, 128, 256, 512, 1024]" using assms by (simp add: heap_ok_def)
  then have "length (map slot_size (tiers st)) = 6" by simp
  then show "length (tiers st) = 6" by simp
qed (use assms in \<open>auto simp: heap_ok_def\<close>)

lemma pool_bound: "heap_ok st V \<Longrightarrow> pool V q = Some t \<Longrightarrow> t < 6 \<and> KB \<le> q \<and> q < KB + 2 ^ 34"
  using heap_okD(3,4)[of st V] held_bound[of "kpmm st" q] by (auto simp: pools_ok_def)

lemma slot_tier: "heap_ok st V \<Longrightarrow> is_slot V s t \<Longrightarrow> t < 6"
  using pool_bound by (auto simp: is_slot_def)

lemma slot_nonnull: "is_slot V s t \<Longrightarrow> s \<noteq> 0"
  by (auto simp: is_slot_def)

lemma pools_ok_mem:
  assumes ok: "heap_ok st V" and rel: "\<And>x. relevant V x \<Longrightarrow> m' x = kmem st x"
  shows "pools_ok (kpmm st) m' V"
  unfolding pools_ok_def
proof (intro allI impI)
  fix q t assume q: "pool V q = Some t"
  from pool_bound[OF ok q] have b: "q < 2 ^ 52 - 1" by simp
  have r: "relevant V x" if "q * 4096 \<le> unat x" "unat x < q * 4096 + 5" for x
  proof -
    define i where "i = unat x - q * 4096"
    with that have "unat x = i + q * 4096" "i < 5" by auto
    then show ?thesis using q by (simp add: relevant_def)
  qed
  have "rd32 m' (vp q) = rd32 (kmem st) (vp q)"
    using b by (intro rd_le_same rel r) (auto simp: unat_vp)
  moreover have "m' (vp q + 4) = kmem st (vp q + 4)"
    using b by (intro rel r) (auto simp: unat_vp_off)
  ultimately show "t < 6 \<and> held (kpmm st) q \<and> rd32 m' (vp q) = MAGIC \<and> m' (vp q + 4) = of_nat t"
    using heap_okD(4)[OF ok] q by (auto simp: pools_ok_def)
qed

lemma frees_ok_mem:
  assumes ok: "heap_ok st V" and rel: "\<And>x. relevant V x \<Longrightarrow> m' x = kmem st x"
  shows "frees_ok (tiers st) m' V"
  unfolding frees_ok_def
proof (intro allI impI)
  fix t :: nat assume t: "t < 6"
  have f: "chain (slot_next (kmem st)) (free_head (tiers st ! t)) (frees V t) \<and> distinct (frees V t)
     \<and> (\<forall>s. s \<in> set (frees V t) \<longleftrightarrow> is_slot V s t \<and> s \<notin> used V)"
    using heap_okD(5)[OF ok] t by (auto simp: frees_ok_def)
  have "slot_next m' s = slot_next (kmem st) s" if "s \<in> set (frees V t)" for s
    unfolding slot_next_def
  proof (rule rd_le_same)
    show "unat s + 8 \<le> 2 ^ 64" using slot_fits[of V s t] f t that class_size_ge[of t] by auto
  qed (use t that in \<open>auto intro!: rel simp: relevant_def\<close>)
  with f show "chain (slot_next m') (free_head (tiers st ! t)) (frees V t) \<and> distinct (frees V t)
     \<and> (\<forall>s. s \<in> set (frees V t) \<longleftrightarrow> is_slot V s t \<and> s \<notin> used V)"
    using chain_cong[of "frees V t" "slot_next m'" "slot_next (kmem st)"] by blast
qed

lemma node_fits:
  assumes "is_slot V n t" "t < 6"
  shows "unat n + 24 \<le> 2 ^ 64" "unat (n + 8) = unat n + 8" "unat (n + 16) = unat n + 16"
  using slot_fits[OF assms] class_size_ge[of t] by (simp_all add: unat_add_small)

lemma node_fields_mem:
  assumes "is_slot V n t" "t < 6" and "\<And>x. unat n \<le> unat x \<Longrightarrow> unat x < unat n + 24 \<Longrightarrow> m' x = m x"
  shows "rd64 m' n = rd64 m n" "rd64 m' (n + 8) = rd64 m (n + 8)" "node_next m' n = node_next m n"
  unfolding node_next_def using node_fits[OF assms(1,2)] by (auto intro!: rd_le_same assms(3))

lemma bigs_ok_mem:
  assumes ok: "heap_ok st V" and rel: "\<And>x. relevant V x \<Longrightarrow> m' x = kmem st x"
  shows "bigs_ok (kpmm st) (big_alloc_head st) m' V"
proof -
  note b = heap_okD(6)[OF ok]
  have r: "rd64 m' n = rd64 (kmem st) n \<and> rd64 m' (n + 8) = rd64 (kmem st) (n + 8) \<and> node_next m' n = node_next (kmem st) n"
    if "n \<in> fst ` set (bigs V)" for n
  proof -
    have "m' x = kmem st x" if "unat n \<le> unat x" "unat x < unat n + 24" for x
      using \<open>n \<in> fst ` set (bigs V)\<close> that by (intro rel) (auto simp: relevant_def)
    with bigs_okD(2)[OF b that] show ?thesis using node_fields_mem[of V n 0 m' "kmem st"] by simp
  qed
  show ?thesis
  proof (rule bigs_ok_cong[OF b])
    fix n q k assume "(n, q, k) \<in> set (bigs V)" "big_ok (kpmm st) (kmem st) V n q k"
    with r[of n] show "big_ok (kpmm st) m' V n q k" by (force simp: big_ok_def)
  qed (use r in auto)
qed

lemma heap_ok_mem:
  assumes "heap_ok st V" "\<And>x. relevant V x \<Longrightarrow> m' x = kmem st x"
  shows "heap_ok (st\<lparr>kmem := m'\<rparr>) V"
  using assms(1) pools_ok_mem[OF assms] frees_ok_mem[OF assms] bigs_ok_mem[OF assms]
  by (simp add: heap_ok_def)

lemma is_slot_upd [simp]:
  "is_slot (V\<lparr>frees := f\<rparr>) = is_slot V" "is_slot (V\<lparr>used := u\<rparr>) = is_slot V" "is_slot (V\<lparr>bigs := b\<rparr>) = is_slot V"
  by (simp_all add: is_slot_def fun_eq_iff)

lemma relevant_pool:
  assumes ok: "heap_ok st V" and "relevant V x"
  obtains t where "pool V (unat x div 4096) = Some t"
proof -
  have slot: "pool V (unat x div 4096) = Some t" if "is_slot V s t" "unat s \<le> unat x" "unat x < unat s + class_size t" for s t
    using slot_bytes(1)[OF that(1) slot_tier[OF ok that(1)] that(2,3)] that(1) by (simp add: is_slot_def)
  have f: "is_slot V s t" if "s \<in> set (frees V t)" "t < 6" for s t
    using heap_okD(5)[OF ok] that by (auto simp: frees_ok_def)
  have b: "is_slot V n 0" if "n \<in> fst ` set (bigs V)" for n
    using bigs_okD(2)[OF heap_okD(6)[OF ok] that] by simp
  from assms(2) show thesis unfolding relevant_def
  proof (elim disjE)
    assume "\<exists>t < 6. \<exists>s \<in> set (frees V t). unat s \<le> unat x \<and> unat x < unat s + 8"
    then obtain t s where "t < 6" "s \<in> set (frees V t)" "unat s \<le> unat x" "unat x < unat s + 8" by auto
    then show thesis using slot[OF f, of s t] class_size_ge[of t] that by auto
  next
    assume "\<exists>n \<in> fst ` set (bigs V). unat n \<le> unat x \<and> unat x < unat n + 24"
    then obtain n where "n \<in> fst ` set (bigs V)" "unat n \<le> unat x" "unat x < unat n + 24" by blast
    then show thesis using slot[OF b, of n] class_size_ge[of 0] that by auto
  qed (use that in auto)
qed

text \<open>The bytes of a slot that is handed out, and is not a node, are not relied on.\<close>

lemma used_not_relevant:
  assumes ok: "heap_ok st V" and s: "is_slot V s t" "s \<in> used V" "s \<notin> fst ` set (bigs V)"
    and x: "unat s \<le> unat x" "unat x < unat s + class_size t"
  shows "\<not> relevant V x"
proof
  have t: "t < 6" by (rule slot_tier[OF ok s(1)])
  note b = slot_bytes[OF s(1) t x]
  assume "relevant V x"
  then consider "unat x mod 4096 < 5"
    | t' s' where "t' < 6" "s' \<in> set (frees V t')" "unat s' \<le> unat x" "unat x < unat s' + 8"
    | n where "n \<in> fst ` set (bigs V)" "unat n \<le> unat x" "unat x < unat n + 24"
    unfolding relevant_def by blast
  then show False
  proof cases
    case 2
    then have "is_slot V s' t'" "s' \<notin> used V" using heap_okD(5)[OF ok] by (auto simp: frees_ok_def)
    with slot_unique[OF s(1) _ t 2(1) x 2(3)] 2(4) class_size_ge[of t'] s(2) show False by auto
  next
    case 3
    then have "is_slot V n 0" using bigs_okD(2)[OF heap_okD(6)[OF ok]] by simp
    with slot_unique[OF s(1) _ t _ x 3(2)] 3(1,3) class_size_ge[of 0] s(3) show False by auto
  qed (use b(2) in simp)
qed

subsection \<open>Taking and returning a slot\<close>

lemma frees_okD:
  assumes "frees_ok ts m V" "t < 6"
  shows "chain (slot_next m) (free_head (ts ! t)) (frees V t)" "distinct (frees V t)"
    "s \<in> set (frees V t) \<longleftrightarrow> is_slot V s t \<and> s \<notin> used V"
  using assms by (auto simp: frees_ok_def)

text \<open>Only one class changes.\<close>

lemma frees_ok_upd:
  assumes fr: "frees_ok ts m V" and len: "length ts = 6" and t: "t < 6"
    and new: "chain (slot_next m) (free_head tt) xs" "distinct xs"
    and this_class: "\<And>s. s \<in> set xs \<longleftrightarrow> is_slot V' s t \<and> s \<notin> used V'"
    and others: "\<And>t' s. t' < 6 \<Longrightarrow> t' \<noteq> t \<Longrightarrow> is_slot V' s t' \<and> s \<notin> used V' \<longleftrightarrow> is_slot V s t' \<and> s \<notin> used V"
    and V': "frees V' = (frees V)(t := xs)"
  shows "frees_ok (ts[t := tt]) m V'"
  unfolding frees_ok_def
proof (intro allI impI)
  fix t' :: nat assume t': "t' < 6"
  show "chain (slot_next m) (free_head (ts[t := tt] ! t')) (frees V' t') \<and> distinct (frees V' t')
     \<and> (\<forall>s. s \<in> set (frees V' t') \<longleftrightarrow> is_slot V' s t' \<and> s \<notin> used V')"
  proof (cases "t' = t")
    case True
    with new this_class V' len t show ?thesis by simp
  next
    case False
    with frees_okD[OF fr t'] others[OF t' False] V' show ?thesis by simp
  qed
qed

lemma heap_ok_take:
  assumes ok: "heap_ok st V" and t: "t < 6" and f: "frees V t = s # ss"
  shows "heap_ok (st\<lparr>tiers := (tiers st)[t := (tiers st ! t)\<lparr>free_head := slot_next (kmem st) s\<rparr>]\<rparr>)
      (V\<lparr>frees := (frees V)(t := ss), used := insert s (used V)\<rparr>)" (is "heap_ok ?st ?V")
proof -
  note d = heap_okD[OF ok]
  have fr: "frees_ok (tiers st) (kmem st) V" by (rule d(5))
  have s: "is_slot V s t" "s \<notin> set ss" "s \<notin> used V" using frees_okD[OF fr t] frees_okD(3)[OF fr t, of s] f by auto
  have other: "t' = t" if "is_slot V s t'" for t' using that s(1) by (simp add: is_slot_def)
  have "map slot_size (tiers ?st) = map slot_size (tiers st)"
    by (simp add: map_update list_update_same_conv d(8) t)
  moreover have "frees_ok (tiers ?st) (kmem ?st) ?V"
  proof (simp, rule frees_ok_upd[OF fr d(8) t, where xs = ss])
    show "s' \<in> set ss \<longleftrightarrow> is_slot ?V s' t \<and> s' \<notin> used ?V" for s'
      using frees_okD(3)[OF fr t, of s'] f s by auto
    show "is_slot ?V s' t' \<and> s' \<notin> used ?V \<longleftrightarrow> is_slot V s' t' \<and> s' \<notin> used V" if "t' \<noteq> t" for t' s'
      using other[of t'] that by auto
  qed (use frees_okD(1,2)[OF fr t] f in auto)
  moreover have "bigs_ok (kpmm st) (big_alloc_head st) (kmem st) ?V"
    by (rule bigs_ok_cong[OF d(6)]) (auto simp: big_ok_def)
  moreover have "pools_ok (kpmm st) (kmem st) ?V" using d(4) by (simp add: pools_ok_def)
  ultimately show ?thesis using ok s(1) t unfolding heap_ok_def by auto
qed

lemma heap_ok_put:
  assumes ok: "heap_ok st V" and s: "is_slot V s t" "s \<in> used V" "s \<notin> fst ` set (bigs V)"
    and nx: "slot_next (kmem st) s = free_head (tiers st ! t)"
  shows "heap_ok (st\<lparr>tiers := (tiers st)[t := (tiers st ! t)\<lparr>free_head := s\<rparr>]\<rparr>)
      (V\<lparr>frees := (frees V)(t := s # frees V t), used := used V - {s}\<rparr>)" (is "heap_ok ?st ?V")
proof -
  note d = heap_okD[OF ok]
  have t: "t < 6" by (rule slot_tier[OF ok s(1)])
  have fr: "frees_ok (tiers st) (kmem st) V" by (rule d(5))
  have other: "t' = t" if "is_slot V s t'" for t' using that s(1) by (simp add: is_slot_def)
  have "map slot_size (tiers ?st) = map slot_size (tiers st)"
    by (simp add: map_update list_update_same_conv d(8) t)
  moreover have "frees_ok (tiers ?st) (kmem ?st) ?V"
  proof (simp, rule frees_ok_upd[OF fr d(8) t, where xs = "s # frees V t"])
    show "s' \<in> set (s # frees V t) \<longleftrightarrow> is_slot ?V s' t \<and> s' \<notin> used ?V" for s'
      using frees_okD(3)[OF fr t, of s'] s by auto
    show "is_slot ?V s' t' \<and> s' \<notin> used ?V \<longleftrightarrow> is_slot V s' t' \<and> s' \<notin> used V" if "t' \<noteq> t" for t' s'
      using other[of t'] that by auto
  qed (use frees_okD[OF fr t] slot_nonnull[OF s(1)] nx s(2) in auto)
  moreover have "bigs_ok (kpmm st) (big_alloc_head st) (kmem st) ?V"
    using s(3) by (intro bigs_ok_cong[OF d(6)]) (auto simp: big_ok_def rev_image_eqI)
  moreover have "pools_ok (kpmm st) (kmem st) ?V" using d(4) by (simp add: pools_ok_def)
  ultimately show ?thesis using ok unfolding heap_ok_def by auto
qed

subsection \<open>A new pool page\<close>

lemma heap_ok_pmm:
  assumes ok: "heap_ok st V" and p: "pmm_ok p" "length (bitmap p) \<le> 2 ^ 31"
      "\<And>q t. pool V q = Some t \<Longrightarrow> held (kpmm st) q \<Longrightarrow> held p q"
      "\<And>n q k i. (n, q, k) \<in> set (bigs V) \<Longrightarrow> i < k \<Longrightarrow> held (kpmm st) (q + i) \<Longrightarrow> held p (q + i)"
  shows "heap_ok (st\<lparr>kpmm := p\<rparr>) V"
proof -
  note d = heap_okD[OF ok]
  have "bigs_ok p (big_alloc_head st) (kmem st) V"
    using p(4) by (intro bigs_ok_cong[OF d(6)]) (auto simp: big_ok_def)
  moreover have "pools_ok p (kmem st) V" using d(4) p(3) by (auto simp: pools_ok_def)
  ultimately show ?thesis using ok p by (simp add: heap_ok_def)
qed

lemma init_tier_loop_ok:
  assumes "j < n" "8 \<le> c" "unat s + j * c + 8 \<le> 2 ^ 64"
  shows "\<exists>m'. init_tier_loop n (of_nat c) (s + of_nat (j * c)) s m = Ret m'
    \<and> (\<forall>k < j. slot_next m' (s + of_nat (k * c)) = s + of_nat (Suc k * c))
    \<and> (\<forall>x. \<not> (unat s \<le> unat x \<and> unat x < unat s + j * c) \<longrightarrow> m' x = m x)"
  using assms
proof (induction j arbitrary: n s m)
  case 0
  then obtain n' where "n = Suc n'" by (cases n) auto
  then show ?case by simp
next
  case (Suc j)
  then obtain n' where n: "n = Suc n'" "j < n'" by (cases n) auto
  have fit: "unat s + d < 2 ^ 64 \<Longrightarrow> unat (s + of_nat d) = unat s + d" for d
    by (subst unat_add_small) (auto simp: unat_of_nat_small)
  have u: "unat (s + of_nat (Suc j * c)) = unat s + Suc j * c" "unat (s + of_nat c) = unat s + c"
    by (rule fit; use Suc.prems(3) in simp)+
  then have lt: "s < s + of_nat (Suc j * c)" using Suc.prems(2) by (simp add: word_less_nat_alt del: of_nat_mult mult_Suc)
  define m1 where "m1 = wr64 m s (s + of_nat c)"
  have nx: "slot_next m1 s = s + of_nat c" by (simp add: m1_def slot_next_def)
  have "unat (s + of_nat c) + j * c + 8 \<le> 2 ^ 64" using Suc.prems(3) u by simp
  from Suc.IH[OF n(2) Suc.prems(2) this, of m1] obtain m' where m':
    "init_tier_loop n' (of_nat c) (s + of_nat c + of_nat (j * c)) (s + of_nat c) m1 = Ret m'"
    "\<forall>k < j. slot_next m' (s + of_nat c + of_nat (k * c)) = s + of_nat c + of_nat (Suc k * c)"
    "\<forall>x. \<not> (unat s + c \<le> unat x \<and> unat x < unat s + c + j * c) \<longrightarrow> m' x = m1 x" by (auto simp: u)
  have e: "s + of_nat (Suc k * c) = s + of_nat c + of_nat (k * c)" for k by (simp add: algebra_simps)
  have "init_tier_loop n (of_nat c) (s + of_nat (Suc j * c)) s m = Ret m'"
    using lt m'(1) nx by (simp add: n(1) Let_def m1_def[symmetric] e del: of_nat_mult mult_Suc)
  moreover have "slot_next m' (s + of_nat (k * c)) = s + of_nat (Suc k * c)" if "k < Suc j" for k
  proof (cases k)
    case 0
    have "rd64 m' s = rd64 m1 s" using m'(3) Suc.prems by (intro rd_le_same) auto
    then show ?thesis using nx 0 by (simp add: slot_next_def)
  next
    case (Suc i)
    then show ?thesis using m'(2) that by (simp add: e del: of_nat_mult mult_Suc)
  qed
  moreover have "m' x = m x" if "\<not> (unat s \<le> unat x \<and> unat x < unat s + Suc j * c)" for x
  proof -
    have "m' x = m1 x" using that m'(3) by auto
    also have "\<dots> = m x" unfolding m1_def using that Suc.prems by (intro wr_le_elsewhere) auto
    finally show ?thesis .
  qed
  ultimately show ?case by blast
qed

lemma chain_links:
  assumes "\<And>k. k < j \<Longrightarrow> nx (s + of_nat (k * c)) = s + of_nat (Suc k * c)" "nx (s + of_nat (j * c)) = 0"
    and "\<And>k. k \<le> j \<Longrightarrow> s + of_nat (k * c) \<noteq> 0"
  shows "chain nx s (map (\<lambda>k. s + of_nat (k * c)) [0..<Suc j])"
  using assms
proof (induction j arbitrary: s)
  case (Suc j)
  have e: "s + of_nat (Suc k * c) = s + of_nat c + of_nat (k * c)" for k by (simp add: algebra_simps)
  have "chain nx (s + of_nat c) (map (\<lambda>k. s + of_nat c + of_nat (k * c)) [0..<Suc j])"
    using Suc.prems(1)[of "Suc k" for k] Suc.prems(2) Suc.prems(3)[of "Suc k" for k]
    by (intro Suc.IH) (simp_all add: e del: of_nat_mult mult_Suc)
  moreover have "map (\<lambda>k. s + of_nat (k * c)) [0..<Suc (Suc j)]
      = s # map (\<lambda>k. s + of_nat c + of_nat (k * c)) [0..<Suc j]"
    by (simp add: upt_conv_Cons map_Suc_upt[symmetric] e del: upt_Suc of_nat_mult mult_Suc)
  ultimately show ?case using Suc.prems(1)[of 0] Suc.prems(3)[of 0] by (simp del: upt_Suc)
qed simp

lemma page_slots:
  assumes q: "q < 2 ^ 52 - 1" and d: "4096 = c * d" and s: "s = vp q + of_nat c" and c: "32 \<le> c"
  shows "k < d - 1 \<Longrightarrow> unat (s + of_nat (k * c)) = q * 4096 + Suc k * c"
    and "set (map (\<lambda>k. s + of_nat (k * c)) [0..<d - 1])
      = {x. unat x div 4096 = q \<and> unat x mod c = 0 \<and> unat x mod 4096 \<noteq> 0}"
    and "distinct (map (\<lambda>k. s + of_nat (k * c)) [0..<d - 1])"
proof -
  have off: "unat (vp q + of_nat n) = q * 4096 + n" if "n \<le> 4096" for n
    using q that by (subst unat_add_small) (auto simp: unat_vp unat_of_nat_small)
  have e: "s + of_nat (k * c) = vp q + of_nat (Suc k * c)" for k by (simp add: s algebra_simps)
  have le: "Suc k * c < 4096" if "k < d - 1" for k
  proof -
    have "Suc k * c < d * c" using that c by (intro mult_less_mono1) auto
    then show ?thesis using d by (simp add: mult.commute)
  qed
  show u: "unat (s + of_nat (k * c)) = q * 4096 + Suc k * c" if "k < d - 1" for k
    unfolding e using le[OF that] by (intro off) simp
  have cd: "q * 4096 mod c = 0" by (subst d) simp
  show "set (map (\<lambda>k. s + of_nat (k * c)) [0..<d - 1])
      = {x. unat x div 4096 = q \<and> unat x mod c = 0 \<and> unat x mod 4096 \<noteq> 0}" (is "?L = ?R")
  proof (intro set_eqI iffI)
    fix x assume "x \<in> ?L"
    then obtain k where k: "k < d - 1" "x = s + of_nat (k * c)" by auto
    have ux: "unat x = q * 4096 + Suc k * c" using u[OF k(1)] k(2) by simp
    have "unat x mod c = 0" unfolding ux using cd by (metis mod_add_left_eq mod_mult_self2_is_0 add_0)
    moreover have "unat x div 4096 = q" "unat x mod 4096 = Suc k * c" unfolding ux using le[OF k(1)] by simp_all
    ultimately show "x \<in> ?R" using c by simp
  next
    fix x assume x: "x \<in> ?R"
    define r where "r = unat x mod 4096"
    have ux: "unat x = q * 4096 + r" using x by (auto simp: r_def)
    have "c dvd q * 4096 + r" "c dvd q * 4096" using x ux cd by auto
    then have "c dvd r" using dvd_add_right_iff by blast
    then obtain i where i: "r = i * c" by (metis dvd_def mult.commute)
    have "i * c < d * c" using i d x by (simp add: r_def mult.commute[of d])
    then have "i < d" by simp
    moreover have "i \<noteq> 0" using x i by (auto simp: r_def)
    ultimately obtain k where k: "i = Suc k" "k < d - 1" by (cases i) auto
    have "x = s + of_nat (k * c)" using u[OF k(2)] ux i k(1) by (simp add: word_unat_eq_iff)
    with k(2) show "x \<in> ?L" by auto
  qed
  show "distinct (map (\<lambda>k. s + of_nat (k * c)) [0..<d - 1])"
  proof (simp only: distinct_map, intro conjI inj_onI)
    fix i j assume ij: "i \<in> set [0..<d - 1]" "j \<in> set [0..<d - 1]" and eq: "s + of_nat (i * c) = s + of_nat (j * c)"
    then have "q * 4096 + Suc i * c = q * 4096 + Suc j * c" using u[of i] u[of j] by auto
    then show "i = j" using c by auto
  qed simp
qed

lemma heap_ok_new_page:
  assumes ok: "heap_ok st V" and t: "t < 6" and f: "frees V t = []"
    and q: "pool V q = None" "held (kpmm st) q" "\<And>n q' k. (n, q', k) \<in> set (bigs V) \<Longrightarrow> q < q' \<or> q' + k \<le> q"
    and hd: "rd32 (kmem st) (vp q) = MAGIC" "kmem st (vp q + 4) = of_nat t"
    and xs: "chain (slot_next (kmem st)) h xs" "distinct xs"
      "set xs = {x. unat x div 4096 = q \<and> unat x mod class_size t = 0 \<and> unat x mod 4096 \<noteq> 0}"
  shows "heap_ok (st\<lparr>tiers := (tiers st)[t := (tiers st ! t)\<lparr>free_head := h\<rparr>]\<rparr>)
      (V\<lparr>pool := (pool V)(q \<mapsto> t), frees := (frees V)(t := xs)\<rparr>)" (is "heap_ok ?st ?V")
proof -
  note d = heap_okD[OF ok]
  have slots: "is_slot ?V s t' \<longleftrightarrow> is_slot V s t' \<or> t' = t \<and> s \<in> set xs" for s t'
    by (cases "unat s div 4096 = q") (auto simp: is_slot_def xs(3) q(1))
  have new: "s \<notin> used V" if "s \<in> set xs" for s
  proof -
    have "unat s div 4096 = q" using that by (simp add: xs(3))
    then show ?thesis using d(7)[of s] q(1) by (auto simp: is_slot_def)
  qed
  have none: "\<not> (is_slot V s t \<and> s \<notin> used V)" for s
    using frees_okD(3)[OF d(5) t, of s] f by simp
  have "map slot_size (tiers ?st) = map slot_size (tiers st)"
    by (simp add: map_update list_update_same_conv d(8) t)
  moreover have "frees_ok ((tiers st)[t := (tiers st ! t)\<lparr>free_head := h\<rparr>]) (kmem st) ?V"
  proof (rule frees_ok_upd[OF d(5,8) t, where xs = xs])
    show "s \<in> set xs \<longleftrightarrow> is_slot ?V s t \<and> s \<notin> used ?V" for s using slots new none by auto
    show "is_slot ?V s t' \<and> s \<notin> used ?V \<longleftrightarrow> is_slot V s t' \<and> s \<notin> used V" if "t' \<noteq> t" for t' s
      using slots that by simp
  qed (use xs in auto)
  moreover have "pools_ok (kpmm st) (kmem st) ?V" using d(4) q hd t by (auto simp: pools_ok_def)
  moreover have "bigs_ok (kpmm st) (big_alloc_head st) (kmem st) ?V"
  proof (rule bigs_ok_cong[OF d(6)])
    fix n q' k assume "(n, q', k) \<in> set (bigs V)" and b: "big_ok (kpmm st) (kmem st) V n q' k"
    from q(3)[OF this(1)] have "q' + i \<noteq> q" if "i < k" for i using that by auto
    with b slots show "big_ok (kpmm st) (kmem st) ?V n q' k" by (simp add: big_ok_def)
  qed simp_all
  moreover have "\<forall>s \<in> used ?V. \<exists>t < 6. is_slot ?V s t" using d(7) slots by fastforce
  ultimately show ?thesis using ok unfolding heap_ok_def by simp
qed

text \<open>What allocating a slot may change.\<close>

definition heap_grows :: "kheap \<Rightarrow> heap_view \<Rightarrow> kheap \<Rightarrow> heap_view \<Rightarrow> bool" where
  "heap_grows st V st' V' \<longleftrightarrow> bigs V' = bigs V \<and> big_alloc_head st' = big_alloc_head st
     \<and> length (bitmap (kpmm st')) = length (bitmap (kpmm st))
     \<and> (\<forall>q t. pool V q = Some t \<longrightarrow> pool V' q = Some t)
     \<and> (\<forall>q t. pool V' q = Some t \<longrightarrow> pool V q = Some t \<or> \<not> held (kpmm st) q)
     \<and> (\<forall>q. held (kpmm st) q \<longrightarrow> held (kpmm st') q)
     \<and> (\<forall>x. kmem st' x \<noteq> kmem st x \<longrightarrow> pool V' (unat x div 4096) \<noteq> None
          \<and> (unat x mod 4096 = 5 \<or> pool V (unat x div 4096) = None))"

lemma heap_grows_refl: "heap_grows st V st V"
  by (simp add: heap_grows_def)

lemma heap_growsD:
  assumes "heap_grows st V st' V'"
  shows "bigs V' = bigs V" "big_alloc_head st' = big_alloc_head st" "length (bitmap (kpmm st')) = length (bitmap (kpmm st))"
    "pool V q = Some t \<Longrightarrow> pool V' q = Some t" "pool V' q = Some t \<Longrightarrow> pool V q = Some t \<or> \<not> held (kpmm st) q"
    "held (kpmm st) q \<Longrightarrow> held (kpmm st') q"
    "kmem st' x \<noteq> kmem st x \<Longrightarrow> pool V' (unat x div 4096) \<noteq> None
       \<and> (unat x mod 4096 = 5 \<or> pool V (unat x div 4096) = None)"
  using assms by (auto simp: heap_grows_def)

lemma heap_grows_trans:
  assumes a: "heap_grows st V st1 V1" and b: "heap_grows st1 V1 st2 V2"
  shows "heap_grows st V st2 V2"
  unfolding heap_grows_def
proof (intro conjI allI impI)
  fix q t assume "pool V2 q = Some t"
  from heap_growsD(5)[OF b this] show "pool V q = Some t \<or> \<not> held (kpmm st) q"
    using heap_growsD(5,6)[OF a, of q] by auto
next
  fix x assume x: "kmem st2 x \<noteq> kmem st x"
  let ?q = "unat x div 4096"
  have mono: "pool V1 ?q \<noteq> None \<Longrightarrow> pool V2 ?q \<noteq> None" "pool V1 ?q = None \<Longrightarrow> pool V ?q = None"
    using heap_growsD(4)[OF b, of ?q] heap_growsD(4)[OF a, of ?q] by (auto, cases "pool V ?q") auto
  consider "kmem st2 x \<noteq> kmem st1 x" | "kmem st1 x \<noteq> kmem st x" using x by metis
  then have "pool V2 ?q \<noteq> None \<and> (unat x mod 4096 = 5 \<or> pool V ?q = None)"
  proof cases
    case 1
    from heap_growsD(7)[OF b 1] mono(2) show ?thesis by auto
  next
    case 2
    from heap_growsD(7)[OF a 2] mono(1) show ?thesis by auto
  qed
  then show "pool V2 ?q \<noteq> None" "unat x mod 4096 = 5 \<or> pool V ?q = None" by simp_all
qed (use heap_growsD[OF a] heap_growsD[OF b] in simp_all)

lemma slot_size_tier: "heap_ok st V \<Longrightarrow> t < 6 \<Longrightarrow> ucast (slot_size (tiers st ! t)) = (of_nat (class_size t) :: u64)"
proof -
  assume ok: "heap_ok st V" and t: "t < 6"
  have "slot_size (tiers st ! t) = [32, 64, 128, 256, 512, 1024] ! t"
    using heap_okD(1,8)[OF ok] t by (metis nth_map)
  with class_cases[OF t] show ?thesis by (auto simp: class_size_def)
qed

lemma held_take:
  "n div 8 < length (bitmap p) \<Longrightarrow> held (p\<lparr>bitmap := take_frame n (bitmap p)\<rparr>) q \<longleftrightarrow> held p q \<or> q = KB + n"
  using le_add_diff_inverse[of KB q] by (auto simp: held_def div_less_iff_less_mult)

lemma heap_free_bound: "heap_ok st V \<Longrightarrow> is_free (bitmap (kpmm st)) n \<Longrightarrow> 0 < n \<and> n < 2 ^ 34"
  using is_free_less[of "bitmap (kpmm st)" n] heap_okD(2,3)[of st V] by (cases n) (auto simp: pmm_ok_def)

lemma free_not_held: "is_free (bitmap p) n \<Longrightarrow> \<not> held p (KB + n)"
  by (simp add: held_def)

lemma not_held_fresh:
  assumes ok: "heap_ok st V" and q: "\<not> held (kpmm st) q"
  shows "pool V q = None" and "(n, q', k) \<in> set (bigs V) \<Longrightarrow> q < q' \<or> q' + k \<le> q"
proof -
  show "pool V q = None" using heap_okD(4)[OF ok] q by (cases "pool V q") (auto simp: pools_ok_def)
  assume "(n, q', k) \<in> set (bigs V)"
  from bigs_okD(1)[OF heap_okD(6)[OF ok] this] have "held (kpmm st) (q' + i)" if "i < k" for i
    using that by (simp add: big_ok_def)
  from this[of "q - q'"] q have "\<not> q - q' < k" if "q' \<le> q" using that by auto
  then show "q < q' \<or> q' + k \<le> q" by linarith
qed

text \<open>The memory of a freshly initialised page \<open>q\<close>.\<close>

lemma init_page_memory:
  fixes m :: mem
  assumes q: "q < 2 ^ 52 - 1" and t: "t < 6"
  defines "c \<equiv> class_size t"
  defines "m3 \<equiv> wr8 (wr32 (wr8 m (vp q + 5) 0) (vp q) MAGIC) (vp q + 4) (of_nat t)"
  obtains m4 where "init_tier_loop 128 (of_nat c) (vp q + PAGE_SIZE - of_nat c) (vp q + of_nat c) m3 = Ret m4"
    and "rd32 (wr64 m4 (vp q + PAGE_SIZE - of_nat c) 0) (vp q) = MAGIC"
    and "wr64 m4 (vp q + PAGE_SIZE - of_nat c) 0 (vp q + 4) = of_nat t"
    and "\<And>x. unat x div 4096 \<noteq> q \<Longrightarrow> wr64 m4 (vp q + PAGE_SIZE - of_nat c) 0 x = m x"
    and "\<exists>xs. chain (slot_next (wr64 m4 (vp q + PAGE_SIZE - of_nat c) 0)) (vp q + of_nat c) xs \<and> distinct xs
      \<and> set xs = {x. unat x div 4096 = q \<and> unat x mod c = 0 \<and> unat x mod 4096 \<noteq> 0} \<and> xs \<noteq> []"
proof -
  obtain d where d: "4096 = c * d" "4 \<le> d" using class_size_dvd[OF t] by (auto simp: c_def)
  have c: "32 \<le> c" by (simp add: c_def class_size_ge)
  have "32 * d \<le> c * d" using c by (rule mult_le_mono1)
  then have d2: "d \<le> 128" using d(1) by linarith
  define s where "s = vp q + of_nat c"
  define l where "l = vp q + PAGE_SIZE - of_nat c"
  define j where "j = d - 2"
  have dj: "d = Suc (Suc j)" using d(2) by (simp add: j_def)
  note slots = page_slots[OF q d(1) s_def c]
  have us: "unat s = q * 4096 + c" using slots(1)[of 0] dj by simp
  have jc: "4096 = 2 * c + j * c" using d(1) dj by (simp add: algebra_simps)
  have l: "l = s + of_nat (j * c)"
  proof -
    have "(4096 :: u64) = of_nat (2 * c + j * c)" unfolding jc[symmetric] by simp
    then show ?thesis by (simp add: l_def s_def algebra_simps)
  qed
  have ul: "unat l = q * 4096 + c + j * c" using slots(1)[of j] dj by (simp add: l algebra_simps)
  have fit: "unat s + j * c + 8 \<le> 2 ^ 64" using us jc q c by simp
  obtain m4 where m4: "init_tier_loop 128 (of_nat c) l s m3 = Ret m4"
    "\<And>k. k < j \<Longrightarrow> slot_next m4 (s + of_nat (k * c)) = s + of_nat (Suc k * c)"
    "\<And>x. \<not> (unat s \<le> unat x \<and> unat x < unat s + j * c) \<Longrightarrow> m4 x = m3 x"
    using init_tier_loop_ok[of j 128 c s m3] d2 dj c fit unfolding l by auto
  define m5 where "m5 = wr64 m4 l 0"
  have m5: "m5 x = m4 x" if "\<not> (unat l \<le> unat x \<and> unat x < unat l + 8)" for x
    unfolding m5_def using that ul jc q c by (intro wr_le_elsewhere) auto
  have low: "m5 x = m3 x" if "unat x < unat s" for x using that m5[of x] m4(3)[of x] us ul by auto
  have other: "m5 x = m x" if x: "unat x div 4096 \<noteq> q" for x
  proof -
    have out: "unat x < q * 4096 \<or> q * 4096 + 4096 \<le> unat x"
    proof (rule ccontr)
      assume "\<not> ?thesis"
      then have "unat x div 4096 = q" by (intro div_nat_eqI) auto
      with x show False by simp
    qed
    then have "m5 x = m3 x" using m5[of x] m4(3)[of x] us ul jc c by auto
    also have "\<dots> = m x"
    proof -
      have "x \<noteq> vp q + 4" "x \<noteq> vp q + 5" using out q by (auto simp: unat_vp_off)
      moreover have "wr32 m' (vp q) MAGIC x = m' x" for m'
        using out q by (intro wr_le_elsewhere) (auto simp: unat_vp)
      ultimately show ?thesis by (simp add: m3_def)
    qed
    finally show ?thesis .
  qed
  have hd: "rd32 m5 (vp q) = rd32 (wr32 (wr8 m (vp q + 5) 0) (vp q) MAGIC) (vp q)"
    using q c us
    by (intro rd_le_same) (auto simp: low unat_vp m3_def wr8_def unat_vp_off word_unat_eq_iff[of x for x])
  have chain: "chain (slot_next m5) s (map (\<lambda>k. s + of_nat (k * c)) [0..<Suc j])"
  proof (rule chain_links)
    fix k assume k: "k < j"
    have uk: "unat (s + of_nat (k * c)) = q * 4096 + Suc k * c" using slots(1)[of k] k dj by simp
    have "Suc k * c \<le> j * c" using k by (intro mult_le_mono1) simp
    then have "rd64 m5 (s + of_nat (k * c)) = rd64 m4 (s + of_nat (k * c))"
      using uk ul q jc c by (intro rd_le_same m5) auto
    with m4(2)[OF k] show "slot_next m5 (s + of_nat (k * c)) = s + of_nat (Suc k * c)" by (simp add: slot_next_def)
  next
    show "slot_next m5 (s + of_nat (j * c)) = 0" by (simp add: slot_next_def m5_def l)
    show "s + of_nat (k * c) \<noteq> 0" if "k \<le> j" for k
      using slots(1)[of k] that dj c by (auto simp: unat_eq_0[symmetric])
  qed
  have dd: "d - 1 = Suc j" using dj by simp
  show thesis
  proof (rule that[of m4], unfold l_def[symmetric] s_def[symmetric] m5_def[symmetric])
    show "rd32 m5 (vp q) = MAGIC" using hd by simp
    show "m5 (vp q + 4) = of_nat t" using us q c by (simp add: low unat_vp_off m3_def)
    show "\<exists>xs. chain (slot_next m5) s xs \<and> distinct xs
      \<and> set xs = {x. unat x div 4096 = q \<and> unat x mod c = 0 \<and> unat x mod 4096 \<noteq> 0} \<and> xs \<noteq> []"
      using chain slots(2,3) unfolding dd by (intro exI[of _ "map (\<lambda>k. s + of_nat (k * c)) [0..<Suc j]"]) auto
  qed (use m4(1) other in auto)
qed

lemma init_tier_ok:
  assumes ok: "heap_ok st V" and t: "t < 6" and f: "frees V t = []"
  shows "(\<exists>st' V'. init_tier t st = Ret (0, st') \<and> heap_ok st' V' \<and> heap_grows st V st' V'
      \<and> used V' = used V \<and> frees V' t \<noteq> [])
    \<or> init_tier t st = Ret (- ENOMEM, st) \<and> (\<forall>n. \<not> is_free (bitmap (kpmm st)) n)"
  using pmm_alloc_frame_first[of "kpmm st"]
proof (elim disjE exE conjE)
  assume "\<forall>n. \<not> is_free (bitmap (kpmm st)) n" "pmm_alloc_frame (kpmm st) = (0, kpmm st)"
  then show ?thesis by (simp add: init_tier_def alloc_page_def)
next
  fix n assume n: "first_free (bitmap (kpmm st)) n"
    and a: "pmm_alloc_frame (kpmm st) = (of_nat n * PAGE_SIZE, (kpmm st)\<lparr>bitmap := take_frame n (bitmap (kpmm st))\<rparr>)"
  define p where "p = (kpmm st)\<lparr>bitmap := take_frame n (bitmap (kpmm st))\<rparr>"
  define q where "q = KB + n"
  have fr: "is_free (bitmap (kpmm st)) n" using n by (simp add: first_free_def)
  note b = heap_free_bound[OF ok fr]
  have q: "q < 2 ^ 52 - 1" using b by (simp add: q_def)
  have nz: "of_nat n * PAGE_SIZE \<noteq> (0 :: u64)" "vp q \<noteq> 0"
    using b q unat_frame[of n] unat_vp[of q] by (auto simp: q_def)
  have page: "alloc_page (kpmm st) = (vp q, p)"
    using nz(1) by (simp add: alloc_page_def a p_def PHYS_TO_VIRT_vp q_def)
  have held: "held p q' \<longleftrightarrow> held (kpmm st) q' \<or> q' = q" for q'
    unfolding p_def q_def using fr by (intro held_take) (simp add: is_free_def)
  have nh: "\<not> held (kpmm st) q" unfolding q_def by (rule free_not_held[OF fr])
  define c where "c = class_size t"
  obtain m4 where m4: "init_tier_loop 128 (of_nat c) (vp q + PAGE_SIZE - of_nat c) (vp q + of_nat c)
      (wr8 (wr32 (wr8 (kmem st) (vp q + 5) 0) (vp q) MAGIC) (vp q + 4) (of_nat t)) = Ret m4"
    and hd: "rd32 (wr64 m4 (vp q + PAGE_SIZE - of_nat c) 0) (vp q) = MAGIC"
      "wr64 m4 (vp q + PAGE_SIZE - of_nat c) 0 (vp q + 4) = of_nat t"
    and mem: "\<And>x. unat x div 4096 \<noteq> q \<Longrightarrow> wr64 m4 (vp q + PAGE_SIZE - of_nat c) 0 x = kmem st x"
    and links: "\<exists>xs. chain (slot_next (wr64 m4 (vp q + PAGE_SIZE - of_nat c) 0)) (vp q + of_nat c) xs \<and> distinct xs
      \<and> set xs = {x. unat x div 4096 = q \<and> unat x mod c = 0 \<and> unat x mod 4096 \<noteq> 0} \<and> xs \<noteq> []"
    by (rule init_page_memory[OF q t, of "kmem st", folded c_def]) (rule that)
  then obtain xs where xs: "chain (slot_next (wr64 m4 (vp q + PAGE_SIZE - of_nat c) 0)) (vp q + of_nat c) xs" "distinct xs"
      "set xs = {x. unat x div 4096 = q \<and> unat x mod c = 0 \<and> unat x mod 4096 \<noteq> 0}" "xs \<noteq> []" by blast
  define m5 where "m5 = wr64 m4 (vp q + PAGE_SIZE - of_nat c) 0"
  define st1 where "st1 = st\<lparr>kmem := m5, kpmm := p\<rparr>"
  define st' where "st' = st1\<lparr>tiers := (tiers st1)[t := (tiers st1 ! t)\<lparr>free_head := vp q + of_nat c\<rparr>]\<rparr>"
  define V' where "V' = V\<lparr>pool := (pool V)(q \<mapsto> t), frees := (frees V)(t := xs)\<rparr>"
  have pok: "pmm_ok p" "length (bitmap p) \<le> 2 ^ 31"
    using bitmap.alloc_ok[OF heap_okD(2)[OF ok] a] heap_okD(3)[OF ok] by (simp_all add: p_def)
  have "heap_ok (st\<lparr>kmem := m5\<rparr>) V"
  proof (rule heap_ok_mem[OF ok])
    fix x assume "relevant V x"
    then obtain t' where "pool V (unat x div 4096) = Some t'" by (rule relevant_pool[OF ok])
    with not_held_fresh(1)[OF ok nh] have "unat x div 4096 \<noteq> q" by auto
    then show "m5 x = kmem st x" unfolding m5_def by (rule mem)
  qed
  from heap_ok_pmm[OF this pok] have ok1: "heap_ok st1 V" by (simp add: st1_def held)
  have ok': "heap_ok st' V'"
    unfolding st'_def V'_def
    using not_held_fresh[OF ok nh] held hd xs(1,2,3)
    by (intro heap_ok_new_page[OF ok1 t f]) (simp_all add: st1_def m5_def c_def)
  moreover have "init_tier t st = Ret (0, st')"
    using m4 heap_okD(8)[OF ok] t nz(2)
    by (simp add: init_tier_def page Let_def slot_size_tier[OF ok t] c_def st'_def st1_def m5_def)
  moreover have "heap_grows st V st' V'"
    using mem not_held_fresh(1)[OF ok nh] nh
    by (auto simp: heap_grows_def st'_def st1_def V'_def m5_def held p_def[symmetric]) (simp_all add: p_def)
  moreover have "used V' = used V" "frees V' t \<noteq> []" using xs(4) by (simp_all add: V'_def)
  ultimately show ?thesis by blast
qed

subsection \<open>Allocation\<close>

lemma relevant_offset:
  assumes ok: "heap_ok st V" and r: "relevant V x"
  shows "unat x mod 4096 < 5 \<or> 32 \<le> unat x mod 4096"
proof -
  have f: "32 \<le> unat x mod 4096" if "is_slot V s t" "unat s \<le> unat x" "unat x < unat s + 24" for s t
    using slot_bytes(2)[OF that(1) slot_tier[OF ok that(1)] that(2)] that(3) class_size_ge[of t] by simp
  from r show ?thesis unfolding relevant_def
  proof (elim disjE)
    assume "\<exists>t < 6. \<exists>s \<in> set (frees V t). unat s \<le> unat x \<and> unat x < unat s + 8"
    then obtain t s where "t < 6" "s \<in> set (frees V t)" "unat s \<le> unat x" "unat x < unat s + 8" by blast
    then show ?thesis using f[of s t] frees_okD(3)[OF heap_okD(5)[OF ok], of t s] by simp
  next
    assume "\<exists>n \<in> fst ` set (bigs V). unat n \<le> unat x \<and> unat x < unat n + 24"
    then obtain n where "n \<in> fst ` set (bigs V)" "unat n \<le> unat x" "unat x < unat n + 24" by blast
    then show ?thesis using f[of n 0] bigs_okD(2)[OF heap_okD(6)[OF ok], of n] by simp
  qed simp
qed

lemma kmalloc_small_take:
  assumes ok: "heap_ok st V" and t: "t < 6" and f: "frees V t = s # ss"
  defines "V' \<equiv> V\<lparr>frees := (frees V)(t := ss), used := insert s (used V)\<rparr>"
  shows "\<exists>st'. kmalloc_small (Suc n) t st = Ret (s, st') \<and> heap_ok st' V' \<and> heap_grows st V st' V'
    \<and> is_slot V' s t \<and> s \<notin> used V \<and> kpmm st' = kpmm st"
proof -
  have s: "is_slot V s t" "s \<notin> used V" using frees_okD(3)[OF heap_okD(5)[OF ok] t, of s] f by auto
  have h: "free_head (tiers st ! t) = s" "s \<noteq> 0"
    using frees_okD(1)[OF heap_okD(5)[OF ok] t] f by auto
  define q where "q = unat s div 4096"
  have q: "pool V q = Some t" using s by (simp add: is_slot_def q_def)
  have qb: "q < 2 ^ 52 - 1" using pool_bound[OF ok q] by simp
  define m where "m = wr8 (kmem st) (vp q + 5) (kmem st (vp q + 5) + 1)"
  have u5: "unat (vp q + 5) = 5 + q * 4096" using qb by (subst unat_vp_off) auto
  have mx: "m x = kmem st x" if "x \<noteq> vp q + 5" for x using that by (simp add: m_def)
  have "heap_ok (st\<lparr>kmem := m\<rparr>) V"
  proof (rule heap_ok_mem[OF ok])
    fix x assume "relevant V x"
    from relevant_offset[OF ok this] have "x \<noteq> vp q + 5" by (auto simp: u5)
    then show "m x = kmem st x" by (rule mx)
  qed
  from heap_ok_take[OF this t f]
  have ok': "heap_ok (st\<lparr>kmem := m, tiers := (tiers st)[t := (tiers st ! t)\<lparr>free_head := slot_next m s\<rparr>]\<rparr>) V'"
    (is "heap_ok ?st' V'") by (simp add: V'_def)
  have "kmalloc_small (Suc n) t st = Ret (s, ?st')"
    using h heap_okD(8)[OF ok] t by (simp add: Let_def PAGE_ALIGN_DOWN_vp q_def[symmetric] m_def)
  moreover have "heap_grows st V ?st' V'"
    unfolding heap_grows_def
  proof (intro conjI allI impI)
    fix x assume "kmem ?st' x \<noteq> kmem st x"
    with mx have "x = vp q + 5" by auto
    then have "unat x div 4096 = q" "unat x mod 4096 = 5" by (simp_all add: u5)
    then show "pool V' (unat x div 4096) \<noteq> None" "unat x mod 4096 = 5 \<or> pool V (unat x div 4096) = None"
      using q by (simp_all add: V'_def)
  qed (simp_all add: V'_def)
  moreover have "is_slot V' s t" using s(1) by (simp add: V'_def)
  ultimately show ?thesis using ok' s(2) by (intro exI[of _ ?st']) simp
qed

text \<open>The result of a small allocation: a fresh slot of the class, or null when every frame is taken.\<close>

definition small_result :: "kheap \<Rightarrow> heap_view \<Rightarrow> nat \<Rightarrow> u64 \<Rightarrow> kheap \<Rightarrow> heap_view \<Rightarrow> bool" where
  "small_result st V t a st' V' \<longleftrightarrow> heap_ok st' V' \<and> heap_grows st V st' V'
     \<and> (if a = 0 then st' = st \<and> V' = V \<and> (\<forall>n. \<not> is_free (bitmap (kpmm st)) n)
        else is_slot V' a t \<and> a \<notin> used V \<and> used V' = insert a (used V))"

lemma kmalloc_small_ok:
  assumes ok: "heap_ok st V" and t: "t < 6" and n: "2 \<le> n"
  shows "\<exists>a st' V'. kmalloc_small n t st = Ret (a, st') \<and> small_result st V t a st' V'"
proof (cases "frees V t")
  case (Cons s ss)
  obtain n' where n': "n = Suc n'" using n by (cases n) auto
  from kmalloc_small_take[OF ok t Cons, of n'] show ?thesis
    unfolding n' small_result_def using slot_nonnull by fastforce
next
  case Nil
  obtain n' where n': "n = Suc (Suc n')" using n by (metis add_2_eq_Suc le_Suc_ex)
  have h: "free_head (tiers st ! t) = 0" using frees_okD(1)[OF heap_okD(5)[OF ok] t] Nil by simp
  have e: "kmalloc_small n t st = exec_bind (init_tier t st) (\<lambda>(res, st1).
      if res < 0 then Ret (0, st1) else kmalloc_small (Suc n') t st1)"
    using h heap_okD(8)[OF ok] t by (simp add: n')
  from init_tier_ok[OF ok t Nil] show ?thesis
  proof (elim disjE exE conjE)
    fix st1 V1 assume i: "init_tier t st = Ret (0, st1)" "heap_ok st1 V1" "heap_grows st V st1 V1"
      "used V1 = used V" "frees V1 t \<noteq> []"
    then obtain s ss where f: "frees V1 t = s # ss" by (cases "frees V1 t") auto
    from kmalloc_small_take[OF i(2) t f, of n'] obtain st' V' where k: "kmalloc_small (Suc n') t st1 = Ret (s, st')"
      "heap_ok st' V'" "heap_grows st1 V1 st' V'" "is_slot V' s t" "s \<notin> used V1" "used V' = insert s (used V1)"
      by fastforce
    from heap_grows_trans[OF i(3) k(3)] k i(1,4) slot_nonnull[OF k(4)] show ?thesis
      unfolding e small_result_def by (intro exI[of _ s] exI[of _ st'] exI[of _ V']) (simp del: kmalloc_small.simps)
  qed (use e ok heap_grows_refl in \<open>auto simp: small_result_def simp del: kmalloc_small.simps\<close>)
qed

end
