(* ===== verification/Kheap.thy ===== *)
theory Kheap
  imports Kmalloc
begin

text \<open>
  What the kernel heap promises its users: \<^verbatim>\<open>kmalloc\<close> and \<^verbatim>\<open>kfree\<close> for all sizes, as operations on a
  set of live objects.
\<close>

section \<open>Big allocations\<close>

lemma size_to_tier_small:
  assumes "heap_ok st V" "unat sz \<le> 1024"
  obtains t where "t < 6" "size_to_tier_idx (tiers st) sz = int t" "unat sz \<le> class_size t"
proof -
  from heap_okD(1)[OF assms(1)] have ts: "map slot_size (tiers st) = [32, 64, 128, 256, 512, 1024]" .
  then obtain a b c d e f where t: "tiers st = [a, b, c, d, e, f]" "slot_size a = 32" "slot_size b = 64"
      "slot_size c = 128" "slot_size d = 256" "slot_size e = 512" "slot_size f = 1024"
    by (auto simp: map_eq_Cons_conv)
  consider "unat sz \<le> 32" | "32 < unat sz" "unat sz \<le> 64" | "64 < unat sz" "unat sz \<le> 128"
    | "128 < unat sz" "unat sz \<le> 256" | "256 < unat sz" "unat sz \<le> 512" | "512 < unat sz" "unat sz \<le> 1024"
    using assms(2) by linarith
  then show thesis
    by cases (rule that[of 0] that[of 1] that[of 2] that[of 3] that[of 4] that[of 5];
      simp add: size_to_tier_idx_def t word_le_nat_alt class_size_def; fail)+
qed

lemma size_to_tier_big:
  assumes "heap_ok st V" "1024 < unat sz"
  shows "size_to_tier_idx (tiers st) sz = TOO_BIG_SIZE"
proof -
  from heap_okD(1)[OF assms(1)] have ts: "map slot_size (tiers st) = [32, 64, 128, 256, 512, 1024]" .
  then obtain a b c d e f where "tiers st = [a, b, c, d, e, f]" "slot_size a = 32" "slot_size b = 64"
      "slot_size c = 128" "slot_size d = 256" "slot_size e = 512" "slot_size f = 1024"
    by (auto simp: map_eq_Cons_conv)
  with assms(2) show ?thesis by (simp add: size_to_tier_idx_def word_le_nat_alt)
qed

text \<open>A small request is served from its class.\<close>

lemma kmalloc_small_request:
  assumes ok: "heap_ok st V" and sz: "unat sz \<le> 1024" and n: "3 \<le> n"
  shows "\<exists>a st' V' t. kmalloc n sz st = Ret (a, st') \<and> t < 6 \<and> unat sz \<le> class_size t \<and> small_result st V t a st' V'
    \<and> (unat sz \<le> 32 \<longrightarrow> t = 0)"
proof -
  obtain n' where n': "n = Suc n'" "2 \<le> n'" using n by (cases n) auto
  obtain t where t: "t < 6" "size_to_tier_idx (tiers st) sz = int t" "unat sz \<le> class_size t"
    using size_to_tier_small[OF ok sz] .
  have "t = 0" if "unat sz \<le> 32"
  proof -
    obtain a ts where "tiers st = a # ts" "slot_size a = 32"
      using heap_okD(1)[OF ok] by (auto simp: map_eq_Cons_conv)
    with t(2) that show ?thesis by (simp add: size_to_tier_idx_def word_le_nat_alt)
  qed
  with kmalloc_small_ok[OF ok t(1) n'(2)] t show ?thesis
    by (fastforce simp: n'(1) kmalloc.simps Let_def)
qed

lemma held_take_run:
  assumes "p + nr \<le> length (bitmap pm) * 8"
  shows "held (pm\<lparr>bitmap := fold take_frame [p..<p + nr] (bitmap pm)\<rparr>) i \<longleftrightarrow> held pm i \<or> KB + p \<le> i \<and> i < KB + p + nr"
  using assms le_add_diff_inverse[of KB i] by (auto simp: held_def mark_taken_correct(2)[OF assms] fold_take_frames(1))

lemma alloc_pages_ok:
  assumes ok: "heap_ok st V" and nr: "nr \<noteq> 0"
  shows "(\<exists>q p. alloc_pages nr (kpmm st) = Ret (vp q, p) \<and> vp q \<noteq> 0 \<and> heap_ok (st\<lparr>kpmm := p\<rparr>) V
      \<and> (\<forall>i. held p i \<longleftrightarrow> held (kpmm st) i \<or> q \<le> i \<and> i < q + unat nr)
      \<and> (\<forall>i < unat nr. \<not> held (kpmm st) (q + i)) \<and> KB < q \<and> q < KB + 2 ^ 34
      \<and> free_pages (vp q) nr p = Ret (kpmm st))
    \<or> alloc_pages nr (kpmm st) = Ret (0, kpmm st)"
  using pmm_alloc_contiguous_frames_first[OF nr, of "kpmm st"]
proof (elim disjE exE conjE)
  fix p assume p: "first_run (bitmap (kpmm st)) p (unat nr)"
    and a: "pmm_alloc_contiguous_frames nr (kpmm st) = Ret (of_nat p * PAGE_SIZE,
      (kpmm st)\<lparr>bitmap := fold take_frame [p..<p + unat nr] (bitmap (kpmm st))\<rparr>)"
  define pm where "pm = (kpmm st)\<lparr>bitmap := fold take_frame [p..<p + unat nr] (bitmap (kpmm st))\<rparr>"
  note d = heap_okD[OF ok]
  have nr0: "0 < unat nr" using nr by (simp add: unat_gt_0)
  have run: "free_run (bitmap (kpmm st)) p (unat nr)" using p by (simp add: first_run_def)
  note b = free_run_bound[OF run nr0]
  have fr: "is_free (bitmap (kpmm st)) p" using run nr0 by (auto simp: free_run_def)
  note pb = heap_free_bound[OF ok fr]
  have nz: "of_nat p * PAGE_SIZE \<noteq> (0 :: u64)" "vp (KB + p) \<noteq> 0"
    using pb unat_frame[of p] unat_vp[of "KB + p"] by auto
  have held: "held pm i \<longleftrightarrow> held (kpmm st) i \<or> KB + p \<le> i \<and> i < KB + p + unat nr" for i
    unfolding pm_def by (rule held_take_run[OF b])
  have len: "length (bitmap pm) = length (bitmap (kpmm st))" by (simp add: pm_def fold_take_frames(1))
  have "pmm_ok pm" using d(2) by (simp add: pmm_ok_def len) (simp add: pm_def mark_taken_correct(2)[OF b])
  then have ok1: "heap_ok (st\<lparr>kpmm := pm\<rparr>) V" using d(3) by (intro heap_ok_pmm[OF ok]) (auto simp: len held)
  have e: "alloc_pages nr (kpmm st) = Ret (vp (KB + p), pm)"
    using nz(1) by (simp add: alloc_pages_def a pm_def[symmetric] PHYS_TO_VIRT_vp)
  have nh: "\<not> held (kpmm st) (KB + p + i)" if "i < unat nr" for i
    using free_not_held[of "kpmm st" "p + i"] run that by (simp add: free_run_def add.assoc)
  have "free_pages (vp (KB + p)) nr pm = Ret (pm\<lparr>bitmap := fold release_frame [p..<p + unat nr] (bitmap pm)\<rparr>)"
    unfolding free_pages_def using b d(3) VIRT_TO_PHYS_vp[of "KB + p"]
    by (simp add: pmm_free_contiguous_correct[of p nr pm] len)
  moreover have "fold release_frame [p..<p + unat nr] (bitmap pm) = bitmap (kpmm st)"
  proof (rule bitmap_eqI)
    fix i
    have "is_free (fold release_frame [p..<p + unat nr] (bitmap pm)) i
        \<longleftrightarrow> is_free (bitmap pm) i \<or> i \<in> set [p..<p + unat nr]"
      using b by (intro fold_release_frames(2)) (auto simp: len div_less_iff_less_mult)
    also have "\<dots> \<longleftrightarrow> is_free (bitmap (kpmm st)) i"
      using run by (auto simp: pm_def mark_taken_correct(2)[OF b] free_run_def)
    finally show "is_free (fold release_frame [p..<p + unat nr] (bitmap pm)) i = is_free (bitmap (kpmm st)) i" .
  qed (simp add: fold_release_frames(1) len)
  ultimately have "free_pages (vp (KB + p)) nr pm = Ret (kpmm st)" by (simp add: pm_def)
  with ok1 held nh pb nz(2) e show ?thesis
    by (intro disjI1 exI[of _ "KB + p"] exI[of _ pm]) simp
qed (simp add: alloc_pages_def)

lemma heap_ok_add_big:
  assumes ok: "heap_ok st V" and n: "n \<in> used V" "is_slot V n 0" "n \<notin> fst ` set (bigs V)"
    and m: "rd64 (kmem st) n = vp q" "rd64 (kmem st) (n + 8) = of_nat k" "node_next (kmem st) n = big_alloc_head st"
    and q: "KB < q" "0 < k" "\<And>i. i < k \<Longrightarrow> held (kpmm st) (q + i) \<and> pool V (q + i) = None"
    and apart: "\<And>n' q' k'. (n', q', k') \<in> set (bigs V) \<Longrightarrow> q + k \<le> q' \<or> q' + k' \<le> q"
  shows "heap_ok (st\<lparr>big_alloc_head := n\<rparr>) (V\<lparr>bigs := (n, q, k) # bigs V\<rparr>)" (is "heap_ok ?st ?V")
proof -
  note d = heap_okD[OF ok]
  have b: "big_ok (kpmm st) (kmem st) ?V n q k" using n(1,2) m q by (simp add: big_ok_def)
  have old: "big_ok (kpmm st) (kmem st) ?V n' q' k'" if "(n', q', k') \<in> set (bigs V)" for n' q' k'
    using bigs_okD(1)[OF d(6) that] by (simp add: big_ok_def)
  have c: "chain (node_next (kmem st)) n (map fst (bigs ?V))"
    using d(6) m(3) slot_nonnull[OF n(2)] by (simp add: bigs_ok_def)
  have "\<forall>(n1, q1, k1) \<in> set (bigs ?V). \<forall>(n', q', k') \<in> set (bigs ?V). n1 \<noteq> n' \<longrightarrow> q1 + k1 \<le> q' \<or> q' + k' \<le> q1"
    using d(6) apart by (fastforce simp: bigs_ok_def)
  moreover have "\<forall>(n', q', k') \<in> set (bigs ?V). big_ok (kpmm st) (kmem st) ?V n' q' k'" using b old by auto
  moreover have "distinct (map fst (bigs ?V))" using d(6) n(3) by (simp add: bigs_ok_def)
  ultimately have "bigs_ok (kpmm st) n (kmem st) ?V" using c unfolding bigs_ok_def by blast
  moreover have "pools_ok (kpmm st) (kmem st) ?V" using d(4) by (simp add: pools_ok_def)
  moreover have "frees_ok (tiers st) (kmem st) ?V" using d(5) by (simp add: frees_ok_def)
  ultimately show ?thesis using ok unfolding heap_ok_def by simp
qed

text \<open>The result of a big allocation: pages that were free, with a node that records them.\<close>

definition big_result :: "kheap \<Rightarrow> heap_view \<Rightarrow> u64 \<Rightarrow> u64 \<Rightarrow> kheap \<Rightarrow> heap_view \<Rightarrow> bool" where
  "big_result st V sz a st' V' \<longleftrightarrow> heap_ok st' V' \<and>
     (if a = 0 then st' = st \<and> V' = V
      else \<exists>n q k. a = vp q \<and> unat sz \<le> 4096 * k \<and> bigs V' = (n, q, k) # bigs V \<and> n \<notin> used V
        \<and> used V' = insert n (used V) \<and> (\<forall>i < k. \<not> held (kpmm st) (q + i))
        \<and> (\<forall>q t. pool V q = Some t \<longrightarrow> pool V' q = Some t)
        \<and> (\<forall>q t. pool V' q = Some t \<longrightarrow> pool V q = Some t \<or> \<not> held (kpmm st) q)
        \<and> (\<forall>q. held (kpmm st) q \<longrightarrow> held (kpmm st') q)
        \<and> (\<forall>x. kmem st' x \<noteq> kmem st x \<longrightarrow>
             pool V' (unat x div 4096) \<noteq> None \<and> (unat x mod 4096 = 5 \<or> pool V (unat x div 4096) = None)
             \<or> unat n \<le> unat x \<and> unat x < unat n + 24))"

text \<open>Writing the three fields of a node.\<close>

lemma node_write:
  fixes m :: mem and a b c :: u64
  assumes n: "is_slot V n t" "t < 6"
  defines "m' \<equiv> wr64 (wr64 (wr64 m n a) (n + 8) b) (n + 16) c"
  shows "rd64 m' n = a" "rd64 m' (n + 8) = b" "node_next m' n = c"
    and "\<not> (unat n \<le> unat x \<and> unat x < unat n + 24) \<Longrightarrow> m' x = m x"
proof -
  note f = node_fits[OF n]
  have d: "disjoint_blocks (n + 16) 8 n 8" "disjoint_blocks (n + 8) 8 n 8" "disjoint_blocks (n + 16) 8 (n + 8) 8"
    using f by (auto intro!: disjoint_blocks_unat)
  show "rd64 m' n = a" "rd64 m' (n + 8) = b" "node_next m' n = c"
    using d by (simp_all add: m'_def rd_wr_disjoint node_next_def)
  assume "\<not> (unat n \<le> unat x \<and> unat x < unat n + 24)"
  then have "wr64 m1 n v x = m1 x" "wr64 m1 (n + 8) v x = m1 x" "wr64 m1 (n + 16) v x = m1 x" for m1 :: mem and v :: u64
    using f by (auto intro!: wr_le_elsewhere)
  then show "m' x = m x" unfolding m'_def by simp
qed

lemma npages_value:
  assumes "1024 < unat sz" "unat sz + 4095 < 2 ^ 64"
  shows "unat (PAGE_ALIGN_UP sz div PAGE_SIZE) = (unat sz + 4095) div 4096" "PAGE_ALIGN_UP sz div PAGE_SIZE \<noteq> 0"
proof -
  show u: "unat (PAGE_ALIGN_UP sz div PAGE_SIZE) = (unat sz + 4095) div 4096"
    using assms(2) by (simp add: unat_div unat_PAGE_ALIGN_UP)
  have "0 < (unat sz + 4095) div 4096" using assms(1) by (simp add: div_greater_zero_iff)
  with u show "PAGE_ALIGN_UP sz div PAGE_SIZE \<noteq> 0" by (metis unat_0 less_irrefl)
qed

lemma kmalloc_big_request:
  assumes ok: "heap_ok st V" and sz: "1024 < unat sz" "unat sz + 4095 < 2 ^ 64" and n: "5 \<le> n"
  shows "\<exists>a st' V'. kmalloc n sz st = Ret (a, st') \<and> big_result st V sz a st' V'"
proof -
  obtain n' where n': "n = Suc (Suc n')" "3 \<le> n'"
    using n by (intro that[of "n - 2"]) auto
  define nr where "nr = PAGE_ALIGN_UP sz div PAGE_SIZE"
  note np = npages_value[OF sz, folded nr_def]
  have e: "kmalloc n sz st = kmalloc_big (Suc n') sz st"
    using size_to_tier_big[OF ok sz(1)] by (simp add: n'(1) kmalloc.simps Let_def)
  from alloc_pages_ok[OF ok np(2)] show ?thesis
  proof (elim disjE exE conjE)
    assume "alloc_pages nr (kpmm st) = Ret (0, kpmm st)"
    then show ?thesis using ok unfolding e by (simp add: kmalloc_big.simps Let_def nr_def[symmetric] big_result_def)
  next
    fix q p assume a: "alloc_pages nr (kpmm st) = Ret (vp q, p)" "vp q \<noteq> 0" and ok1: "heap_ok (st\<lparr>kpmm := p\<rparr>) V"
      and held: "\<forall>i. held p i \<longleftrightarrow> held (kpmm st) i \<or> q \<le> i \<and> i < q + unat nr"
      and nh: "\<forall>i < unat nr. \<not> held (kpmm st) (q + i)" and q: "KB < q" "q < KB + 2 ^ 34"
      and fr: "free_pages (vp q) nr p = Ret (kpmm st)"
    define st1 where "st1 = st\<lparr>kpmm := p\<rparr>"
    obtain nd st2 V2 where k: "kmalloc n' sizeof_big_alloc_node st1 = Ret (nd, st2)" "small_result st1 V 0 nd st2 V2"
      using kmalloc_small_request[OF ok1 _ n'(2), of 24] unfolding st1_def by auto
    show ?thesis
    proof (cases "nd = 0")
      case True
      with k(2) have "st2 = st1" by (simp add: small_result_def)
      then have "kmalloc n sz st = Ret (0, st)"
        using a k(1) True fr unfolding e by (simp add: kmalloc_big.simps Let_def nr_def[symmetric] st1_def)
      then show ?thesis using ok by (auto simp: big_result_def)
    next
      case False
      then have s: "heap_ok st2 V2" "heap_grows st1 V st2 V2" "is_slot V2 nd 0" "nd \<notin> used V" "used V2 = insert nd (used V)"
        using k(2) by (auto simp: small_result_def)
      note g = heap_growsD[OF s(2)]
      define m where "m = wr64 (wr64 (wr64 (kmem st2) nd (vp q)) (nd + 8) nr) (nd + 16) (big_alloc_head st2)"
      note w = node_write[OF s(3) zero_less_numeral, where m = "kmem st2" and a = "vp q" and b = nr
          and c = "big_alloc_head st2", folded m_def]
      define st' where "st' = st2\<lparr>kmem := m, big_alloc_head := nd\<rparr>"
      define V' where "V' = V2\<lparr>bigs := (nd, q, unat nr) # bigs V2\<rparr>"
      have nb: "nd \<notin> fst ` set (bigs V2)" using bigs_okD(2)[OF heap_okD(6)[OF ok]] s(4) g(1) by auto
      have "heap_ok (st2\<lparr>kmem := m\<rparr>) V2"
      proof (rule heap_ok_mem[OF s(1)])
        fix x assume "relevant V2 x"
        with used_not_relevant[OF s(1,3) _ nb, of x] s(5) class_size_ge[of 0]
        have "\<not> (unat nd \<le> unat x \<and> unat x < unat nd + 24)" by auto
        then show "m x = kmem st2 x" by (rule w(4))
      qed
      moreover have "held (kpmm st2) (q + i) \<and> pool V2 (q + i) = None" if "i < unat nr" for i
      proof -
        have "held (kpmm st1) (q + i)" using held that by (simp add: st1_def)
        moreover have "pool V (q + i) = None" using not_held_fresh(1)[OF ok] nh that by blast
        ultimately show ?thesis using g(5)[of "q + i"] g(6)[of "q + i"] by (cases "pool V2 (q + i)") auto
      qed
      moreover have "q + unat nr \<le> q' \<or> q' + k' \<le> q" if b: "(n1, q', k') \<in> set (bigs V2)" for n1 q' k'
      proof (rule ccontr)
        assume c: "\<not> ?thesis"
        define i where "i = max q q' - q"
        have "0 < k'" using bigs_okD(1)[OF heap_okD(6)[OF s(1)] b] by (simp add: big_ok_def)
        moreover have "0 < unat nr" using np(2) by (simp add: unat_gt_0)
        ultimately have "i < unat nr" "q' \<le> q + i" "q + i < q' + k'" using c by (auto simp: i_def)
        with not_held_fresh(2)[OF ok, of "q + i" n1 q' k'] nh b g(1) show False by fastforce
      qed
      ultimately have ok': "heap_ok st' V'"
        using heap_ok_add_big[of "st2\<lparr>kmem := m\<rparr>" V2 nd q "unat nr"] s(3,5) nb w(1,2,3) q(1) np(2)
        by (simp add: st'_def V'_def unat_gt_0)
      have r: "kmalloc n sz st = Ret (vp q, st')"
        using a k(1) False unfolding e
        by (simp add: kmalloc_big.simps Let_def nr_def[symmetric] st1_def st'_def m_def)
      have "unat sz \<le> 4096 * unat nr" unfolding np(1) by simp
      moreover have "kmem st' x \<noteq> kmem st x \<longrightarrow>
             pool V' (unat x div 4096) \<noteq> None \<and> (unat x mod 4096 = 5 \<or> pool V (unat x div 4096) = None)
             \<or> unat nd \<le> unat x \<and> unat x < unat nd + 24" for x
        using g(7)[of x] w(4)[of x] by (auto simp: st'_def V'_def st1_def)
      moreover have "pool V' i = Some t \<longrightarrow> pool V i = Some t \<or> \<not> held (kpmm st) i" "held (kpmm st) i \<longrightarrow> held (kpmm st') i" for i t
        using g(5)[of i t] g(6)[of i] held by (auto simp: st'_def V'_def st1_def)
      ultimately have "big_result st V sz (vp q) st' V'"
        using ok' a(2) nh s(4,5) g(1,4) unfolding big_result_def
        by (simp add: V'_def)
      with r show ?thesis by blast
    qed
  qed
qed

section \<open>Freeing\<close>

lemma header_tier_pool:
  assumes ok: "heap_ok st V" and q: "pool V q = Some t"
  shows "rd32 (kmem st) (vp q) = MAGIC" "header_tier (kmem st) (vp q) = t"
proof -
  have t: "t < 6" "kmem st (vp q + 4) = of_nat t" and m: "rd32 (kmem st) (vp q) = MAGIC"
    using heap_okD(4)[OF ok] q by (auto simp: pools_ok_def)
  show "rd32 (kmem st) (vp q) = MAGIC" by (rule m)
  show "header_tier (kmem st) (vp q) = t" using t by (simp add: header_tier_def unat_of_nat)
qed

lemma kfree_small:
  assumes ok: "heap_ok st V" and s: "is_slot V s t" "s \<in> used V" "s \<notin> fst ` set (bigs V)"
  defines "V' \<equiv> V\<lparr>frees := (frees V)(t := s # frees V t), used := used V - {s}\<rparr>"
  shows "\<exists>st'. (\<forall>n. kfree (Suc n) s st = Ret st') \<and> heap_ok st' V' \<and> kpmm st' = kpmm st
    \<and> big_alloc_head st' = big_alloc_head st
    \<and> (\<forall>x. \<not> (unat s \<le> unat x \<and> unat x < unat s + 8) \<longrightarrow> kmem st' x = kmem st x)"
proof -
  have t: "t < 6" by (rule slot_tier[OF ok s(1)])
  define q where "q = unat s div 4096"
  have q: "pool V q = Some t" using s(1) by (simp add: is_slot_def q_def)
  note h = header_tier_pool[OF ok q]
  have fits: "unat s + 8 \<le> 2 ^ 64" using slot_fits[OF s(1) t] class_size_ge[of t] by simp
  define m where "m = wr64 (kmem st) s (free_head (tiers st ! t))"
  have out: "m x = kmem st x" if "\<not> (unat s \<le> unat x \<and> unat x < unat s + 8)" for x
    unfolding m_def using fits that by (intro wr_le_elsewhere) auto
  have ok1: "heap_ok (st\<lparr>kmem := m\<rparr>) V"
  proof (rule heap_ok_mem[OF ok])
    fix x assume "relevant V x"
    with used_not_relevant[OF ok s] class_size_ge[of t] show "m x = kmem st x" by (intro out) auto
  qed
  have "slot_next m s = free_head (tiers st ! t)" by (simp add: m_def slot_next_def)
  with heap_ok_put[OF ok1 s]
  have ok': "heap_ok (st\<lparr>kmem := m, tiers := (tiers st)[t := (tiers st ! t)\<lparr>free_head := s\<rparr>]\<rparr>) V'" (is "heap_ok ?st' V'")
    by (simp add: V'_def)
  have "header_tier m (vp q) = t" using header_tier_pool(2)[OF ok1 q] by simp
  then have "kfree (Suc n) s st = Ret ?st'" for n
    using h t heap_okD(8)[OF ok]
    by (simp add: kfree.simps Let_def PAGE_ALIGN_DOWN_vp q_def[symmetric] m_def[symmetric])
  with ok' out show ?thesis by (intro exI[of _ ?st']) simp
qed

lemma big_search_found:
  assumes "chain (node_next m) cur (map fst (bs1 @ (n, q, k) # bs2))"
    and "\<And>n' q' k'. (n', q', k') \<in> set bs1 \<Longrightarrow> rd64 m n' \<noteq> v" "rd64 m n = v" "length bs1 < fuel"
  shows "big_search fuel m v prev cur = Ret (if bs1 = [] then prev else fst (last bs1), n)"
  using assms
proof (induction bs1 arbitrary: prev cur fuel)
  case Nil
  then obtain f where "fuel = Suc f" by (cases fuel) auto
  with Nil show ?case by auto
next
  case (Cons b bs1)
  obtain n1 q1 k1 where b: "b = (n1, q1, k1)" by (cases b) auto
  obtain f where f: "fuel = Suc f" "length bs1 < f" using Cons.prems(4) by (cases fuel) auto
  have c: "cur = n1" "n1 \<noteq> 0" "chain (node_next m) (node_next m n1) (map fst (bs1 @ (n, q, k) # bs2))"
    using Cons.prems(1) b by auto
  have "rd64 m n1 \<noteq> v" using Cons.prems(2) b by auto
  moreover have "rd64 m n' \<noteq> v" if "(n', q', k') \<in> set bs1" for n' q' k' using Cons.prems(2)[of n' q' k'] that by simp
  ultimately show ?case using Cons.IH[OF c(3) _ Cons.prems(3) f(2), of n1] c b f(1) by simp
qed

lemma chain_remove:
  assumes "chain nx h (xs @ p # n # ys)" "distinct (xs @ p # n # ys)"
    and "\<And>x. x \<in> set (xs @ ys) \<Longrightarrow> nx' x = nx x" "nx' p = nx n"
  shows "chain nx' h (xs @ p # ys)"
  using assms
proof (induction xs arbitrary: h)
  case Nil
  have "chain nx (nx n) ys" using Nil.prems(1) by simp
  then have "chain nx' (nx n) ys" using chain_cong[of ys nx' nx] Nil.prems(3) by simp
  then show ?case using Nil.prems by simp
qed auto

text \<open>Writing the link of a node leaves the other fields and nodes alone.\<close>

lemma node_link_write:
  fixes m :: mem and v :: u64
  assumes p: "is_slot V p 0"
  defines "m' \<equiv> wr64 m (p + 16) v"
  shows "node_next m' p = v" "rd64 m' p = rd64 m p" "rd64 m' (p + 8) = rd64 m (p + 8)"
    and "is_slot V n 0 \<Longrightarrow> n \<noteq> p \<Longrightarrow>
      rd64 m' n = rd64 m n \<and> rd64 m' (n + 8) = rd64 m (n + 8) \<and> node_next m' n = node_next m n"
    and "\<not> (unat p \<le> unat x \<and> unat x < unat p + 24) \<Longrightarrow> m' x = m x"
proof -
  note f = node_fits[OF p zero_less_numeral]
  show "node_next m' p = v" by (simp add: m'_def node_next_def)
  have d: "disjoint_blocks (p + 16) 8 p 8" "disjoint_blocks (p + 16) 8 (p + 8) 8"
    using f by (auto intro!: disjoint_blocks_unat)
  then show "rd64 m' p = rd64 m p" "rd64 m' (p + 8) = rd64 m (p + 8)" by (simp_all add: m'_def rd_wr_disjoint)
  show out: "m' x = m x" if "\<not> (unat p \<le> unat x \<and> unat x < unat p + 24)" for x
    unfolding m'_def using that f by (intro wr_le_elsewhere) auto
  assume n: "is_slot V n 0" "n \<noteq> p"
  have "m' x = m x" if "unat n \<le> unat x" "unat x < unat n + 24" for x
    using slot_unique[OF n(1) p _ _ that(1)] that n(2) class_size_ge[of 0] by (intro out) auto
  with node_fields_mem[OF n(1), of m' m]
  show "rd64 m' n = rd64 m n \<and> rd64 m' (n + 8) = rd64 m (n + 8) \<and> node_next m' n = node_next m n" by simp
qed

lemma heap_ok_forget: "heap_ok st V \<Longrightarrow> heap_ok (st\<lparr>big_alloc_head := 0\<rparr>) (V\<lparr>bigs := []\<rparr>)"
  by (auto simp: heap_ok_def pools_ok_def frees_ok_def bigs_ok_def)

lemma heap_ok_other_bigs:
  assumes "heap_ok (st\<lparr>big_alloc_head := 0\<rparr>) (V\<lparr>bigs := []\<rparr>)" "bigs_ok (kpmm st) (big_alloc_head st) (kmem st) (V\<lparr>bigs := bs\<rparr>)"
  shows "heap_ok st (V\<lparr>bigs := bs\<rparr>)"
  using assms by (simp add: heap_ok_def pools_ok_def frees_ok_def)

lemma bigs_apart:
  assumes "bigs_ok p h m V" "set bs \<subseteq> set (bigs V)"
  shows "\<forall>(n, q, k) \<in> set bs. \<forall>(n', q', k') \<in> set bs. n \<noteq> n' \<longrightarrow> q + k \<le> q' \<or> q' + k' \<le> q"
proof -
  have "\<forall>(n, q, k) \<in> set (bigs V). \<forall>(n', q', k') \<in> set (bigs V). n \<noteq> n' \<longrightarrow> q + k \<le> q' \<or> q' + k' \<le> q"
    using assms(1) by (simp add: bigs_ok_def)
  with assms(2) show ?thesis by blast
qed

text \<open>Taking a node out of the list of big allocations.\<close>

lemma heap_ok_del_head:
  assumes ok: "heap_ok st V" and b: "bigs V = (n, q, k) # bs"
  shows "heap_ok (st\<lparr>big_alloc_head := node_next (kmem st) n\<rparr>) (V\<lparr>bigs := bs\<rparr>)"
proof (rule heap_ok_other_bigs)
  show "heap_ok (st\<lparr>big_alloc_head := node_next (kmem st) n, big_alloc_head := 0\<rparr>) (V\<lparr>bigs := []\<rparr>)"
    using heap_ok_forget[OF ok] by simp
  have "\<forall>(n', q', k') \<in> set bs. big_ok (kpmm st) (kmem st) (V\<lparr>bigs := bs\<rparr>) n' q' k'"
    using bigs_okD(1)[OF heap_okD(6)[OF ok]] b by (auto simp: big_ok_def)
  then show "bigs_ok (kpmm (st\<lparr>big_alloc_head := node_next (kmem st) n\<rparr>))
     (big_alloc_head (st\<lparr>big_alloc_head := node_next (kmem st) n\<rparr>))
     (kmem (st\<lparr>big_alloc_head := node_next (kmem st) n\<rparr>)) (V\<lparr>bigs := bs\<rparr>)"
    using heap_okD(6)[OF ok] b bigs_apart[OF heap_okD(6)[OF ok], of bs] by (simp add: bigs_ok_def subset_insertI)
qed

lemma heap_ok_del_inner:
  assumes ok: "heap_ok st V" and b: "bigs V = cs @ (p, qp, kp) # (n, q, k) # bs"
  shows "heap_ok (st\<lparr>kmem := wr64 (kmem st) (p + 16) (node_next (kmem st) n)\<rparr>) (V\<lparr>bigs := cs @ (p, qp, kp) # bs\<rparr>)"
proof -
  define m where "m = wr64 (kmem st) (p + 16) (node_next (kmem st) n)"
  define V' where "V' = V\<lparr>bigs := cs @ (p, qp, kp) # bs\<rparr>"
  note bo = heap_okD(6)[OF ok]
  have slot: "is_slot V x 0" if "x \<in> fst ` set (bigs V)" for x using bigs_okD(2)[OF bo that] by simp
  have p: "is_slot V p 0" "p \<in> used V" using bigs_okD(2)[OF bo, of p] b by auto
  note w = node_link_write[OF p(1), where m = "kmem st" and v = "node_next (kmem st) n", folded m_def]
  have dist: "distinct (map fst (bigs V))" using bo by (simp add: bigs_ok_def)
  have ok0: "heap_ok (st\<lparr>big_alloc_head := 0\<rparr>) (V\<lparr>bigs := []\<rparr>)" by (rule heap_ok_forget[OF ok])
  have "heap_ok (st\<lparr>big_alloc_head := 0, kmem := m\<rparr>) (V\<lparr>bigs := []\<rparr>)"
  proof (rule heap_ok_mem[OF ok0])
    fix x assume "relevant (V\<lparr>bigs := []\<rparr>) x"
    with used_not_relevant[OF ok0, of p 0 x] p class_size_ge[of 0] show "m x = kmem (st\<lparr>big_alloc_head := 0\<rparr>) x"
      by (simp, intro w(5)) auto
  qed
  moreover have "bigs_ok (kpmm st) (big_alloc_head st) m V'"
  proof -
    have c0: "chain (node_next (kmem st)) (big_alloc_head st) (map fst cs @ p # n # map fst bs)"
      and d0: "distinct (map fst cs @ p # n # map fst bs)"
      using bo dist b by (simp_all add: bigs_ok_def)
    have "chain (node_next m) (big_alloc_head st) (map fst cs @ p # map fst bs)"
    proof (rule chain_remove[OF c0 d0])
      fix x assume x: "x \<in> set (map fst cs @ map fst bs)"
      then have "x \<in> fst ` set (bigs V)" "x \<noteq> p" using b d0 by auto
      with w(4)[OF slot] show "node_next m x = node_next (kmem st) x" by simp
    qed (rule w(1))
    moreover have "big_ok (kpmm st) m V' n' q' k'" if i: "(n', q', k') \<in> set (bigs V')" for n' q' k'
    proof -
      have i': "(n', q', k') \<in> set (bigs V)" using i b by (auto simp: V'_def)
      have "rd64 m n' = rd64 (kmem st) n' \<and> rd64 m (n' + 8) = rd64 (kmem st) (n' + 8)"
      proof (cases "n' = p")
        case False
        have "n' \<in> fst ` set (bigs V)" using i' by (simp add: rev_image_eqI)
        with w(4)[OF slot False] show ?thesis by simp
      qed (use w(2,3) in simp)
      with bigs_okD(1)[OF bo i'] show ?thesis by (simp add: big_ok_def V'_def)
    qed
    moreover have "distinct (map fst (bigs V'))" using dist b by (auto simp: V'_def)
    moreover have "\<forall>(n, q, k) \<in> set (bigs V'). \<forall>(n', q', k') \<in> set (bigs V'). n \<noteq> n' \<longrightarrow> q + k \<le> q' \<or> q' + k' \<le> q"
      using b by (intro bigs_apart[OF bo]) (auto simp: V'_def)
    moreover have "map fst (bigs V') = map fst cs @ p # map fst bs" by (simp add: V'_def)
    ultimately show ?thesis unfolding bigs_ok_def by simp blast
  qed
  moreover have "st\<lparr>big_alloc_head := 0, kmem := m\<rparr> = st\<lparr>kmem := m, big_alloc_head := 0\<rparr>" by simp
  ultimately show ?thesis
    using heap_ok_other_bigs[of "st\<lparr>kmem := m\<rparr>" V "cs @ (p, qp, kp) # bs"] unfolding m_def[symmetric] V'_def by simp
qed

lemma big_bounds:
  assumes ok: "heap_ok st V" and b: "(n, q, k) \<in> set (bigs V)"
  shows "KB < q" "q + k \<le> KB + 2 ^ 34" "0 < k" "q - KB + k \<le> 8 * length (bitmap (kpmm st))"
proof -
  have bo: "big_ok (kpmm st) (kmem st) V n q k" by (rule bigs_okD(1)[OF heap_okD(6)[OF ok] b])
  then show q: "KB < q" "0 < k" by (auto simp: big_ok_def)
  then have "k - 1 < k" by simp
  with bo have h: "held (kpmm st) (q + (k - 1))" unfolding big_ok_def by blast
  from held_bound[OF h heap_okD(3)[OF ok]] q(2) show "q + k \<le> KB + 2 ^ 34" by linarith
  from h have "q + (k - 1) < KB + 8 * length (bitmap (kpmm st))" by (simp add: held_def)
  with q show "q - KB + k \<le> 8 * length (bitmap (kpmm st))" by linarith
qed

lemma vp_inj: "q < 2 ^ 52 \<Longrightarrow> q' < 2 ^ 52 \<Longrightarrow> vp q = vp q' \<longleftrightarrow> q = q'"
  by (auto simp: word_unat_eq_iff unat_vp)

text \<open>Giving the pages of a big allocation back.\<close>

lemma heap_ok_free_pages:
  assumes ok: "heap_ok st V" and q: "KB < q" "q - KB + k \<le> 8 * length (bitmap (kpmm st))"
    and pools: "\<And>i. i < k \<Longrightarrow> pool V (q + i) = None"
    and others: "\<And>n' q' k'. (n', q', k') \<in> set (bigs V) \<Longrightarrow> q + k \<le> q' \<or> q' + k' \<le> q"
  shows "\<exists>p. free_pages (vp q) (of_nat k) (kpmm st) = Ret p \<and> heap_ok (st\<lparr>kpmm := p\<rparr>) V"
proof -
  define f where "f = q - KB"
  define p where "p = (kpmm st)\<lparr>bitmap := fold release_frame [f..<f + k] (bitmap (kpmm st))\<rparr>"
  note d = heap_okD[OF ok]
  have uk: "unat (of_nat k :: u64) = k" using q(2) d(3) by (intro unat_of_nat_small) simp
  have e: "free_pages (vp q) (of_nat k) (kpmm st) = Ret p"
    unfolding free_pages_def using q d(3) VIRT_TO_PHYS_vp[of q]
    by (simp add: f_def[symmetric] pmm_free_contiguous_correct[of f "of_nat k" "kpmm st"] uk p_def mult.commute)
  have fr: "is_free (bitmap p) i \<longleftrightarrow> is_free (bitmap (kpmm st)) i \<or> f \<le> i \<and> i < f + k" for i
    unfolding p_def using q(2)
    by (simp add: f_def[symmetric], subst fold_release_frames(2)) (auto simp: div_less_iff_less_mult)
  have len: "length (bitmap p) = length (bitmap (kpmm st))" by (simp add: p_def fold_release_frames(1))
  have held: "held p i" if "held (kpmm st) i" "\<not> (q \<le> i \<and> i < q + k)" for i
    using that q(1) by (auto simp: held_def len fr f_def)
  have "heap_ok (st\<lparr>kpmm := p\<rparr>) V"
  proof (rule heap_ok_pmm[OF ok])
    show "pmm_ok p" using d(2) q(1) by (simp add: pmm_ok_def len fr f_def)
    show "length (bitmap p) \<le> 2 ^ 31" using d(3) by (simp add: len)
    fix i t assume i: "pool V i = Some t" "held (kpmm st) i"
    have "\<not> (q \<le> i \<and> i < q + k)"
    proof
      assume "q \<le> i \<and> i < q + k"
      then have "i - q < k" "q + (i - q) = i" by auto
      with pools[of "i - q"] i(1) show False by simp
    qed
    with held i(2) show "held p i" by blast
  next
    fix n' q' k' i assume "(n', q', k') \<in> set (bigs V)" "i < k'" "held (kpmm st) (q' + i)"
    with others[of n' q' k'] show "held p (q' + i)" by (intro held) auto
  qed
  with e show ?thesis by blast
qed

lemma kfree_big_object:
  assumes ok: "heap_ok st V" and b: "(n, q, k) \<in> set (bigs V)" and m: "rd32 (kmem st) (vp q) \<noteq> MAGIC"
  shows "\<exists>st' V'. (\<forall>fuel \<ge> length (bigs V) + 3. kfree fuel (vp q) st = Ret st') \<and> heap_ok st' V' \<and> set (bigs V') = set (bigs V) - {(n, q, k)}
    \<and> used V' = used V - {n} \<and> pool V' = pool V
    \<and> (\<forall>x. kmem st' x \<noteq> kmem st x \<longrightarrow> (\<exists>n' \<in> fst ` set (bigs V). unat n' \<le> unat x \<and> unat x < unat n' + 24))"
proof -
  note bo = heap_okD(6)[OF ok]
  note bd = big_bounds[OF ok]
  obtain bs1 bs2 where bs: "bigs V = bs1 @ (n, q, k) # bs2" using split_list[OF b] by auto
  have dist: "distinct (map fst (bigs V))" using bo by (simp add: bigs_ok_def)
  have apart: "q + k \<le> q' \<or> q' + k' \<le> q" if "(n', q', k') \<in> set (bs1 @ bs2)" for n' q' k'
  proof -
    have "n' \<noteq> n" using that dist bs by (auto simp: rev_image_eqI)
    moreover have "(n', q', k') \<in> set (bigs V)" using that bs by auto
    ultimately show ?thesis using bigs_apart[OF bo order_refl] b by fastforce
  qed
  have V0: "set (bs1 @ bs2) = set (bigs V) - {(n, q, k)}" using dist bs by (auto simp: rev_image_eqI)
  have nodes: "is_slot V x 0 \<and> x \<in> used V" if "x \<in> fst ` set (bigs V)" for x using bigs_okD(2)[OF bo that] by simp
  have n: "is_slot V n 0" "n \<in> used V" "n \<noteq> 0" using nodes[of n] b slot_nonnull by (auto simp: rev_image_eqI)
  have bn: "rd64 (kmem st) n = vp q" "rd64 (kmem st) (n + 8) = of_nat k" "\<And>i. i < k \<Longrightarrow> pool V (q + i) = None"
    using bigs_okD(1)[OF bo b] by (auto simp: big_ok_def)
  define p where "p = (if bs1 = [] then 0 else fst (last bs1))"
  have search: "big_search f (kmem st) (vp q) 0 (big_alloc_head st) = Ret (p, n)" if f: "length bs1 < f" for f
    unfolding p_def
  proof (rule big_search_found[OF _ _ bn(1) f])
    show "chain (node_next (kmem st)) (big_alloc_head st) (map fst (bs1 @ (n, q, k) # bs2))"
      using bo bs by (simp add: bigs_ok_def)
    fix n' q' k' assume i: "(n', q', k') \<in> set bs1"
    then have i': "(n', q', k') \<in> set (bigs V)" using bs by auto
    have "q \<noteq> q'" using apart[of n' q' k'] i bd(3)[OF b] bd(3)[OF i'] by auto
    then have "vp q' \<noteq> vp q" using bd(2)[OF b] bd(2)[OF i'] vp_inj[of q' q] by simp
    with bigs_okD(1)[OF bo i'] show "rd64 (kmem st) n' \<noteq> vp q" by (simp add: big_ok_def)
  qed
  define st1 where "st1 = (if n = big_alloc_head st then st\<lparr>big_alloc_head := node_next (kmem st) (big_alloc_head st)\<rparr>
                    else st\<lparr>kmem := wr64 (kmem st) (p + 16) (node_next (kmem st) n)\<rparr>)"
  define V1 where "V1 = V\<lparr>bigs := bs1 @ bs2\<rparr>"
  have st1: "heap_ok st1 V1 \<and> rd64 (kmem st1) (n + 8) = of_nat k \<and> kpmm st1 = kpmm st
      \<and> (\<forall>x. kmem st1 x \<noteq> kmem st x \<longrightarrow> (\<exists>n' \<in> fst ` set (bigs V). unat n' \<le> unat x \<and> unat x < unat n' + 24))"
  proof (cases "bs1 = []")
    case True
    then have "n = big_alloc_head st" using bo bs by (simp add: bigs_ok_def)
    with heap_ok_del_head[OF ok, of n q k bs2] True bs bn(2) show ?thesis by (simp add: st1_def V1_def)
  next
    case False
    then obtain cs p' qp kp where cs: "bs1 = cs @ [(p', qp, kp)]" by (metis rev_exhaust prod_cases3)
    then have p: "p = p'" by (simp add: p_def)
    have pin: "p \<in> fst ` set (bigs V)" using bs cs p by auto
    have np: "n \<noteq> p" using dist bs cs p by auto
    have "big_alloc_head st = fst (hd bs1)" using bo bs False by (cases bs1) (auto simp: bigs_ok_def)
    then have nh: "n \<noteq> big_alloc_head st" using dist bs False by (cases bs1) auto
    note w = node_link_write[OF nodes[OF pin, THEN conjunct1], where m = "kmem st" and v = "node_next (kmem st) n"]
    show ?thesis
      using heap_ok_del_inner[OF ok, of cs p qp kp n q k bs2] bs cs p nh w(4)[OF n(1) np] bn(2) w(5) pin
      by (auto simp: st1_def V1_def)
  qed
  obtain pm where pm: "free_pages (vp q) (of_nat k) (kpmm st1) = Ret pm" "heap_ok (st1\<lparr>kpmm := pm\<rparr>) V1"
    using heap_ok_free_pages[of st1 V1 q k] st1 bd(1,4)[OF b] bn(3) apart by (auto simp: V1_def)
  have "n \<notin> fst ` set (bigs V1)" using dist bs by (auto simp: V1_def)
  with kfree_small[OF pm(2), of n 0] n obtain st' where st': "\<And>f. kfree (Suc f) n (st1\<lparr>kpmm := pm\<rparr>) = Ret st'"
      "heap_ok st' (V1\<lparr>frees := (frees V1)(0 := n # frees V1 0), used := used V1 - {n}\<rparr>)"
      "\<And>x. \<not> (unat n \<le> unat x \<and> unat x < unat n + 8) \<Longrightarrow> kmem st' x = kmem st1 x"
    by (auto simp: V1_def)
  have "PAGE_ALIGN_DOWN (vp q) = vp q" using bd(2)[OF b] by (simp add: PAGE_ALIGN_DOWN_vp unat_vp)
  then have r: "kfree fuel (vp q) st = Ret st'" if fuel: "length (bigs V) + 3 \<le> fuel" for fuel
  proof -
    obtain f where f: "fuel = Suc (Suc (Suc f))" "length bs1 < Suc f" using fuel bs by (intro that[of "fuel - 3"]) auto
    show ?thesis
      using \<open>PAGE_ALIGN_DOWN (vp q) = vp q\<close> m search[OF f(2)] n(3) st1 pm(1) st'(1)[of f] unfolding f(1)
      by (simp add: kfree.simps(2)[of "Suc (Suc f)"] kfree_big.simps Let_def st1_def[symmetric])
  qed
  have "\<exists>n' \<in> fst ` set (bigs V). unat n' \<le> unat x \<and> unat x < unat n' + 24" if "kmem st' x \<noteq> kmem st x" for x
  proof (cases "kmem st' x = kmem st1 x")
    case True
    with st1 that show ?thesis by simp
  next
    case False
    then have "unat n \<le> unat x \<and> unat x < unat n + 8" using st'(3)[of x] by metis
    then have "unat n \<le> unat x \<and> unat x < unat n + 24" by linarith
    moreover have "n \<in> fst ` set (bigs V)" using b by (simp add: rev_image_eqI)
    ultimately show ?thesis by blast
  qed
  with r st'(2) V0 show ?thesis
    by (intro exI[of _ st'] exI[of _ "V1\<lparr>frees := (frees V1)(0 := n # frees V1 0), used := used V1 - {n}\<rparr>"])
      (simp add: V1_def)
qed

section \<open>Objects\<close>

text \<open>The memory that is handed out to users: address and capacity.\<close>

definition is_object :: "heap_view \<Rightarrow> u64 \<Rightarrow> nat \<Rightarrow> bool" where
  "is_object V a c \<longleftrightarrow> a \<in> used V \<and> a \<notin> fst ` set (bigs V) \<and> (\<exists>t < 6. is_slot V a t \<and> c = class_size t)
     \<or> (\<exists>n q k. (n, q, k) \<in> set (bigs V) \<and> a = vp q \<and> c = 4096 * k)"

lemma objectE:
  assumes "heap_ok st V" "is_object V a c"
  obtains (slot) t where "a \<in> used V" "a \<notin> fst ` set (bigs V)" "t < 6" "is_slot V a t" "c = class_size t"
  | (pages) n q k where "(n, q, k) \<in> set (bigs V)" "a = vp q" "c = 4096 * k" "unat a = q * 4096"
      "\<And>i. q \<le> i \<Longrightarrow> i < q + k \<Longrightarrow> pool V i = None" "0 < k"
proof -
  from assms(2) consider (1) "a \<in> used V" "a \<notin> fst ` set (bigs V)" "\<exists>t < 6. is_slot V a t \<and> c = class_size t"
    | (2) n q k where "(n, q, k) \<in> set (bigs V)" "a = vp q" "c = 4096 * k"
    unfolding is_object_def by blast
  then show thesis
  proof cases
    case 2
    note b = big_bounds[OF assms(1) 2(1)]
    have u: "unat a = q * 4096" using 2(2) b(2) by (simp add: unat_vp)
    have "pool V i = None" if "q \<le> i" "i < q + k" for i
    proof -
      have "\<forall>j < k. pool V (q + j) = None"
        using bigs_okD(1)[OF heap_okD(6)[OF assms(1)] 2(1)] by (simp add: big_ok_def)
      moreover have "i - q < k" "q + (i - q) = i" using that by auto
      ultimately show ?thesis by metis
    qed
    from pages[OF 2 u this b(3)] show thesis .
  qed (use slot in blast)
qed

lemma object_positive:
  assumes ok: "heap_ok st V" and a: "is_object V a c"
  shows "0 < c \<and> unat a + c \<le> 2 ^ 64"
  using ok a
proof (cases rule: objectE)
  case (slot t)
  then show ?thesis using slot_fits[of V a t] class_size_ge[of t] by simp
next
  case (pages n q k)
  then show ?thesis using big_bounds[OF ok pages(1)] by simp
qed

text \<open>Which object a byte belongs to.\<close>

lemma object_of_byte:
  assumes ok: "heap_ok st V" and a: "is_object V a c" "unat a \<le> x" "x < unat a + c"
    and b: "is_object V b d" "unat b \<le> x" "x < unat b + d"
  shows "a = b"
  using ok a(1)
proof (cases rule: objectE)
  case (slot t)
  have s: "x div 4096 = unat a div 4096" using slot_bytes(1)[OF slot(4,3) a(2)] a(3) slot(5) by simp
  show ?thesis using ok b(1)
  proof (cases rule: objectE)
    case s': (slot t')
    show ?thesis using slot_unique[OF slot(4) s'(4) slot(3) s'(3) a(2) _ b(2)] a(3) b(3) slot(5) s'(5) by simp
  next
    case (pages n q k)
    have "x div 4096 < q + k" using b(3) pages(3,4) by (simp add: div_less_iff_less_mult algebra_simps)
    moreover have "q \<le> x div 4096" using b(2) pages(4) by (simp add: less_eq_div_iff_mult_less_eq)
    ultimately show ?thesis using pages(5)[of "x div 4096"] slot(4) s by (simp add: is_slot_def)
  qed
next
  case (pages n q k)
  have p: "x div 4096 < q + k" "q \<le> x div 4096"
    using a(2,3) pages(3,4) by (simp_all add: div_less_iff_less_mult less_eq_div_iff_mult_less_eq algebra_simps)
  show ?thesis using ok b(1)
  proof (cases rule: objectE)
    case (slot t)
    have "x div 4096 = unat b div 4096" using slot_bytes(1)[OF slot(4,3) b(2)] b(3) slot(5) by simp
    then show ?thesis using pages(5)[of "x div 4096"] slot(4) p by (simp add: is_slot_def)
  next
    case p': (pages n' q' k')
    have "x div 4096 < q' + k'" "q' \<le> x div 4096"
      using b(2,3) p'(3,4) by (simp_all add: div_less_iff_less_mult less_eq_div_iff_mult_less_eq algebra_simps)
    with p have "\<not> (q + k \<le> q' \<or> q' + k' \<le> q)" by linarith
    with bigs_apart[OF heap_okD(6)[OF ok] order_refl] pages(1) p'(1) have "n = n'" by fastforce
    moreover have "distinct (map fst (bigs V))" using heap_okD(6)[OF ok] by (simp add: bigs_ok_def)
    ultimately have "(n, q, k) = (n', q', k')" using pages(1) p'(1) by (auto dest: eq_key_imp_eq_value)
    then show ?thesis using pages(2) p'(2) by simp
  qed
qed

lemma objects_apart:
  assumes ok: "heap_ok st V" and a: "is_object V a c" and b: "is_object V b d" and "a \<noteq> b"
  shows "unat a + c \<le> unat b \<or> unat b + d \<le> unat a"
proof (rule ccontr)
  assume n: "\<not> ?thesis"
  have "0 < c" "0 < d" using object_positive[OF ok a] object_positive[OF ok b] by auto
  with n object_of_byte[OF ok a _ _ b, of "max (unat a) (unat b)"] assms(4) show False by auto
qed

text \<open>What a user stores in an object does not disturb the heap.\<close>

lemma object_not_relevant:
  assumes ok: "heap_ok st V" and a: "is_object V a c" "unat a \<le> unat x" "unat x < unat a + c"
  shows "\<not> relevant V x"
  using ok a(1)
proof (cases rule: objectE)
  case (slot t)
  then show ?thesis using used_not_relevant[OF ok slot(4,1,2) a(2)] a(3) by simp
next
  case (pages n q k)
  have "unat x div 4096 < q + k" "q \<le> unat x div 4096"
    using a(2,3) pages(3,4) by (simp_all add: div_less_iff_less_mult less_eq_div_iff_mult_less_eq algebra_simps)
  then show ?thesis using relevant_pool[OF ok, of x] pages(5)[of "unat x div 4096"] by fastforce
qed

definition objects_kept :: "heap_view \<Rightarrow> kheap \<Rightarrow> kheap \<Rightarrow> bool" where
  "objects_kept V st st' \<longleftrightarrow>
     (\<forall>b d x. is_object V b d \<and> unat b \<le> unat x \<and> unat x < unat b + d \<longrightarrow> kmem st' x = kmem st x)"

text \<open>A page that was taken from the allocator directly, so that the heap does not use it.\<close>

definition page_out :: "kheap \<Rightarrow> heap_view \<Rightarrow> nat \<Rightarrow> bool" where
  "page_out st V q \<longleftrightarrow> KB < q \<and> held (kpmm st) q \<and> pool V q = None
     \<and> (\<forall>n q' k. (n, q', k) \<in> set (bigs V) \<longrightarrow> q < q' \<or> q' + k \<le> q)"

definition object_added :: "heap_view \<Rightarrow> u64 \<Rightarrow> nat \<Rightarrow> heap_view \<Rightarrow> bool" where
  "object_added V a c V' \<longleftrightarrow> (\<forall>b d. is_object V' b d \<longleftrightarrow> is_object V b d \<or> b = a \<and> d = c)
     \<and> (\<forall>d. \<not> is_object V a d) \<and> (\<forall>b d. is_object V b d \<longrightarrow> (b \<in> used V' \<longleftrightarrow> b \<in> used V))"

definition object_removed :: "heap_view \<Rightarrow> u64 \<Rightarrow> heap_view \<Rightarrow> bool" where
  "object_removed V a V' \<longleftrightarrow> (\<forall>b d. is_object V' b d \<longleftrightarrow> is_object V b d \<and> b \<noteq> a)
     \<and> (\<forall>b d. is_object V' b d \<longrightarrow> (b \<in> used V' \<longleftrightarrow> b \<in> used V))"

lemma objects_keptI:
  assumes ok: "heap_ok st V" and ok': "heap_ok st' V'"
    and objs: "\<And>b d. is_object V b d \<Longrightarrow> is_object V' b d"
    and chg: "\<And>x. kmem st' x \<noteq> kmem st x \<Longrightarrow> relevant V' x \<or>
      pool V' (unat x div 4096) \<noteq> None \<and> (unat x mod 4096 = 5 \<or> pool V (unat x div 4096) = None)"
  shows "objects_kept V st st'"
  unfolding objects_kept_def
proof (intro allI impI, elim conjE, rule ccontr)
  fix b d x assume b: "is_object V b d" "unat b \<le> unat x" "unat x < unat b + d" and "kmem st' x \<noteq> kmem st x"
  with chg[of x] object_not_relevant[OF ok' objs[OF b(1)] b(2,3)]
  have c: "pool V' (unat x div 4096) \<noteq> None" "unat x mod 4096 = 5 \<or> pool V (unat x div 4096) = None" by auto
  from ok b(1) show False
  proof (cases rule: objectE)
    case (slot t)
    note s = slot_bytes[OF slot(4,3) b(2), folded slot(5), OF b(3)]
    with c(2) slot(4) show False by (auto simp: is_slot_def)
  next
    case (pages n q k)
    from ok' objs[OF b(1)] show False
    proof (cases rule: objectE)
      case (slot t)
      then show False using pages(4) by (simp add: is_slot_def)
    next
      case p': (pages n' q' k')
      have "unat x div 4096 < q' + k'" "q' \<le> unat x div 4096"
        using b(2,3) p'(3,4) by (simp_all add: div_less_iff_less_mult less_eq_div_iff_mult_less_eq algebra_simps)
      with p'(5)[of "unat x div 4096"] c(1) show False by simp
    qed
  qed
qed

lemma is_slot_mono: "(\<And>q t. pool V q = Some t \<Longrightarrow> pool V' q = Some t) \<Longrightarrow> is_slot V s t \<Longrightarrow> is_slot V' s t"
  by (simp add: is_slot_def)

lemma is_slot_fun: "is_slot V s t \<Longrightarrow> is_slot V s t' \<Longrightarrow> t = t'"
  by (simp add: is_slot_def)

lemma slot_not_vp: "heap_ok st V \<Longrightarrow> (n, q, k) \<in> set (bigs V) \<Longrightarrow> \<not> is_slot W (vp q) t"
  using big_bounds(2)[of st V n q k] unat_vp[of q] by (auto simp: is_slot_def)

lemma small_object_added:
  assumes ok: "heap_ok st V" and r: "small_result st V t a st' V'" and a: "a \<noteq> 0" and t: "t < 6"
  shows "object_added V a (class_size t) V'" "objects_kept V st st'" "a \<in> used V'"
proof -
  have s: "heap_ok st' V'" "heap_grows st V st' V'" "is_slot V' a t" "a \<notin> used V" "used V' = insert a (used V)"
    using r a by (auto simp: small_result_def)
  note g = heap_growsD[OF s(2)]
  note bo = heap_okD(6)[OF ok]
  have nb: "a \<notin> fst ` set (bigs V)" using bigs_okD(2)[OF bo] s(4) by blast
  have slot: "is_slot V' b t' \<longleftrightarrow> is_slot V b t'" if "b \<in> used V" for b t'
    using heap_okD(7)[OF ok that] is_slot_mono[OF g(4)] is_slot_fun by metis
  have nbig: "\<not> (\<exists>n q k. (n, q, k) \<in> set (bigs V) \<and> a = vp q \<and> d = 4096 * k)" for d
    using slot_not_vp[OF ok] s(3) by blast
  have fresh: "\<not> is_object V a d" for d unfolding is_object_def using s(4) nbig[of d] by blast
  have "is_object V' a d \<longleftrightarrow> (\<exists>t' < 6. is_slot V' a t' \<and> d = class_size t')" for d
    unfolding is_object_def g(1) using s(5) nb nbig[of d] by blast
  then have new: "is_object V' a d \<longleftrightarrow> d = class_size t" for d using is_slot_fun[OF s(3)] s(3) t by blast
  have add: "is_object V' b d \<longleftrightarrow> is_object V b d \<or> b = a \<and> d = class_size t" for b d
  proof (cases "b = a")
    case False
    then show ?thesis unfolding is_object_def g(1) s(5) by (cases "b \<in> used V") (simp_all add: slot)
  qed (simp add: new fresh)
  show "object_added V a (class_size t) V'"
    unfolding object_added_def
  proof (intro conjI allI impI add fresh)
    show "b \<in> used V' \<longleftrightarrow> b \<in> used V" if "is_object V b d" for b d using that s(5) fresh by auto
  qed
  show "objects_kept V st st'" using g(7) add by (intro objects_keptI[OF ok s(1)]) auto
  show "a \<in> used V'" using s(5) by simp
qed

lemma big_object_added:
  assumes ok: "heap_ok st V" and r: "big_result st V sz a st' V'" and a: "a \<noteq> 0"
  obtains c where "unat sz \<le> c" "object_added V a c V'" "objects_kept V st st'" "a \<notin> used V'"
proof -
  obtain n q k where s: "heap_ok st' V'" "a = vp q" "unat sz \<le> 4096 * k" "bigs V' = (n, q, k) # bigs V" "n \<notin> used V"
      "used V' = insert n (used V)" "\<forall>i < k. \<not> held (kpmm st) (q + i)"
    and mono: "\<And>q t. pool V q = Some t \<Longrightarrow> pool V' q = Some t"
    and chg: "\<And>x. kmem st' x \<noteq> kmem st x \<Longrightarrow>
             pool V' (unat x div 4096) \<noteq> None \<and> (unat x mod 4096 = 5 \<or> pool V (unat x div 4096) = None)
             \<or> unat n \<le> unat x \<and> unat x < unat n + 24"
    using r a by (auto simp: big_result_def)
  note bo = heap_okD(6)[OF ok]
  have new: "(n, q, k) \<in> set (bigs V')" using s(4) by simp
  note bd = big_bounds[OF s(1) new]
  have slot: "is_slot V' b t' \<longleftrightarrow> is_slot V b t'" if "b \<in> used V" for b t'
    using heap_okD(7)[OF ok that] is_slot_mono[OF mono] is_slot_fun by metis
  have nsl: "\<not> is_slot W a t" for W t using slot_not_vp[OF s(1) new] s(2) by simp
  have nnode: "b \<noteq> n" if "b \<in> used V" for b using that s(5) by auto
  have add: "is_object V' b d \<longleftrightarrow> is_object V b d \<or> b = a \<and> d = 4096 * k" for b d
  proof (cases "b \<in> used V")
    case True
    then show ?thesis unfolding is_object_def s(4,6) by (auto simp: slot nnode s(2))
  next
    case False
    then show ?thesis unfolding is_object_def s(4,6) by (auto simp: s(2))
  qed
  have fresh: "\<not> is_object V a d" for d
  proof
    assume "is_object V a d"
    with ok show False
    proof (cases rule: objectE)
      case (pages n' q' k')
      have "q' = q" using pages(2) s(2) bd(2) big_bounds(2)[OF ok pages(1)] vp_inj[of q' q] by simp
      moreover have "held (kpmm st) (q' + 0)"
        using bigs_okD(1)[OF bo pages(1)] pages(6) unfolding big_ok_def by blast
      ultimately show False using s(7) bd(3) by auto
    qed (use nsl in blast)
  qed
  have nin: "n \<in> fst ` set (bigs V')" using new by (simp add: rev_image_eqI)
  have "object_added V a (4096 * k) V'"
    unfolding object_added_def
  proof (intro conjI allI impI add fresh)
    fix b d assume b: "is_object V b d"
    have "b \<noteq> n"
    proof
      assume "b = n"
      with ok b show False
      proof (cases rule: objectE)
        case (pages n' q' k')
        then show False using slot_not_vp[OF ok pages(1)] bigs_okD(2)[OF heap_okD(6)[OF s(1)] nin] \<open>b = n\<close> by metis
      qed (use s(5) in simp)
    qed
    then show "b \<in> used V' \<longleftrightarrow> b \<in> used V" using s(6) by simp
  qed
  moreover have "objects_kept V st st'"
  proof (rule objects_keptI[OF ok s(1)])
    fix x assume "kmem st' x \<noteq> kmem st x"
    with chg[of x] nin show "relevant V' x \<or> pool V' (unat x div 4096) \<noteq> None
        \<and> (unat x mod 4096 = 5 \<or> pool V (unat x div 4096) = None)" by (auto simp: relevant_def)
  qed (use add in simp)
  moreover have "a \<notin> used V'" using heap_okD(7)[OF s(1)] nsl by blast
  ultimately show thesis using that[of "4096 * k"] s(3) by simp
qed

lemma small_pages_kept: "small_result st V t a st' V' \<Longrightarrow> page_out st V q \<Longrightarrow> page_out st' V' q"
  unfolding small_result_def page_out_def
  using heap_growsD(1,5,6)[of st V st' V'] by (metis not_None_eq)

lemma big_pages_kept:
  assumes r: "big_result st V sz a st' V'" and q: "page_out st V q"
  shows "page_out st' V' q"
proof (cases "a = 0")
  case False
  with r obtain n q0 k where b: "bigs V' = (n, q0, k) # bigs V" "\<forall>i < k. \<not> held (kpmm st) (q0 + i)"
    "\<forall>q t. pool V' q = Some t \<longrightarrow> pool V q = Some t \<or> \<not> held (kpmm st) q" "\<forall>q. held (kpmm st) q \<longrightarrow> held (kpmm st') q"
    by (auto simp: big_result_def)
  have "q < q0 \<or> q0 + k \<le> q"
  proof (rule ccontr)
    assume "\<not> ?thesis"
    then have "q - q0 < k" "q0 + (q - q0) = q" by auto
    with b(2) q show False by (metis page_out_def)
  qed
  moreover have "pool V' q = None" using b(3) q by (metis page_out_def not_None_eq)
  ultimately show ?thesis using q b(1,4) by (auto simp: page_out_def)
qed (use assms in \<open>simp add: big_result_def\<close>)

lemma small_object_freed:
  assumes ok: "heap_ok st V" and a: "a \<in> used V" "a \<notin> fst ` set (bigs V)"
  shows "\<exists>st' V'. (\<forall>n \<ge> 1. kfree n a st = Ret st') \<and> heap_ok st' V' \<and> object_removed V a V' \<and> objects_kept V' st st'
    \<and> (\<forall>q. page_out st V q \<longrightarrow> page_out st' V' q)"
proof -
  obtain t where t: "t < 6" "is_slot V a t" using heap_okD(7)[OF ok a(1)] by blast
  define V' where "V' = V\<lparr>frees := (frees V)(t := a # frees V t), used := used V - {a}\<rparr>"
  obtain st' where st': "\<And>n. kfree (Suc n) a st = Ret st'" "heap_ok st' V'"
      "\<And>x. \<not> (unat a \<le> unat x \<and> unat x < unat a + 8) \<Longrightarrow> kmem st' x = kmem st x" "kpmm st' = kpmm st"
    using kfree_small[OF ok t(2) a] unfolding V'_def by blast
  have nbig: "a \<noteq> vp q" if "(n, q, k) \<in> set (bigs V)" for n q k using slot_not_vp[OF ok that, of V t] t(2) by auto
  have rem: "is_object V' b d \<longleftrightarrow> is_object V b d \<and> b \<noteq> a" for b d
  proof (cases "b = a")
    case True
    have "\<not> is_object V' a d" using nbig unfolding is_object_def by (simp add: V'_def) blast
    then show ?thesis using True by simp
  qed (simp add: is_object_def V'_def)
  have "object_removed V a V'" unfolding object_removed_def using rem by (simp add: V'_def)
  moreover have "objects_kept V' st st'"
    unfolding objects_kept_def
  proof (intro allI impI, elim conjE)
    fix b d and x :: u64 assume b: "is_object V' b d" "unat b \<le> unat x" "unat x < unat b + d"
    have "is_object V a (class_size t)" unfolding is_object_def using a t by blast
    from object_of_byte[OF ok this _ _ _ b(2,3)] b(1) rem
    have "\<not> (unat a \<le> unat x \<and> unat x < unat a + class_size t)" by blast
    then show "kmem st' x = kmem st x" using class_size_ge[of t] by (intro st'(3)) linarith
  qed
  moreover have "\<forall>n \<ge> 1. kfree n a st = Ret st'" using st'(1) by (metis One_nat_def Suc_le_D)
  moreover have "\<forall>q. page_out st V q \<longrightarrow> page_out st' V' q" by (simp add: page_out_def V'_def st'(4))
  ultimately show ?thesis using st'(2) by blast
qed

lemma big_object_freed:
  assumes ok: "heap_ok st V" and b: "(n, q, k) \<in> set (bigs V)" and m: "rd32 (kmem st) (vp q) \<noteq> MAGIC"
  shows "\<exists>N st' V'. (\<forall>f \<ge> N. kfree f (vp q) st = Ret st') \<and> heap_ok st' V' \<and> object_removed V (vp q) V'
    \<and> objects_kept V' st st'"
proof -
  obtain st' V' where st': "\<forall>f \<ge> length (bigs V) + 3. kfree f (vp q) st = Ret st'" "heap_ok st' V'"
      "set (bigs V') = set (bigs V) - {(n, q, k)}" "used V' = used V - {n}" "pool V' = pool V"
      "\<And>x. kmem st' x \<noteq> kmem st x \<Longrightarrow> \<exists>n' \<in> fst ` set (bigs V). unat n' \<le> unat x \<and> unat x < unat n' + 24"
    using kfree_big_object[OF ok b m] by blast
  note bd = big_bounds[OF ok]
  have slot: "is_slot V' = is_slot V" by (simp add: is_slot_def st'(5) fun_eq_iff)
  have dist: "distinct (map fst (bigs V))" using heap_okD(6)[OF ok] by (simp add: bigs_ok_def)
  have uniq: "q' = q \<and> k' = k" if "(n, q', k') \<in> set (bigs V)" for q' k'
    using eq_key_imp_eq_value[OF dist b that] by simp
  have nodes: "fst ` set (bigs V') = fst ` set (bigs V) - {n}"
  proof (intro set_eqI iffI)
    fix x assume "x \<in> fst ` set (bigs V')"
    then obtain y where y: "y \<in> set (bigs V)" "y \<noteq> (n, q, k)" "x = fst y" unfolding st'(3) by blast
    obtain q' k' where e: "y = (x, q', k')" using y(3) by (metis prod.collapse)
    have "x \<noteq> n"
    proof
      assume x: "x = n"
      with uniq[of q' k'] y(1) e have "q' = q \<and> k' = k" by simp
      with y(2) e x show False by simp
    qed
    then show "x \<in> fst ` set (bigs V) - {n}" using y by blast
  next
    fix x assume "x \<in> fst ` set (bigs V) - {n}"
    then obtain q' k' where "(x, q', k') \<in> set (bigs V)" "x \<noteq> n" by auto
    then have "(x, q', k') \<in> set (bigs V')" by (simp add: st'(3))
    then show "x \<in> fst ` set (bigs V')" by force
  qed
  have only: "(n', q, k') = (n, q, k)" if i: "(n', q, k') \<in> set (bigs V)" for n' k'
  proof -
    have "n' = n" using bigs_apart[OF heap_okD(6)[OF ok] order_refl] b i bd(3)[OF b] bd(3)[OF i] by fastforce
    with uniq[of q k'] i show ?thesis by simp
  qed
  have inj: "vp q' = vp q \<longleftrightarrow> q' = q" if "(n', q', k') \<in> set (bigs V)" for n' q' k'
    using bd(2)[OF b] bd(2)[OF that] by (intro vp_inj) auto
  have mem: "(n', q', k') \<in> set (bigs V') \<longleftrightarrow> (n', q', k') \<in> set (bigs V) \<and> vp q' \<noteq> vp q" for n' q' k'
  proof (cases "(n', q', k') \<in> set (bigs V)")
    case True
    show ?thesis
    proof (cases "q' = q")
      case q: True
      then have "(n', q', k') = (n, q, k)" using only[of n' k'] True by simp
      then show ?thesis by (simp add: st'(3))
    next
      case False
      then show ?thesis using True inj[OF True] by (simp add: st'(3))
    qed
  qed (simp add: st'(3))
  have rem: "is_object V' c d \<longleftrightarrow> is_object V c d \<and> c \<noteq> vp q" for c d
  proof -
    have "c \<noteq> vp q" if "is_slot V c t" for t using slot_not_vp[OF ok b, of V t] that by auto
    moreover have "(\<exists>n' q' k'. (n', q', k') \<in> set (bigs V') \<and> c = vp q' \<and> d = 4096 * k')
        \<longleftrightarrow> (\<exists>n' q' k'. (n', q', k') \<in> set (bigs V) \<and> c = vp q' \<and> d = 4096 * k') \<and> c \<noteq> vp q"
      unfolding mem by metis
    moreover have "n \<in> fst ` set (bigs V)" using b by (simp add: rev_image_eqI)
    ultimately show ?thesis unfolding is_object_def slot nodes st'(4) by blast
  qed
  have "object_removed V (vp q) V'"
    unfolding object_removed_def
  proof (intro conjI allI impI rem)
    fix c d assume c: "is_object V' c d"
    from st'(2) c have "c \<noteq> n"
    proof (cases rule: objectE)
      case (pages n' q' k')
      then show ?thesis using slot_not_vp[OF st'(2) pages(1)] bigs_okD(2)[OF heap_okD(6)[OF ok], of n] b
        by (auto simp: rev_image_eqI)
    qed (use st'(4) in auto)
    then show "c \<in> used V' \<longleftrightarrow> c \<in> used V" by (simp add: st'(4))
  qed
  moreover have "objects_kept V' st st'"
    unfolding objects_kept_def
  proof (intro allI impI, elim conjE, rule ccontr)
    fix c d x assume c: "is_object V' c d" "unat c \<le> unat x" "unat x < unat c + d" and ch: "kmem st' x \<noteq> kmem st x"
    from st'(6)[OF ch] have "relevant V x" by (auto simp: relevant_def)
    with object_not_relevant[OF ok _ c(2,3)] c(1) rem show False by blast
  qed
  ultimately show ?thesis using st'(1,2) by blast
qed

section \<open>Properties\<close>

text \<open>The heap before its first use.\<close>

definition heap_init :: "pmm \<Rightarrow> mem \<Rightarrow> kheap" where
  "heap_init p m = \<lparr>kmem = m, kpmm = p, tiers = tiers_static, big_alloc_head = 0\<rparr>"

text \<open>
  The life of the heap, with the live objects and the sizes they were requested with: an
  allocation, the release of a live object (a big one must not start with the magic number), and
  a store of a user into a live object.
\<close>

inductive heap_step :: "kheap \<times> (u64 \<Rightarrow> nat option) \<Rightarrow> kheap \<times> (u64 \<Rightarrow> nat option) \<Rightarrow> bool" where
  malloc: "unat sz + 4095 < 2 ^ 64 \<Longrightarrow> kmalloc 5 sz st = Ret (a, st') \<Longrightarrow>
    heap_step (st, L) (st', if a = 0 then L else L(a \<mapsto> unat sz))"
| free: "L a = Some k \<Longrightarrow> k \<le> 1024 \<or> rd32 (kmem st) a \<noteq> MAGIC \<Longrightarrow> (\<And>n. N \<le> n \<Longrightarrow> kfree n a st = Ret st') \<Longrightarrow>
    heap_step (st, L) (st', L(a := None))"
| store: "L a = Some k \<Longrightarrow> unat a \<le> unat x \<Longrightarrow> unat x < unat a + k \<Longrightarrow>
    heap_step (st, L) (st\<lparr>kmem := wr8 (kmem st) x v\<rparr>, L)"

definition live_ok :: "heap_view \<Rightarrow> (u64 \<Rightarrow> nat option) \<Rightarrow> bool" where
  "live_ok V L \<longleftrightarrow> (\<forall>a n. L a = Some n \<longrightarrow> (\<exists>c. is_object V a c \<and> n \<le> c \<and> (a \<in> used V \<longleftrightarrow> n \<le> 1024)))
     \<and> (\<forall>a c. is_object V a c \<longrightarrow> L a \<noteq> None)"

lemma live_okE:
  assumes "live_ok V L" "L a = Some n"
  obtains c where "is_object V a c" "n \<le> c" "a \<in> used V \<longleftrightarrow> n \<le> 1024"
proof -
  have "\<forall>a n. L a = Some n \<longrightarrow> (\<exists>c. is_object V a c \<and> n \<le> c \<and> (a \<in> used V \<longleftrightarrow> n \<le> 1024))"
    using assms(1) by (simp add: live_ok_def)
  with assms(2) that show thesis by metis
qed

lemma heap_init_ok:
  assumes "pmm_ok p" "length (bitmap p) \<le> 2 ^ 31"
  shows "\<exists>V. heap_ok (heap_init p m) V \<and> live_ok V Map.empty"
proof -
  define V where "V = \<lparr>pool = \<lambda>_. None, frees = \<lambda>_. [], used = {}, bigs = []\<rparr>"
  have "free_head (tiers_static ! t) = 0" if "t < 6" for t using class_cases[OF that] by (auto simp: tiers_static_def)
  then have "frees_ok tiers_static m V" by (simp add: frees_ok_def V_def is_slot_def)
  moreover have "map slot_size tiers_static = [32, 64, 128, 256, 512, 1024]" by (simp add: tiers_static_def)
  ultimately have "heap_ok (heap_init p m) V"
    using assms by (simp add: heap_init_def heap_ok_def pools_ok_def bigs_ok_def V_def)
  moreover have "live_ok V Map.empty" by (simp add: live_ok_def is_object_def V_def)
  ultimately show ?thesis by blast
qed

lemma kmalloc_object:
  assumes ok: "heap_ok st V" and sz: "unat sz + 4095 < 2 ^ 64"
  shows "\<exists>a st' V'. kmalloc 5 sz st = Ret (a, st') \<and> heap_ok st' V' \<and>
    (if a = 0 then V' = V
     else \<exists>c. unat sz \<le> c \<and> object_added V a c V' \<and> (a \<in> used V' \<longleftrightarrow> unat sz \<le> 1024)) \<and> objects_kept V st st'
    \<and> (\<forall>q. page_out st V q \<longrightarrow> page_out st' V' q)"
proof (cases "unat sz \<le> 1024")
  case True
  obtain a st' V' t where r: "kmalloc 5 sz st = Ret (a, st')" "t < 6" "unat sz \<le> class_size t" "small_result st V t a st' V'"
    using kmalloc_small_request[OF ok True, of 5] by auto
  then have ok': "heap_ok st' V'" by (simp add: small_result_def)
  show ?thesis
  proof (cases "a = 0")
    case True
    with r(4) have "V' = V" "st' = st" by (simp_all add: small_result_def)
    with True r(1) ok show ?thesis by (auto simp: objects_kept_def)
  next
    case False
    from small_object_added[OF ok r(4) False r(2)] small_pages_kept[OF r(4)] r True False ok' show ?thesis by auto
  qed
next
  case False
  then have big: "1024 < unat sz" by simp
  obtain a st' V' where r: "kmalloc 5 sz st = Ret (a, st')" "big_result st V sz a st' V'"
    using kmalloc_big_request[OF ok big sz, of 5] by auto
  then have ok': "heap_ok st' V'" by (simp add: big_result_def)
  show ?thesis
  proof (cases "a = 0")
    case True
    with r(2) have "V' = V" "st' = st" by (simp_all add: big_result_def)
    with True r(1) ok show ?thesis by (auto simp: objects_kept_def)
  next
    case a: False
    obtain c where "unat sz \<le> c" "object_added V a c V'" "objects_kept V st st'" "a \<notin> used V'"
      by (rule big_object_added[OF ok r(2) a]) (rule that)
    with a False r(1) ok' big_pages_kept[OF r(2)] show ?thesis by auto
  qed
qed

lemma kfree_object:
  assumes ok: "heap_ok st V" and a: "is_object V a c" and m: "a \<in> used V \<or> rd32 (kmem st) a \<noteq> MAGIC"
  shows "\<exists>N st' V'. (\<forall>n \<ge> N. kfree n a st = Ret st') \<and> heap_ok st' V' \<and> object_removed V a V' \<and> objects_kept V' st st'"
  using ok a
proof (cases rule: objectE)
  case (slot t)
  from small_object_freed[OF ok slot(1,2)] show ?thesis by blast
next
  case (pages n q k)
  have "a \<notin> used V" using heap_okD(7)[OF ok, of a] slot_not_vp[OF ok pages(1)] pages(2) by blast
  with m have "rd32 (kmem st) (vp q) \<noteq> MAGIC" using pages(2) by simp
  from big_object_freed[OF ok pages(1) this] pages(2) show ?thesis by simp
qed

lemma live_ok_add:
  assumes "live_ok V L" "object_added V a c V'" "n \<le> c" "a \<in> used V' \<longleftrightarrow> n \<le> 1024"
  shows "live_ok V' (L(a \<mapsto> n))" "L a = None"
proof -
  show none: "L a = None"
    using assms(1,2) unfolding live_ok_def object_added_def by (metis option.exhaust)
  show "live_ok V' (L(a \<mapsto> n))"
    unfolding live_ok_def
  proof (intro conjI allI impI)
    fix b k assume b: "(L(a \<mapsto> n)) b = Some k"
    show "\<exists>c. is_object V' b c \<and> k \<le> c \<and> (b \<in> used V' \<longleftrightarrow> k \<le> 1024)"
    proof (cases "b = a")
      case True
      with b assms(2-4) show ?thesis by (auto simp: object_added_def)
    next
      case False
      with b have "L b = Some k" by simp
      with assms(1) obtain d where "is_object V b d" "k \<le> d" "b \<in> used V \<longleftrightarrow> k \<le> 1024" by (rule live_okE)
      with assms(2) show ?thesis unfolding object_added_def by blast
    qed
  next
    fix b d assume "is_object V' b d"
    with assms(1,2) show "(L(a \<mapsto> n)) b \<noteq> None" unfolding live_ok_def object_added_def by auto
  qed
qed

lemma live_ok_remove:
  assumes "live_ok V L" "object_removed V a V'"
  shows "live_ok V' (L(a := None))"
  unfolding live_ok_def
proof (intro conjI allI impI)
  fix b k assume "(L(a := None)) b = Some k"
  then have b: "b \<noteq> a" "L b = Some k" by (auto split: if_splits)
  obtain d where "is_object V b d" "k \<le> d" "b \<in> used V \<longleftrightarrow> k \<le> 1024" by (rule live_okE[OF assms(1) b(2)])
  with assms(2) b show "\<exists>c. is_object V' b c \<and> k \<le> c \<and> (b \<in> used V' \<longleftrightarrow> k \<le> 1024)"
    unfolding object_removed_def by blast
next
  fix b d assume "is_object V' b d"
  with assms show "(L(a := None)) b \<noteq> None" unfolding live_ok_def object_removed_def by auto
qed

lemma heap_step_ok:
  assumes "heap_step (st, L) (st', L')" "heap_ok st V" "live_ok V L"
  shows "\<exists>V'. heap_ok st' V' \<and> live_ok V' L'"
  using assms(1)
proof cases
  case (malloc sz a)
  from kmalloc_object[OF assms(2) malloc(2)] malloc(3) obtain V' where V': "heap_ok st' V'"
    "if a = 0 then V' = V else \<exists>c. unat sz \<le> c \<and> object_added V a c V' \<and> (a \<in> used V' \<longleftrightarrow> unat sz \<le> 1024)" by auto
  with live_ok_add(1)[OF assms(3)] assms(3) malloc(1) show ?thesis by (auto split: if_splits)
next
  case (free a k N)
  obtain c where c: "is_object V a c" "a \<in> used V \<longleftrightarrow> k \<le> 1024" by (rule live_okE[OF assms(3) free(2)])
  obtain M st1 V' where k: "\<forall>n \<ge> M. kfree n a st = Ret st1" "heap_ok st1 V'" "object_removed V a V'"
    using kfree_object[OF assms(2) c(1)] c(2) free(3) by blast
  have "st1 = st'" using k(1) free(4)[of "max M N"] by simp
  with k live_ok_remove[OF assms(3) k(3)] free(1) show ?thesis by auto
next
  case (store a k x v)
  obtain c where c: "is_object V a c" "k \<le> c" by (rule live_okE[OF assms(3) store(3)])
  have "heap_ok st' V" unfolding store(1)
  proof (rule heap_ok_mem[OF assms(2)])
    fix y assume "relevant V y"
    moreover have "\<not> relevant V x" using object_not_relevant[OF assms(2) c(1) store(4)] store(5) c(2) by simp
    ultimately have "y \<noteq> x" by blast
    then show "wr8 (kmem st) x v y = kmem st y" by simp
  qed
  with assms(3) store(2) show ?thesis by auto
qed

lemma heap_steps_ok:
  assumes "rtranclp heap_step (heap_init p m, Map.empty) (st, L)" "pmm_ok p" "length (bitmap p) \<le> 2 ^ 31"
  shows "\<exists>V. heap_ok st V \<and> live_ok V L"
  using assms(1)
proof (induction "(st, L)" arbitrary: st L rule: rtranclp_induct)
  case (step y)
  obtain s1 L1 where y: "y = (s1, L1)" by (cases y)
  with step heap_step_ok show ?case by blast
qed (use heap_init_ok[OF assms(2,3)] in blast)

definition contents_kept :: "(u64 \<Rightarrow> nat option) \<Rightarrow> kheap \<Rightarrow> kheap \<Rightarrow> bool" where
  "contents_kept L st st' \<longleftrightarrow>
     (\<forall>b k x. L b = Some k \<and> unat b \<le> unat x \<and> unat x < unat b + k \<longrightarrow> kmem st' x = kmem st x)"

lemma objects_kept_live:
  assumes "live_ok V L" "objects_kept V st st'"
  shows "contents_kept L st st'"
  unfolding contents_kept_def
proof (intro allI impI, elim conjE)
  fix b k and x :: u64 assume b: "L b = Some k" "unat b \<le> unat x" "unat x < unat b + k"
  obtain c where c: "is_object V b c" "k \<le> c" by (rule live_okE[OF assms(1) b(1)])
  then have "unat x < unat b + c" using b(3) by simp
  with assms(2) b(2) c(1) show "kmem st' x = kmem st x" unfolding objects_kept_def by blast
qed

lemma live_apart:
  assumes "heap_ok st V" "live_ok V L" "L a = Some n" "L b = Some k" "a \<noteq> b"
  shows "unat a + n \<le> unat b \<or> unat b + k \<le> unat a"
proof -
  obtain c where c: "is_object V a c" "n \<le> c" by (rule live_okE[OF assms(2,3)])
  obtain d where d: "is_object V b d" "k \<le> d" by (rule live_okE[OF assms(2,4)])
  from objects_apart[OF assms(1) c(1) d(1) assms(5)] c(2) d(2) show ?thesis by linarith
qed

lemma kmalloc_live:
  assumes ok: "heap_ok st V" and live: "live_ok V L" and sz: "unat sz + 4095 < 2 ^ 64"
  shows "\<exists>a st'. kmalloc 5 sz st = Ret (a, st') \<and> contents_kept L st st' \<and>
    (a \<noteq> 0 \<longrightarrow> L a = None \<and> (\<forall>b k. L b = Some k \<longrightarrow> unat a + unat sz \<le> unat b \<or> unat b + k \<le> unat a))"
proof -
  from kmalloc_object[OF ok sz] obtain a st' V' where r: "kmalloc 5 sz st = Ret (a, st')" "heap_ok st' V'"
    "if a = 0 then V' = V else \<exists>c. unat sz \<le> c \<and> object_added V a c V' \<and> (a \<in> used V' \<longleftrightarrow> unat sz \<le> 1024)"
    "objects_kept V st st'" by blast
  have "L a = None \<and> (\<forall>b k. L b = Some k \<longrightarrow> unat a + unat sz \<le> unat b \<or> unat b + k \<le> unat a)" if a: "a \<noteq> 0"
  proof -
    obtain c where c: "unat sz \<le> c" "object_added V a c V'" "a \<in> used V' \<longleftrightarrow> unat sz \<le> 1024" using r(3) a by auto
    note l = live_ok_add[OF live c(2,1,3)]
    have "unat a + unat sz \<le> unat b \<or> unat b + k \<le> unat a" if b: "L b = Some k" for b k
    proof -
      have "a \<noteq> b" using l(2) b by auto
      with live_apart[OF r(2) l(1), of a "unat sz" b k] b show ?thesis by simp
    qed
    with l(2) show ?thesis by blast
  qed
  with r(1) objects_kept_live[OF live r(4)] show ?thesis by blast
qed

lemma kfree_live:
  assumes ok: "heap_ok st V" and live: "live_ok V L" and a: "L a = Some k" "k \<le> 1024 \<or> rd32 (kmem st) a \<noteq> MAGIC"
  shows "\<exists>N st'. (\<forall>n \<ge> N. kfree n a st = Ret st') \<and> contents_kept (L(a := None)) st st'"
proof -
  obtain c where c: "is_object V a c" "a \<in> used V \<longleftrightarrow> k \<le> 1024" by (rule live_okE[OF live a(1)])
  from kfree_object[OF ok c(1)] c(2) a(2) obtain N st' V' where r: "\<forall>n \<ge> N. kfree n a st = Ret st'"
    "object_removed V a V'" "objects_kept V' st st'" by blast
  from objects_kept_live[OF live_ok_remove[OF live r(2)] r(3)] r(1) show ?thesis by blast
qed

text \<open>
  C4. The kernel heap is safe over every sequence of allocations, releases and stores into live
  objects, whatever the sizes: two live objects never overlap; an allocation always returns, and
  what it returns is null or an object that is apart from every live one; a live object can
  always be released; and neither changes a byte of another live object. (A big object must not
  start with the magic number when it is released.)
\<close>

theorem heap_safety:
  assumes "pmm_ok p" "length (bitmap p) \<le> 2 ^ 31" "rtranclp heap_step (heap_init p m, Map.empty) (st, L)"
  shows "(\<forall>a b n k. L a = Some n \<and> L b = Some k \<and> a \<noteq> b \<longrightarrow> unat a + n \<le> unat b \<or> unat b + k \<le> unat a)
    \<and> (\<forall>sz. unat sz + 4095 < 2 ^ 64 \<longrightarrow> (\<exists>a st'. kmalloc 5 sz st = Ret (a, st') \<and> contents_kept L st st' \<and>
         (a \<noteq> 0 \<longrightarrow> L a = None \<and> (\<forall>b k. L b = Some k \<longrightarrow> unat a + unat sz \<le> unat b \<or> unat b + k \<le> unat a))))
    \<and> (\<forall>a k. L a = Some k \<and> (k \<le> 1024 \<or> rd32 (kmem st) a \<noteq> MAGIC) \<longrightarrow>
         (\<exists>N st'. (\<forall>n \<ge> N. kfree n a st = Ret st') \<and> contents_kept (L(a := None)) st st'))"
proof -
  obtain V where ok: "heap_ok st V" and live: "live_ok V L" using heap_steps_ok[OF assms(3,1,2)] by blast
  show ?thesis
    using live_apart[OF ok live] kmalloc_live[OF ok live] kfree_live[OF ok live] by blast
qed

definition witness_frames :: pmm where
  "witness_frames = \<lparr>bitmap_addr = 0, bitmap = [0xF1]\<rparr>"

definition witness_malloc :: "kheap \<Rightarrow> u64 \<times> kheap" where
  "witness_malloc st = (case kmalloc 5 1000 st of Ret r \<Rightarrow> r | _ \<Rightarrow> (0, st))"

definition witness_heap :: kheap where
  "witness_heap = heap_init witness_frames (\<lambda>_. 0)"

lemma witness_malloc_step:
  assumes "fst (witness_malloc st) \<noteq> 0"
  shows "heap_step (st, L) (snd (witness_malloc st), L(fst (witness_malloc st) \<mapsto> 1000))"
proof -
  have "kmalloc 5 1000 st = Ret (witness_malloc st)"
    using assms by (cases "kmalloc 5 1000 st") (auto simp: witness_malloc_def)
  then show ?thesis using heap_step.malloc[of 1000 st "fst (witness_malloc st)" "snd (witness_malloc st)" L] assms by simp
qed

lemma witness_address: "fst (witness_malloc witness_heap) = 0xffff888000001400"
  by code_simp

theorem heap_safety_witness:
  "pmm_ok witness_frames \<and> (\<exists>st. rtranclp heap_step (witness_heap, Map.empty) (st, [0xffff888000001400 \<mapsto> 1000])
     \<and> (\<exists>a st'. kmalloc 5 3000 st = Ret (a, st') \<and> contents_kept [0xffff888000001400 \<mapsto> 1000] st st')
     \<and> (\<exists>N st'. kfree N 0xffff888000001400 st = Ret st'))"
proof -
  define s1 where "s1 = snd (witness_malloc witness_heap)"
  have "heap_step (witness_heap, Map.empty) (s1, [0xffff888000001400 \<mapsto> 1000])"
    using witness_malloc_step[of witness_heap Map.empty] witness_address by (simp add: s1_def)
  then have r: "rtranclp heap_step (witness_heap, Map.empty) (s1, [0xffff888000001400 \<mapsto> 1000])" by (rule r_into_rtranclp)
  have ok: "pmm_ok witness_frames" by (simp add: pmm_ok_def witness_frames_def is_free_def)
  have "length (bitmap witness_frames) \<le> 2 ^ 31" by (simp add: witness_frames_def)
  note h = heap_safety[OF ok this r[unfolded witness_heap_def]]
  have "\<exists>a st'. kmalloc 5 3000 s1 = Ret (a, st') \<and> contents_kept [0xffff888000001400 \<mapsto> 1000] s1 st'"
    using h[THEN conjunct2, THEN conjunct1, rule_format, of 3000] by auto
  moreover have "\<exists>N st'. kfree N 0xffff888000001400 s1 = Ret st'"
    using h[THEN conjunct2, THEN conjunct2, rule_format, of "0xffff888000001400" 1000] by auto
  ultimately show ?thesis using r ok by blast
qed

text \<open>
  C38. The magic number is not a safe mark: when the first word of a big object happens to be the
  magic number, \<^verbatim>\<open>kfree\<close> takes the object for a pool page. A fifth byte above 5 then indexes past
  the end of \<^verbatim>\<open>tiers\<close>. Otherwise the link that is stored in the object overwrites the tier number,
  which is read again: when the free list of that class is empty, the object's address goes to
  the free list of class 0 and the next small allocation returns it, while its pages stay taken
  and its node stays on the list; when the list is not empty, the second index is taken from the
  stored link and is out of range for an address in the direct map.
\<close>

theorem kfree_trusts_magic:
  assumes "4096 dvd unat a" "a \<noteq> 0" "rd32 (kmem st) a = MAGIC" "length (tiers st) = 6" "t = unat (kmem st (a + 4))"
  shows "(6 \<le> t \<longrightarrow> kfree (Suc n) a st = Oob)
    \<and> (t < 6 \<and> free_head (tiers st ! t) = 0 \<longrightarrow> (\<exists>st' st''. kfree (Suc n) a st = Ret st' \<and> kpmm st' = kpmm st
         \<and> big_alloc_head st' = big_alloc_head st \<and> kmalloc_small (Suc k) 0 st' = Ret (a, st'')))
    \<and> (t < 6 \<and> 6 \<le> unat (ucast (drop_bit 32 (free_head (tiers st ! t))) :: u8) \<longrightarrow> kfree (Suc n) a st = Oob)"
proof -
  have al: "PAGE_ALIGN_DOWN a = a" using assms(1) vp_div[of a] by (simp add: PAGE_ALIGN_DOWN_vp)
  have j: "header_tier (wr64 (kmem st) a v) a = unat (ucast (drop_bit 32 v) :: u8)" for v :: u64
    by (simp add: header_tier_def wr_le_def in_block_def)
  have i: "header_tier (kmem st) a = t" using assms(5) by (simp add: header_tier_def)
  have step: "kfree (Suc n) a st = exec_bind (array_get (tiers st) t) (\<lambda>t'.
      let v = free_head t' in exec_bind (array_get (tiers st) (unat (ucast (drop_bit 32 v) :: u8))) (\<lambda>t''.
        Ret (st\<lparr>kmem := wr64 (kmem st) a v,
          tiers := (tiers st)[unat (ucast (drop_bit 32 v) :: u8) := t''\<lparr>free_head := a\<rparr>]\<rparr>)))"
    using assms(3) by (simp add: kfree.simps Let_def al i j)
  have "\<exists>st'. kmalloc_small (Suc k) 0 s = Ret (a, st')" if "free_head (tiers s ! 0) = a" "length (tiers s) = 6" for s
    using that assms(2) by (simp add: Let_def)
  then show ?thesis
    using assms(2,4) unfolding step by (auto simp: array_get_def Let_def simp del: kmalloc_small.simps)
qed

definition witness_confused :: kheap where
  "witness_confused = \<lparr>kmem = wr32 (\<lambda>_. 0) 0xffff888000001000 MAGIC, kpmm = witness_frames, tiers = tiers_static,
     big_alloc_head = 0xffff888000002020\<rparr>"

theorem kfree_trusts_magic_witness:
  "\<exists>st' st''. kfree 1 0xffff888000001000 witness_confused = Ret st' \<and> kpmm st' = kpmm witness_confused
     \<and> kmalloc_small 1 0 st' = Ret (0xffff888000001000, st'')"
proof -
  have a: "4096 dvd unat (0xffff888000001000 :: u64)" "(0xffff888000001000 :: u64) \<noteq> 0" by simp_all
  have m: "rd32 (kmem witness_confused) 0xffff888000001000 = MAGIC"
    unfolding witness_confused_def kheap.simps by (rule rd32_wr32_same)
  have t: "0 = unat (kmem witness_confused (0xffff888000001000 + 4))"
    by (simp add: witness_confused_def wr_le_def in_block_def)
  have l: "length (tiers witness_confused) = 6" "free_head (tiers witness_confused ! 0) = 0"
    by (simp_all add: witness_confused_def tiers_static_def)
  from kfree_trusts_magic[OF a m l(1) t, of 0 0] l(2) show ?thesis by (simp del: kmalloc_small.simps) blast
qed

end
