(* ===== verification/Kenv.thy ===== *)
theory Kenv
  imports Kheap Blockdev
begin

text \<open>
  The environment \<open>kops\<close> of the drivers and file systems, provided by the kernel heap and the page
  allocator of the model. A transfer of the disk is a parameter: what the controller delivers.
\<close>

section \<open>The kernel's own services\<close>

text \<open>
  The heap, and for the contract the live objects with their requested sizes and the pages that
  are handed out. The other results of the \<open>case\<close>s never occur in a state that satisfies \<open>kenv_ok\<close>.
\<close>

record 'd kenv =
  kheap_of :: kheap
  klive :: "u64 \<Rightarrow> nat option"
  kpages :: "u64 set"
  kdisk :: 'd

definition env_kmalloc :: "u64 \<Rightarrow> 'd kenv \<Rightarrow> u64 \<times> 'd kenv" where
  "env_kmalloc sz s = (case kmalloc 5 sz (kheap_of s) of
       Ret (a, h) \<Rightarrow> (a, s\<lparr>kheap_of := h, klive := if a = 0 then klive s else (klive s)(a \<mapsto> unat sz)\<rparr>)
     | _ \<Rightarrow> (0, s))"

definition env_kfree :: "u64 \<Rightarrow> 'd kenv \<Rightarrow> 'd kenv" where
  "env_kfree a s = (case kfree (2 ^ 34) a (kheap_of s) of
       Ret h \<Rightarrow> s\<lparr>kheap_of := h, klive := (klive s)(a := None)\<rparr>
     | _ \<Rightarrow> s)"

definition env_alloc_page :: "'d kenv \<Rightarrow> u64 \<times> 'd kenv" where
  "env_alloc_page s = (case alloc_page (kpmm (kheap_of s)) of (a, p) \<Rightarrow>
     (a, s\<lparr>kheap_of := (kheap_of s)\<lparr>kpmm := p\<rparr>, kpages := if a = 0 then kpages s else insert a (kpages s)\<rparr>))"

definition env_free_page :: "u64 \<Rightarrow> 'd kenv \<Rightarrow> 'd kenv" where
  "env_free_page a s = (case free_page a (kpmm (kheap_of s)) of
       Ret p \<Rightarrow> s\<lparr>kheap_of := (kheap_of s)\<lparr>kpmm := p\<rparr>, kpages := kpages s - {a}\<rparr>
     | _ \<Rightarrow> s)"

definition kernel_ops :: "(u64 \<Rightarrow> u64 \<Rightarrow> u64 \<Rightarrow> u64 \<Rightarrow> 'd \<Rightarrow> (int \<times> u8 list) \<times> 'd) \<Rightarrow> 'd kenv kops" where
  "kernel_ops transfer = \<lparr>kmalloc_op = env_kmalloc, kfree_op = env_kfree, page_op = env_alloc_page,
     free_page_op = env_free_page,
     disk_op = (\<lambda>p lba nr len s. case transfer p lba nr len (kdisk s) of (r, d) \<Rightarrow> (r, s\<lparr>kdisk := d\<rparr>))\<rparr>"

section \<open>The contract holds\<close>

definition kenv_ok :: "'d kenv \<Rightarrow> bool" where
  "kenv_ok s \<longleftrightarrow> (\<exists>V. heap_ok (kheap_of s) V \<and> live_ok V (klive s)
     \<and> (\<forall>a \<in> kpages s. \<exists>q. a = vp q \<and> page_out (kheap_of s) V q))"

lemma kenv_init: "pmm_ok p \<Longrightarrow> length (bitmap p) \<le> 2 ^ 31 \<Longrightarrow>
    kenv_ok \<lparr>kheap_of = heap_init p m, klive = Map.empty, kpages = {}, kdisk = d\<rparr>"
  using heap_init_ok[of p m] by (auto simp: kenv_ok_def)

lemma env_kmalloc_ok:
  assumes "kenv_ok s" "unat sz \<le> 2 ^ 32" "env_kmalloc sz s = (a, s')"
  shows "kenv_ok s' \<and> kpages s' = kpages s
    \<and> (a = 0 \<and> klive s' = klive s \<or> a \<noteq> 0 \<and> klive s a = None \<and> klive s' = (klive s)(a \<mapsto> unat sz))"
proof -
  obtain V where V: "heap_ok (kheap_of s) V" "live_ok V (klive s)" "\<forall>a \<in> kpages s. \<exists>q. a = vp q \<and> page_out (kheap_of s) V q"
    using assms(1) by (auto simp: kenv_ok_def)
  have sz: "unat sz + 4095 < 2 ^ 64" using assms(2) by simp
  obtain b h V' where k: "kmalloc 5 sz (kheap_of s) = Ret (b, h)" "heap_ok h V'"
    and o: "if b = 0 then V' = V else \<exists>c. unat sz \<le> c \<and> object_added V b c V' \<and> (b \<in> used V' \<longleftrightarrow> unat sz \<le> 1024)"
    and pg: "\<forall>q. page_out (kheap_of s) V q \<longrightarrow> page_out h V' q"
    using kmalloc_object[OF V(1) sz] by blast
  have r: "a = b" "s' = s\<lparr>kheap_of := h, klive := if b = 0 then klive s else (klive s)(b \<mapsto> unat sz)\<rparr>"
    using assms(3) k(1) by (auto simp: env_kmalloc_def)
  have pgs: "\<forall>a \<in> kpages s. \<exists>q. a = vp q \<and> page_out h V' q" using V(3) pg by blast
  show ?thesis
  proof (cases "b = 0")
    case True
    with o r V(2) k(2) pgs show ?thesis by (auto simp: kenv_ok_def)
  next
    case False
    with o obtain c where c: "unat sz \<le> c" "object_added V b c V'" "b \<in> used V' \<longleftrightarrow> unat sz \<le> 1024" by auto
    from live_ok_add[OF V(2) c(2,1,3)] r k(2) pgs False show ?thesis by (auto simp: kenv_ok_def)
  qed
qed

lemma env_kfree_ok:
  assumes "kenv_ok s" "klive s a = Some n" "n \<le> 1024"
  shows "kenv_ok (env_kfree a s) \<and> kpages (env_kfree a s) = kpages s \<and> klive (env_kfree a s) = (klive s)(a := None)"
proof -
  obtain V where V: "heap_ok (kheap_of s) V" "live_ok V (klive s)" "\<forall>a \<in> kpages s. \<exists>q. a = vp q \<and> page_out (kheap_of s) V q"
    using assms(1) by (auto simp: kenv_ok_def)
  obtain c where c: "is_object V a c" "a \<in> used V" using live_okE[OF V(2) assms(2)] assms(3) by metis
  obtain t where "is_slot V a t" using heap_okD(7)[OF V(1) c(2)] by blast
  then have "a \<noteq> vp q" if "(n, q, k) \<in> set (bigs V)" for n q k using slot_not_vp[OF V(1) that, of V t] by auto
  then have nb: "a \<notin> fst ` set (bigs V)" using c(1) unfolding is_object_def by blast
  obtain h V' where f: "\<forall>n \<ge> 1. kfree n a (kheap_of s) = Ret h" "heap_ok h V'" "object_removed V a V'"
    "\<forall>q. page_out (kheap_of s) V q \<longrightarrow> page_out h V' q"
    using small_object_freed[OF V(1) c(2) nb] by blast
  have "kfree (2 ^ 34) a (kheap_of s) = Ret h" using f(1) by (rule allE[of _ "2 ^ 34"]) simp
  then have e: "env_kfree a s = s\<lparr>kheap_of := h, klive := (klive s)(a := None)\<rparr>" by (simp add: env_kfree_def)
  have "\<forall>a \<in> kpages s. \<exists>q. a = vp q \<and> page_out h V' q" using V(3) f(4) by blast
  with e f(2) live_ok_remove[OF V(2) f(3)] show ?thesis by (auto simp: kenv_ok_def)
qed

text \<open>A page of the allocator is one that the heap does not hold.\<close>

lemma alloc_page_fresh:
  assumes ok: "heap_ok st V"
  shows "(\<exists>q p. alloc_page (kpmm st) = (vp q, p) \<and> vp q \<noteq> 0 \<and> heap_ok (st\<lparr>kpmm := p\<rparr>) V
      \<and> (\<forall>i. held p i \<longleftrightarrow> held (kpmm st) i \<or> i = q) \<and> \<not> held (kpmm st) q \<and> KB < q \<and> q < 2 ^ 52)
    \<or> alloc_page (kpmm st) = (0, kpmm st)"
  using pmm_alloc_frame_first[of "kpmm st"]
proof (elim disjE exE conjE)
  fix n assume n: "first_free (bitmap (kpmm st)) n"
    and a: "pmm_alloc_frame (kpmm st) = (of_nat n * PAGE_SIZE, (kpmm st)\<lparr>bitmap := take_frame n (bitmap (kpmm st))\<rparr>)"
  define p where "p = (kpmm st)\<lparr>bitmap := take_frame n (bitmap (kpmm st))\<rparr>"
  have fr: "is_free (bitmap (kpmm st)) n" using n by (simp add: first_free_def)
  note b = heap_free_bound[OF ok fr]
  have nz: "of_nat n * PAGE_SIZE \<noteq> (0 :: u64)" "vp (KB + n) \<noteq> 0"
    using b unat_frame[of n] unat_vp[of "KB + n"] by auto
  have held: "held p i \<longleftrightarrow> held (kpmm st) i \<or> i = KB + n" for i
    unfolding p_def using fr by (intro held_take) (simp add: is_free_def)
  have "pmm_ok p" "length (bitmap p) \<le> 2 ^ 31"
    using bitmap.alloc_ok[OF heap_okD(2)[OF ok] a] heap_okD(3)[OF ok] by (simp_all add: p_def)
  then have "heap_ok (st\<lparr>kpmm := p\<rparr>) V" by (rule heap_ok_pmm[OF ok]) (simp_all add: held)
  moreover have "alloc_page (kpmm st) = (vp (KB + n), p)"
    using nz(1) by (simp add: alloc_page_def a p_def PHYS_TO_VIRT_vp)
  ultimately show ?thesis
    using held nz(2) b free_not_held[OF fr] by (intro disjI1 exI[of _ "KB + n"] exI[of _ p]) simp
qed (simp add: alloc_page_def)

lemma free_page_out:
  assumes ok: "heap_ok st V" and q: "page_out st V q"
  shows "\<exists>p. free_page (vp q) (kpmm st) = Ret p \<and> heap_ok (st\<lparr>kpmm := p\<rparr>) V
    \<and> (\<forall>i. i \<noteq> q \<longrightarrow> held (kpmm st) i \<longrightarrow> held p i)"
proof -
  define p where "p = (kpmm st)\<lparr>bitmap := release_frame (q - KB) (bitmap (kpmm st))\<rparr>"
  have q': "KB < q" "held (kpmm st) q" using q by (simp_all add: page_out_def)
  note b = held_bound[OF q'(2) heap_okD(3)[OF ok]]
  have n: "(q - KB) div 8 < length (bitmap (kpmm st))" using q'(2) by (auto simp: held_def div_less_iff_less_mult)
  have e: "free_page (vp q) (kpmm st) = Ret p"
    unfolding free_page_def VIRT_TO_PHYS_vp[OF conjunct1[OF b]] p_def
    using b n q'(2) by (subst pmm_free_frame_correct) (auto simp: held_def)
  have len: "length (bitmap p) = length (bitmap (kpmm st))" by (simp add: p_def)
  have fr: "is_free (bitmap p) i \<longleftrightarrow> is_free (bitmap (kpmm st)) i \<or> i = q - KB" for i
    using n by (simp add: p_def)
  have held: "held p i" if "i \<noteq> q" "held (kpmm st) i" for i
    using that q'(1) by (auto simp: held_def len fr)
  have "heap_ok (st\<lparr>kpmm := p\<rparr>) V"
  proof (rule heap_ok_pmm[OF ok])
    show "pmm_ok p" using heap_okD(2)[OF ok] q'(1) by (simp add: pmm_ok_def len fr)
    show "length (bitmap p) \<le> 2 ^ 31" using heap_okD(3)[OF ok] by (simp add: len)
    show "held p i" if "pool V i = Some t" "held (kpmm st) i" for i t
      using held[of i] that q by (cases "i = q") (auto simp: page_out_def)
    show "held p (q' + i)" if "(n', q', k) \<in> set (bigs V)" "i < k" "held (kpmm st) (q' + i)" for n' q' k i
      using held[of "q' + i"] that q by (fastforce simp: page_out_def)
  qed
  with e held show ?thesis by blast
qed

lemma env_alloc_page_ok:
  assumes "kenv_ok s" "env_alloc_page s = (a, s')"
  shows "kenv_ok s' \<and> klive s' = klive s \<and>
    (a = 0 \<and> kpages s' = kpages s \<or> a \<noteq> 0 \<and> a \<notin> kpages s \<and> kpages s' = insert a (kpages s))"
proof -
  obtain V where V: "heap_ok (kheap_of s) V" "live_ok V (klive s)" "\<forall>a \<in> kpages s. \<exists>q. a = vp q \<and> page_out (kheap_of s) V q"
    using assms(1) by (auto simp: kenv_ok_def)
  show ?thesis using alloc_page_fresh[OF V(1)]
  proof (elim disjE exE conjE)
    fix q p assume q: "alloc_page (kpmm (kheap_of s)) = (vp q, p)" "vp q \<noteq> 0" "heap_ok ((kheap_of s)\<lparr>kpmm := p\<rparr>) V"
      "\<forall>i. held p i \<longleftrightarrow> held (kpmm (kheap_of s)) i \<or> i = q" "\<not> held (kpmm (kheap_of s)) q" "KB < q" "q < 2 ^ 52"
    have "page_out ((kheap_of s)\<lparr>kpmm := p\<rparr>) V q"
      using q(4,6) not_held_fresh[OF V(1) q(5)] by (simp add: page_out_def)
    moreover have "page_out ((kheap_of s)\<lparr>kpmm := p\<rparr>) V i" if "page_out (kheap_of s) V i" for i
      using that q(4) by (simp add: page_out_def)
    moreover have "vp q \<notin> kpages s"
    proof
      assume "vp q \<in> kpages s"
      with V(3) obtain i where i: "vp q = vp i" "page_out (kheap_of s) V i" by blast
      then have "held (kpmm (kheap_of s)) i" by (simp add: page_out_def)
      with held_bound[OF this heap_okD(3)[OF V(1)]] i(1) q(5,7) show False by (simp add: vp_inj)
    qed
    ultimately show ?thesis using assms(2) q(1-3) V(2,3) by (fastforce simp: env_alloc_page_def kenv_ok_def)
  next
    assume "alloc_page (kpmm (kheap_of s)) = (0, kpmm (kheap_of s))"
    with assms V show ?thesis by (auto simp: env_alloc_page_def kenv_ok_def)
  qed
qed

lemma env_free_page_ok:
  assumes "kenv_ok s" "a \<in> kpages s"
  shows "kenv_ok (env_free_page a s) \<and> klive (env_free_page a s) = klive s \<and> kpages (env_free_page a s) = kpages s - {a}"
proof -
  obtain V where V: "heap_ok (kheap_of s) V" "live_ok V (klive s)" "\<forall>a \<in> kpages s. \<exists>q. a = vp q \<and> page_out (kheap_of s) V q"
    using assms(1) by (auto simp: kenv_ok_def)
  obtain q where q: "a = vp q" "page_out (kheap_of s) V q" using V(3) assms(2) by blast
  obtain p where p: "free_page (vp q) (kpmm (kheap_of s)) = Ret p" "heap_ok ((kheap_of s)\<lparr>kpmm := p\<rparr>) V"
    "\<forall>i. i \<noteq> q \<longrightarrow> held (kpmm (kheap_of s)) i \<longrightarrow> held p i" using free_page_out[OF V(1) q(2)] by blast
  have "\<exists>i. b = vp i \<and> page_out ((kheap_of s)\<lparr>kpmm := p\<rparr>) V i" if "b \<in> kpages s - {a}" for b
  proof -
    from that V(3) obtain i where "b = vp i" "page_out (kheap_of s) V i" "i \<noteq> q" using q(1) by blast
    with p(3) show ?thesis by (auto simp: page_out_def)
  qed
  with p(1,2) q(1) V(2) show ?thesis by (auto simp: env_free_page_def kenv_ok_def)
qed

interpretation kernel: heap_env "kernel_ops transfer" kenv_ok klive kpages
proof (unfold_locales, goal_cases)
  case (1 s sz a s')
  then show ?case using env_kmalloc_ok by (simp add: kernel_ops_def)
next
  case (2 s a n)
  then show ?case using env_kfree_ok by (simp add: kernel_ops_def)
next
  case (3 s a s')
  then show ?case using env_alloc_page_ok by (simp add: kernel_ops_def)
next
  case (4 s a)
  then show ?case using env_free_page_ok by (simp add: kernel_ops_def)
next
  case (5 s p lba nr len r s')
  then show ?case by (auto simp: kernel_ops_def kenv_ok_def split: prod.splits)
qed

section \<open>Scanning for partitions\<close>

text \<open>
  C9. \<^verbatim>\<open>partition_scan\<close> on the kernel's heap. When the sector cannot be read, or one of the
  allocations fails, no device is registered and every allocation is released again. Otherwise
  the devices registered are exactly those of the entries of the sector that are in use, in
  order (up to the room in the registry), the result is their number, and no object that was
  live is touched.
\<close>

theorem partition_scan_correct:
  assumes "kenv_ok s" "unat (sector_size bdev) \<le> 1024"
    and "partition_scan (kernel_ops transfer) bdev devs s = (res, devs', s')"
  shows "kenv_ok s' \<and> kpages s' = kpages s \<and> (res < 0 \<longrightarrow> devs' = devs \<and> klive s' = klive s)
    \<and> (0 \<le> res \<longrightarrow> klive s \<subseteq>\<^sub>m klive s' \<and>
        (\<exists>s1 s2 sz sector. bdev_read (kernel_ops transfer) bdev 0 1 sz s1 = ((0, sector), s2)
          \<and> devs' = fold block_dev_register (map (part_dev bdev sector) (used_entries sector [0..<4])) devs
          \<and> res = int (length (used_entries sector [0..<4]))))"
  using kernel.partition_scan_owns[OF assms] partition_scan_devices[OF assms(3)] by blast

definition witness_env :: "unit kenv" where
  "witness_env = \<lparr>kheap_of = heap_init witness_frames (\<lambda>_. 0), klive = Map.empty, kpages = {}, kdisk = ()\<rparr>"

lemma witness_env_ok: "kenv_ok witness_env"
  unfolding witness_env_def by (rule kenv_init) (simp_all add: witness_frames_def pmm_ok_def is_free_def)

text \<open>A disk that fails: nothing is registered and nothing leaks.\<close>

theorem partition_scan_correct_witness:
  "case partition_scan (kernel_ops (\<lambda>p lba nr len d. ((- EIO, []), d))) (Ahci_dev [0x73] 512 100 0) [] witness_env of
     (res, devs', s') \<Rightarrow> res < 0 \<and> devs' = [] \<and> klive s' = Map.empty \<and> kpages s' = {}"
proof -
  let ?ops = "kernel_ops (\<lambda>p lba nr len d. ((- EIO, []), d)) :: unit kenv kops"
  let ?dev = "Ahci_dev [0x73] 512 100 0"
  obtain res devs' s' where r: "partition_scan ?ops ?dev [] witness_env = (res, devs', s')" by (metis prod.exhaust)
  have "res < 0" using r by (auto simp: partition_scan_def Let_def kernel_ops_def split: prod.splits if_splits)
  with partition_scan_correct[OF witness_env_ok _ r] show ?thesis by (simp add: r) (simp add: witness_env_def)
qed

end
