(* ===== verification/Fs_Resources.thy ===== *)
theory Fs_Resources
  imports Ext2 Kenv
begin

text \<open>
  What the ext2 driver takes from the kernel heap and the page allocator, and what it gives back:
  proved once against the contract \<open>heap_env\<close>, and used for the kernel's own services.
\<close>

section \<open>Blocks and optional objects\<close>

text \<open>The objects and pages behind a pointer that may be null.\<close>

definition obj :: "u64 \<Rightarrow> nat \<Rightarrow> (u64 \<times> nat) list" where
  "obj a n = (if a = 0 then [] else [(a, n)])"

definition block_obj :: "u32 \<Rightarrow> u64 \<Rightarrow> (u64 \<times> nat) list" where
  "block_obj bs a = (if bs = 4096 then [] else obj a (unat bs))"

definition block_page :: "u32 \<Rightarrow> u64 \<Rightarrow> u64 set" where
  "block_page bs a = (if bs = 4096 \<and> a \<noteq> 0 then {a} else {})"

text \<open>The block sizes whose buffers \<^verbatim>\<open>kfree\<close> always recognises.\<close>

definition block_size_ok :: "u32 \<Rightarrow> bool" where
  "block_size_ok bs \<longleftrightarrow> unat bs \<le> 1024 \<or> bs = 4096"

context heap_env
begin

lemma owns_refl: "ok s \<Longrightarrow> owns s s [] {}"
  by (simp add: owns_def holds_refl)

lemma owns_done: "owns s0 s [] {} \<Longrightarrow> ok s \<and> live s = live s0 \<and> pages s = pages s0"
  using holds_done by (simp add: owns_def)

lemma owns_ok: "owns s0 s A Q \<Longrightarrow> ok s"
  by (simp add: owns_def holds_def)

lemma owns_malloc_obj:
  assumes "owns s0 s A Q" "unat sz \<le> 2 ^ 32" "kmalloc_op ops sz s = (a, s')"
  shows "owns s0 s' (obj a (unat sz) @ A) Q"
  using owns_malloc[OF assms] by (auto simp: obj_def)

lemma owns_free_obj:
  assumes "owns s0 s (obj a n @ A) Q" "n \<le> 1024"
  shows "owns s0 (if a \<noteq> 0 then kfree_op ops a s else s) A Q"
  using owns_free[of s0 s a n A Q] assms by (auto simp: obj_def)

lemma owns_alloc_block:
  assumes "owns s0 s A Q" "ext2_alloc_block ops bs s = (a, s')" "block_size_ok bs"
  shows "owns s0 s' (block_obj bs a @ A) (block_page bs a \<union> Q)"
proof (cases "bs = 4096")
  case True
  with assms(1,2) holds_page[of s0 s "map_of A" Q a s'] show ?thesis
    by (auto simp: owns_def ext2_alloc_block_def block_obj_def block_page_def)
next
  case False
  have "unat bs \<le> 2 ^ 32" using assms(3) by (auto simp: block_size_ok_def)
  with False assms(1,2) owns_malloc_obj[of s0 s A Q "ucast bs" a s'] show ?thesis
    by (simp add: ext2_alloc_block_def block_obj_def block_page_def)
qed

lemma owns_free_block:
  assumes "owns s0 s (block_obj bs a @ A) (block_page bs a)" "block_size_ok bs"
  shows "owns s0 (if a \<noteq> 0 then ext2_free_block ops a bs s else s) A {}"
proof (cases "bs = 4096")
  case True
  with assms(1) holds_free_page[of s0 s "map_of A" "{a}" a] show ?thesis
    by (auto simp: owns_def ext2_free_block_def block_obj_def block_page_def)
next
  case False
  with assms owns_free_obj[of s0 s a "unat bs" A "{}"] show ?thesis
    by (auto simp: ext2_free_block_def block_obj_def block_page_def block_size_ok_def)
qed

text \<open>
  A step that only adds: whatever was allocated before is still allocated, unmoved.
\<close>

definition keeps :: "'s \<Rightarrow> 's \<Rightarrow> bool" where
  "keeps s s' \<longleftrightarrow> ok s' \<and> live s \<subseteq>\<^sub>m live s' \<and> pages s \<subseteq> pages s'"

lemma keeps_refl: "ok s \<Longrightarrow> keeps s s"
  by (simp add: keeps_def)

lemma keeps_trans: "keeps s1 s2 \<Longrightarrow> keeps s2 s3 \<Longrightarrow> keeps s1 s3"
  by (auto simp: keeps_def intro: map_le_trans)

lemma keeps_ok: "keeps s s' \<Longrightarrow> ok s'"
  by (simp add: keeps_def)

lemma owns_keeps:
  assumes "owns s s' A Q"
  shows "keeps s s'"
proof -
  have h: "live s' = live s ++ map_of A" "dom (live s) \<inter> dom (map_of A) = {}" "ok s'" "pages s' = pages s \<union> Q"
    using assms by (auto simp: owns_def holds_def)
  have "live s' = map_of A ++ live s" unfolding h(1) by (rule map_add_comm[OF h(2)])
  then have "live s \<subseteq>\<^sub>m live s'" by (simp only: map_le_map_add)
  with h show ?thesis by (simp add: keeps_def)
qed

lemma owns_fresh: "owns s s' A Q \<Longrightarrow> (a, n) \<in> set A \<Longrightarrow> live s a = None \<and> live s' a = Some n"
  by (fastforce simp: owns_def holds_def map_add_def split: option.splits)

lemma keeps_read: "ok s \<Longrightarrow> bdev_read ops d lba nr len s = (r, s') \<Longrightarrow> keeps s s'"
  using bdev_read_env[of s d lba nr len r s'] by (auto simp: keeps_def)

text \<open>A buffer that is allocated around such steps can be released again.\<close>

lemma block_around:
  assumes ok: "ok s" and a: "ext2_alloc_block ops bs s = (a, s1)" "a \<noteq> 0" and bs: "block_size_ok bs" and k: "keeps s1 s2"
  shows "keeps s (ext2_free_block ops a bs s2) \<and> (\<forall>x. live s1 x = None \<longrightarrow> live (ext2_free_block ops a bs s2) x = live s2 x)"
proof -
  have o: "owns s s1 (block_obj bs a) (block_page bs a)" using owns_alloc_block[OF owns_refl[OF ok] a(1) bs] by simp
  show ?thesis
  proof (cases "bs = 4096")
    case True
    then have p: "a \<in> pages s1" "a \<notin> pages s" using o a(2) by (auto simp: owns_def holds_def block_page_def)
    have "a \<in> pages s2" "ok s2" using k p(1) by (auto simp: keeps_def)
    from free_page[OF this(2,1)] p(2) k owns_keeps[OF o] True show ?thesis
      by (auto simp: keeps_def ext2_free_block_def intro: map_le_trans)
  next
    case False
    have l: "live s a = None" "live s1 a = Some (unat bs)"
      using owns_fresh[OF o, of a "unat bs"] a(2) False by (simp_all add: block_obj_def obj_def)
    have l2: "live s2 a = Some (unat bs)" "ok s2" using k l(2) by (auto simp: keeps_def map_le_def domI dest: bspec)
    have n: "unat bs \<le> 1024" using bs False by (simp add: block_size_ok_def)
    have "live s \<subseteq>\<^sub>m live s2" using k owns_keeps[OF o] by (auto simp: keeps_def intro: map_le_trans)
    then have "live s \<subseteq>\<^sub>m (live s2)(a := None)" using l(1) by (auto simp: map_le_def)
    with free[OF l2(2,1) n] k owns_keeps[OF o] False l(2) show ?thesis by (auto simp: keeps_def ext2_free_block_def)
  qed
qed

section \<open>Reading an inode\<close>

text \<open>The four allocations of \<^verbatim>\<open>ext2_read_inode\<close>, and the error exit that takes them back.\<close>

lemma read_inode_allocs:
  assumes "ok s" "block_size_ok bs"
    and "ext2_alloc_block ops bs s = (b, s1)" "kmalloc_op ops sizeof_ext2_inode s1 = (raw, s2)"
      "kmalloc_op ops sizeof_inode s2 = (ip, s3)" "kmalloc_op ops sizeof_ext2_inode_info s3 = (ii, s4)"
  shows "owns s s4 (obj ii 48 @ obj ip 56 @ obj raw 128 @ block_obj bs b) (block_page bs b)"
proof -
  have "owns s s1 (block_obj bs b) (block_page bs b)" using owns_alloc_block[OF owns_refl[OF assms(1)] assms(3,2)] by simp
  from owns_malloc_obj[OF this _ assms(4)] have "owns s s2 (obj raw 128 @ block_obj bs b) (block_page bs b)" by simp
  from owns_malloc_obj[OF this _ assms(5)] have "owns s s3 (obj ip 56 @ obj raw 128 @ block_obj bs b) (block_page bs b)" by simp
  from owns_malloc_obj[OF this _ assms(6)] show ?thesis by simp
qed

lemma read_inode_out_err_frees:
  assumes o: "owns s0 s (obj ii 48 @ obj ip 56 @ obj raw 128 @ block_obj bs b) (block_page bs b)" and bs: "block_size_ok bs"
  shows "owns s0 (read_inode_out_err ops bs b raw ip ii s) [] {}"
proof -
  define s1 where "s1 = (if b \<noteq> 0 then ext2_free_block ops b bs s else s)"
  define s2 where "s2 = (if raw \<noteq> 0 then kfree_op ops raw s1 else s1)"
  define s3 where "s3 = (if ip \<noteq> 0 then kfree_op ops ip s2 else s2)"
  have "owns s0 s (block_obj bs b @ obj raw 128 @ obj ip 56 @ obj ii 48) (block_page bs b)"
    by (rule owns_cong[OF o]) auto
  from owns_free_block[OF this bs] have "owns s0 s1 (obj raw 128 @ obj ip 56 @ obj ii 48) {}" by (simp add: s1_def)
  from owns_free_obj[OF this] have "owns s0 s2 (obj ip 56 @ obj ii 48) {}" by (simp add: s2_def)
  from owns_free_obj[OF this] have "owns s0 s3 (obj ii 48 @ []) {}" by (simp add: s3_def)
  from owns_free_obj[OF this]
  show ?thesis unfolding read_inode_out_err_def Let_def s1_def[symmetric] s2_def[symmetric] s3_def[symmetric] by simp
qed

text \<open>
  What \<^verbatim>\<open>ext2_read_inode\<close> leaves behind: nothing new on an error, and on success the inode at a fresh
  address, its private data and nothing else.
\<close>

lemma read_inode_resources:
  assumes ok: "ok (env st)" and sb: "\<forall>sb. supers st sbp = Some sb \<longrightarrow> block_size_ok (sb_block_size sb)"
    and r: "ext2_read_inode ops bdev sbp n st = Ret (ip, st')"
  shows "(\<exists>s'. st' = st\<lparr>env := s'\<rparr> \<and> owns (env st) s' [] {}) \<and> (\<exists>e < 0. ip = ERR_PTR e)
    \<or> (\<exists>s' i raw ii. st' = st\<lparr>env := s', inodes := (inodes st)(ip \<mapsto> i)\<rparr> \<and> ip \<noteq> 0 \<and> raw \<noteq> 0 \<and> ii \<noteq> 0
        \<and> owns (env st) s' (obj ii 48 @ obj ip 56 @ obj raw 128) {})"
proof -
  obtain sb where sb': "deref (supers st) sbp = Ret sb" using r by (auto simp: ext2_read_inode_def exec_simps)
  then have "supers st sbp = Some sb" by (simp add: deref_def split: if_splits option.splits)
  with sb have bs: "block_size_ok (sb_block_size sb)" by blast
  let ?bs = "sb_block_size sb"
  obtain b s1 where b: "ext2_alloc_block ops ?bs (env st) = (b, s1)" by force
  obtain raw s2 where raw: "kmalloc_op ops sizeof_ext2_inode s1 = (raw, s2)" by force
  obtain p s3 where p: "kmalloc_op ops sizeof_inode s2 = (p, s3)" by force
  obtain ii s4 where ii: "kmalloc_op ops sizeof_ext2_inode_info s3 = (ii, s4)" by force
  note al = b raw p ii
  note o4 = read_inode_allocs[OF ok bs al]
  show ?thesis
  proof (cases "ip = ERR_PTR (- EINVAL) \<and> st' = st")
    case True
    with owns_refl[OF ok] show ?thesis by (intro disjI1 conjI exI[of _ "env st"] exI[of _ "- EINVAL"]) simp_all
  next
    case ne: False
    show ?thesis
    proof (cases "b = 0 \<or> raw = 0 \<or> p = 0 \<or> ii = 0")
      case True
      then have "ip = ERR_PTR (- ENOMEM)" "st' = st\<lparr>env := read_inode_out_err ops ?bs b raw p ii s4\<rparr>"
        using r sb' ne al by (auto simp: ext2_read_inode_def exec_simps Let_def split: if_splits)
      with read_inode_out_err_frees[OF o4 bs] show ?thesis
        by (intro disjI1 conjI exI[of _ "read_inode_out_err ops ?bs b raw p ii s4"] exI[of _ "- ENOMEM"]) simp_all
    next
      case nz: False
      let ?info = "sb_info sb"
      define lba where "lba = (inode_table_addr (bgd_table ?info ! unat ((n - 1) div inodes_per_group ?info))
        + (n - 1) mod inodes_per_group ?info div (?bs div ucast (inode_struct_size (fs_super ?info)))) * sb_sectors_per_block sb"
      obtain res bytes s5 where rd: "bdev_read ops bdev (ucast lba) (ucast (sb_sectors_per_block sb)) (ucast ?bs) s4 = ((res, bytes), s5)"
        by (metis prod.exhaust)
      have c: "res < 0 \<and> ip = ERR_PTR res \<and> st' = st\<lparr>env := read_inode_out_err ops ?bs b raw p ii s5\<rparr>
          \<or> (\<exists>i. ip = p \<and> st' = st\<lparr>env := ext2_free_block ops b ?bs s5, inodes := (inodes st)(p \<mapsto> i)\<rparr>)"
        using r sb' ne nz al rd by (auto simp: ext2_read_inode_def exec_simps Let_def lba_def split: if_splits)
      note o5 = owns_read[OF o4 rd]
      from c show ?thesis
      proof (elim disjE exE conjE)
        assume "res < 0" "ip = ERR_PTR res" "st' = st\<lparr>env := read_inode_out_err ops ?bs b raw p ii s5\<rparr>"
        with read_inode_out_err_frees[OF o5 bs] show ?thesis
          by (intro disjI1 conjI exI[of _ "read_inode_out_err ops ?bs b raw p ii s5"] exI[of _ res]) simp_all
      next
        fix i assume i: "ip = p" "st' = st\<lparr>env := ext2_free_block ops b ?bs s5, inodes := (inodes st)(p \<mapsto> i)\<rparr>"
        have "owns (env st) s5 (block_obj ?bs b @ obj ii 48 @ obj p 56 @ obj raw 128) (block_page ?bs b)"
          by (rule owns_cong[OF o5]) auto
        from owns_free_block[OF this bs] nz i show ?thesis
          by (intro disjI2 exI[of _ "ext2_free_block ops b ?bs s5"] exI[of _ i] exI[of _ raw] exI[of _ ii]) simp_all
      qed
    qed
  qed
qed

section \<open>Looking up a directory\<close>

text \<open>
  The inodes and directory entries are live objects, and the buffers of the mounted file systems
  can be released.
\<close>

definition fs_live :: "'s fs \<Rightarrow> bool" where
  "fs_live st \<longleftrightarrow> ok (env st) \<and> dom (inodes st) \<subseteq> dom (live (env st)) \<and> dom (dentries st) \<subseteq> dom (live (env st))
     \<and> (\<forall>p sb. supers st p = Some sb \<longrightarrow> block_size_ok (sb_block_size sb))"

text \<open>A step that adds objects and inodes and leaves the rest, up to the cached tables of inodes.\<close>

definition fs_grows :: "'s fs \<Rightarrow> 's fs \<Rightarrow> bool" where
  "fs_grows st st' \<longleftrightarrow> keeps (env st) (env st') \<and> supers st' = supers st \<and> files st' = files st \<and> vfs_root st' = vfs_root st
     \<and> (\<forall>ip i. inodes st ip = Some i \<longrightarrow> (\<exists>i'. inodes st' ip = Some i' \<and> imode i' = imode i \<and> iops i' = iops i))
     \<and> (\<forall>ip. inodes st ip = None \<and> inodes st' ip \<noteq> None \<longrightarrow> live (env st) ip = None \<and> live (env st') ip \<noteq> None)"

lemma fs_grows_refl: "ok (env st) \<Longrightarrow> fs_grows st st"
  by (auto simp: fs_grows_def keeps_refl)

lemma keeps_dom: "keeps s s' \<Longrightarrow> dom (live s) \<subseteq> dom (live s')"
  by (auto simp: keeps_def map_le_def) (metis domI domD)

lemma keepsD: "keeps s s' \<Longrightarrow> live s a = Some n \<Longrightarrow> live s' a = Some n" "keeps s s' \<Longrightarrow> live s' a = None \<Longrightarrow> live s a = None"
proof -
  show *: "live s' a = Some n" if "keeps s s'" "live s a = Some n" for n
    using that by (auto simp: keeps_def map_le_def domI dest: bspec)
  show "live s a = None" if "keeps s s'" "live s' a = None" using that *[of _] by (cases "live s a") auto
qed

lemma fs_grows_trans:
  assumes "fs_grows st1 st2" "fs_grows st2 st3"
  shows "fs_grows st1 st3"
proof -
  have k: "keeps (env st1) (env st2)" "keeps (env st2) (env st3)" using assms by (simp_all add: fs_grows_def)
  have "\<exists>i'. inodes st3 ip = Some i' \<and> imode i' = imode i \<and> iops i' = iops i" if "inodes st1 ip = Some i" for ip i
    using assms that unfolding fs_grows_def by metis
  moreover have "live (env st1) ip = None \<and> live (env st3) ip \<noteq> None" if n: "inodes st1 ip = None" "inodes st3 ip \<noteq> None" for ip
  proof (cases "inodes st2 ip = None")
    case True
    with n assms(2) have "live (env st2) ip = None" "live (env st3) ip \<noteq> None" by (auto simp: fs_grows_def)
    with keepsD(2)[OF k(1)] show ?thesis by blast
  next
    case False
    with n assms(1) have "live (env st1) ip = None" "live (env st2) ip \<noteq> None" by (auto simp: fs_grows_def)
    with keepsD(1)[OF k(2)] show ?thesis by fastforce
  qed
  ultimately show ?thesis using assms keeps_trans[OF k] unfolding fs_grows_def by simp
qed

lemma fs_live_grows:
  assumes "fs_live st" "fs_grows st st'" "dentries st' = dentries st"
  shows "fs_live st'"
proof -
  have k: "keeps (env st) (env st')" using assms(2) by (simp add: fs_grows_def)
  have "dom (inodes st') \<subseteq> dom (inodes st) \<union> dom (live (env st'))" using assms(2) by (fastforce simp: fs_grows_def)
  moreover have "dom (inodes st) \<subseteq> dom (live (env st))" "dom (dentries st) \<subseteq> dom (live (env st))" using assms(1) by (simp_all add: fs_live_def)
  ultimately have "dom (inodes st') \<subseteq> dom (live (env st'))" "dom (dentries st') \<subseteq> dom (live (env st'))"
    unfolding assms(3) using keeps_dom[OF k] by blast+
  with assms keeps_ok[OF k] show ?thesis by (simp add: fs_live_def fs_grows_def)
qed

lemma init_singly_grows:
  assumes l: "fs_live st" and r: "ext2_init_singly ops ip st = Ret (res, st')"
  shows "fs_grows st st' \<and> dentries st' = dentries st"
proof -
  have ok: "ok (env st)" using l by (simp add: fs_live_def)
  obtain i where i: "deref (inodes st) ip = Ret i" using r by (auto simp: ext2_init_singly_def exec_simps)
  then have i': "inodes st ip = Some i" by (simp add: deref_def split: if_splits option.splits)
  show ?thesis
  proof (cases "singly (i_info i) = None")
    case False
    with r i fs_grows_refl[OF ok] show ?thesis by (simp add: ext2_init_singly_def)
  next
    case True
    with r i obtain sb where sb: "deref (supers st) (isb i) = Ret sb" by (auto simp: ext2_init_singly_def exec_simps)
    then have bs: "block_size_ok (sb_block_size sb)" using l by (auto simp: fs_live_def deref_def split: if_splits option.splits)
    let ?bs = "sb_block_size sb"
    obtain a s1 where a: "ext2_alloc_block ops ?bs (env st) = (a, s1)" by force
    note o1 = owns_alloc_block[OF owns_refl[OF ok] a bs]
    obtain status bytes s2 where rd: "bdev_read ops (sb_bdev sb) (ucast (singly_ptr (raw_inode (i_info i)) * sb_sectors_per_block sb))
        (ucast (sb_sectors_per_block sb)) (ucast ?bs) s1 = ((status, bytes), s2)" by (metis prod.exhaust)
    have k1: "keeps (env st) s1" "keeps (env st) s2"
      using owns_keeps[OF o1] keeps_trans[OF _ keeps_read[OF owns_ok[OF o1] rd]] by blast+
    consider "a = 0" "st' = st\<lparr>env := s1\<rparr>" | "a \<noteq> 0" "st' = st\<lparr>env := ext2_free_block ops a ?bs s2\<rparr>"
      | t where "st' = st\<lparr>env := s2, inodes := (inodes st)(ip \<mapsto> i\<lparr>i_info := t\<rparr>)\<rparr>"
      using r i True sb a rd by (auto simp: ext2_init_singly_def Let_def split: if_splits)
    then show ?thesis
    proof cases
      case 1
      then show ?thesis using k1 by (auto simp: fs_grows_def)
    next
      case 2
      then show ?thesis
        using block_around[OF ok a _ bs keeps_read[OF owns_ok[OF o1] rd]] by (auto simp: fs_grows_def)
    next
      case 3
      then show ?thesis using k1 i' by (auto simp: fs_grows_def)
    qed
  qed
qed

lemma dir_block_addr_grows:
  assumes "fs_live st" "dir_block_addr ops dir i st = Ret (r, st')"
  shows "fs_grows st st' \<and> dentries st' = dentries st \<and> (\<forall>e. r = Inl e \<longrightarrow> e < 0)"
proof -
  have ok: "ok (env st)" using assms(1) by (simp add: fs_live_def)
  show ?thesis
  proof (cases "i < 12")
    case True
    with assms(2) fs_grows_refl[OF ok] show ?thesis by (auto simp: dir_block_addr_def exec_simps)
  next
    case False
    with assms(2) obtain res st1 where "ext2_init_singly ops dir st = Ret (res, st1)" "st' = st1" "\<forall>e. r = Inl e \<longrightarrow> e < 0"
      by (auto simp: dir_block_addr_def exec_simps split: if_splits option.splits)
    with init_singly_grows[OF assms(1)] show ?thesis by auto
  qed
qed

lemma search_dir_block_error: "search_dir_block buf bs name n off = Ret (Inl e) \<Longrightarrow> e < 0"
proof (induction buf bs name n off rule: search_dir_block.induct)
  case (1 buf bs name n off)
  from "1.prems"[unfolded search_dir_block.simps[of buf bs name n off]] "1.IH" show ?case
    by (auto simp: exec_simps split: if_splits)
qed

lemma lookup_blocks_grows:
  "fs_live st \<Longrightarrow> lookup_blocks ops sb dir name is st = Ret (r, st') \<Longrightarrow>
     fs_grows st st' \<and> dentries st' = dentries st \<and> (\<forall>e. r = Inl e \<longrightarrow> e < 0)"
proof (induction "is" arbitrary: st)
  case Nil
  then show ?case using fs_grows_refl by (auto simp: fs_live_def)
next
  case (Cons i "is")
  obtain a st1 where a: "dir_block_addr ops dir i st = Ret (a, st1)" using Cons.prems(2) by (auto simp: exec_simps)
  note g1 = dir_block_addr_grows[OF Cons.prems(1) a]
  have l1: "fs_live st1" using fs_live_grows[OF Cons.prems(1)] g1 by blast
  show ?case
  proof (cases "\<exists>addr. a = Inr addr \<and> addr \<noteq> 0")
    case False
    then show ?thesis using a Cons.prems(2) g1 by (cases a) auto
  next
    case True
    then obtain addr where addr: "a = Inr addr" "addr \<noteq> 0" by blast
    obtain res bytes s2 where rd: "bdev_read ops (sb_bdev sb) (ucast (addr * sb_sectors_per_block sb))
        (ucast (sb_sectors_per_block sb)) (ucast (sb_block_size sb)) (env st1) = ((res, bytes), s2)" by (metis prod.exhaust)
    have "ok (env st1)" using l1 by (simp add: fs_live_def)
    then have "keeps (env st1) s2" using keeps_read[OF _ rd] by blast
    then have g2: "fs_grows st1 (st1\<lparr>env := s2\<rparr>)" by (auto simp: fs_grows_def)
    have g: "fs_grows st (st1\<lparr>env := s2\<rparr>)" using fs_grows_trans g1 g2 by blast
    have l2: "fs_live (st1\<lparr>env := s2\<rparr>)" using fs_live_grows[OF l1 g2] by simp
    show ?thesis
    proof (cases "res < 0")
      case True
      then show ?thesis using a addr rd Cons.prems(2) g g1 by (auto simp: on_env_def Let_def)
    next
      case False
      with a addr rd Cons.prems(2) obtain e where e:
        "search_dir_block bytes (unat (sb_block_size sb)) (str name) (ucast (qlen name)) 0 = Ret e"
        by (auto simp: on_env_def Let_def exec_simps)
      have c: "(case e of Inl err \<Rightarrow> Ret (Inl err, st1\<lparr>env := s2\<rparr>) | Inr (Some off) \<Rightarrow> Ret (Inr (Some (bytes, off)), st1\<lparr>env := s2\<rparr>)
          | Inr None \<Rightarrow> lookup_blocks ops sb dir name is (st1\<lparr>env := s2\<rparr>)) = Ret (r, st')"
        using False a addr rd Cons.prems(2) e by (simp add: on_env_def Let_def)
      show ?thesis
      proof (cases e)
        case (Inl err)
        with c search_dir_block_error[of bytes] e g g1 show ?thesis by auto
      next
        case (Inr o')
        show ?thesis
        proof (cases o')
          case None
          with c Inr Cons.IH[OF l2] g g1 fs_grows_trans show ?thesis by auto
        next
          case (Some off)
          with c Inr g g1 show ?thesis by auto
        qed
      qed
    qed
  qed
qed

lemma read_inode_grows:
  assumes l: "fs_live st" and r: "ext2_read_inode ops bdev sbp n st = Ret (ip, st')"
  shows "fs_grows st st' \<and> dentries st' = dentries st"
proof -
  have ok: "ok (env st)" and sb: "\<forall>sb. supers st sbp = Some sb \<longrightarrow> block_size_ok (sb_block_size sb)"
    using l by (auto simp: fs_live_def)
  from read_inode_resources[OF ok sb r] show ?thesis
  proof (elim disjE exE conjE)
    fix s' i raw ii assume st': "st' = st\<lparr>env := s', inodes := (inodes st)(ip \<mapsto> i)\<rparr>" and ip: "ip \<noteq> 0"
      and o: "owns (env st) s' (obj ii 48 @ obj ip 56 @ obj raw 128) {}"
    have f: "live (env st) ip = None" "live s' ip = Some 56" using owns_fresh[OF o, of ip 56] ip by (auto simp: obj_def)
    then have "inodes st ip = None" using l by (fastforce simp: fs_live_def)
    with f st' owns_keeps[OF o] show ?thesis by (auto simp: fs_grows_def)
  next
    fix s' e assume "st' = st\<lparr>env := s'\<rparr>" "owns (env st) s' [] {}"
    with owns_keeps show ?thesis by (auto simp: fs_grows_def)
  qed
qed

lemma IS_ERR_negative: "IS_ERR p \<Longrightarrow> PTR_ERR p < 0"
proof -
  assume "IS_ERR p"
  then have "2 ^ 63 \<le> uint p" by (simp add: IS_ERR_def word_le_def)
  moreover have "uint p < 2 ^ 64" using unsigned_less[of p] by simp
  ultimately have "uint p div 2 ^ 63 = 1" by simp
  then have "bit (uint p) 63" by (simp add: bit_iff_odd)
  moreover have "sint p = signed_take_bit 63 (uint p)" by (simp add: sint_uint)
  ultimately show ?thesis using \<open>uint p < 2 ^ 64\<close>
    by (simp add: PTR_ERR_def signed_take_bit_eq_take_bit_minus take_bit_int_eq_self)
qed

text \<open>A lookup that succeeds links the entry in front of its siblings and changes nothing else.\<close>

lemma ext2_lookup_success:
  assumes l: "fs_live st" and c: "child \<noteq> 0" "dentries st child = Some c" "dparent c = p" "p \<noteq> 0" "p \<noteq> child" "dentries st p = Some pd"
    and r: "ext2_lookup ops dir child st = Ret (res, st')" "\<not> res < 0"
  shows "fs_grows st st' \<and> (\<exists>ip sbp. dentries st' =
    (dentries st)(child \<mapsto> c\<lparr>dinode := ip, next_sibling := first_child pd, dsb := sbp\<rparr>, p \<mapsto> pd\<lparr>first_child := child\<rparr>))"
proof -
  have ok: "ok (env st)" using l by (simp add: fs_live_def)
  obtain d sb where d: "deref (inodes st) dir = Ret d" "deref (supers st) (isb d) = Ret sb"
    using r(1) by (auto simp: ext2_lookup_def exec_simps)
  then have bs: "block_size_ok (sb_block_size sb)" using l by (auto simp: fs_live_def deref_def split: if_splits option.splits)
  obtain a s1 where a: "ext2_alloc_block ops (sb_block_size sb) (env st) = (a, s1)" by force
  have a0: "a \<noteq> 0" using r d a by (auto simp: ext2_lookup_def on_env_def Let_def)
  let ?st1 = "st\<lparr>env := s1\<rparr>"
  have o1: "owns (env st) s1 (block_obj (sb_block_size sb) a) (block_page (sb_block_size sb) a)"
    using owns_alloc_block[OF owns_refl[OF ok] a bs] by simp
  have g1: "fs_grows st ?st1" using owns_keeps[OF o1] by (auto simp: fs_grows_def)
  have l1: "fs_live ?st1" using fs_live_grows[OF l g1] by simp
  have dc: "deref (dentries st) child = Ret c" using c by (simp add: deref_def)
  obtain lr st2 where lb: "lookup_blocks ops sb dir (dname c) [0..<12 + unat (sb_block_size sb) div 4] ?st1 = Ret (lr, st2)"
    using r(1) d a a0 dc by (auto simp: ext2_lookup_def on_env_def Let_def exec_simps)
  note g2 = lookup_blocks_grows[OF l1 lb]
  have l2: "fs_live st2" using fs_live_grows[OF l1] g2 by simp
  obtain bytes off where lr: "lr = Inr (Some (bytes, off))"
    using r d a a0 dc lb g2 by (cases lr) (auto simp: ext2_lookup_def on_env_def Let_def exec_simps split: option.splits)
  obtain ip st3 where ri: "ext2_read_inode ops (sb_bdev sb) (isb d) (d_inode (dir_entry_at bytes off)) st2 = Ret (ip, st3)"
    using r(1) d a a0 dc lb lr by (auto simp: ext2_lookup_def on_env_def Let_def exec_simps)
  note g3 = read_inode_grows[OF l2 ri]
  have ds: "dentries st3 = dentries st" using g2 g3 by simp
  have add: "d_add child ip st3 = Ret (st3\<lparr>dentries := (dentries st)(child \<mapsto> c\<lparr>dinode := ip, next_sibling := first_child pd\<rparr>, p \<mapsto> pd\<lparr>first_child := child\<rparr>)\<rparr>)"
    using c by (simp add: d_add_def deref_def ds Let_def)
  have st': "st' = st3\<lparr>dentries := (dentries st)(child \<mapsto> c\<lparr>dinode := ip, next_sibling := first_child pd, dsb := isb d\<rparr>, p \<mapsto> pd\<lparr>first_child := child\<rparr>),
      env := ext2_free_block ops a (sb_block_size sb) (env st3)\<rparr>"
    using r IS_ERR_negative[of ip] d a a0 dc lb lr ri add c(1,5)
    by (auto simp: ext2_lookup_def on_env_def Let_def deref_def fun_upd_twist split: if_splits)
  have g13: "fs_grows ?st1 st3" using fs_grows_trans g2 g3 by blast
  then have k: "keeps s1 (env st3)" by (simp add: fs_grows_def)
  note ka = block_around[OF ok a a0 bs k]
  have i: "\<exists>i'. inodes st3 x = Some i' \<and> imode i' = imode i \<and> iops i' = iops i" if "inodes st x = Some i" for x i
    using g13 that by (simp add: fs_grows_def)
  have n: "live (env st) x = None \<and> live (env st') x \<noteq> None" if x: "inodes st x = None" "inodes st3 x \<noteq> None" for x
  proof -
    have x1: "live s1 x = None" "live (env st3) x \<noteq> None" using g13 x by (auto simp: fs_grows_def)
    moreover have "live (env st') x = live (env st3) x" using ka x1(1) st' by simp
    moreover have "live (env st) x = None" using keepsD(2)[OF owns_keeps[OF o1] x1(1)] .
    ultimately show ?thesis by simp
  qed
  have "fs_grows st st'" using ka i n g13 unfolding fs_grows_def st' by simp
  with st' show ?thesis by auto
qed

end

section \<open>On the kernel's heap\<close>

text \<open>
  C13. \<^verbatim>\<open>ext2_read_inode\<close> on the kernel's heap, for block sizes of 1024 bytes or a page, whatever the
  disk and the allocators do: when it returns an error, every allocation it made is released and
  no inode is stored; when it succeeds, it leaves exactly three new objects, the inode, the copy of
  the inode on the disk and the private data, and no page.
\<close>

theorem ext2_read_inode_no_leak:
  assumes "kenv_ok (env st)" "\<forall>sb. supers st sbp = Some sb \<longrightarrow> block_size_ok (sb_block_size sb)"
    and "ext2_read_inode (kernel_ops transfer) bdev sbp n st = Ret (ip, st')"
  shows "kenv_ok (env st') \<and> kpages (env st') = kpages (env st) \<and>
    ((\<exists>e < 0. ip = ERR_PTR e) \<and> inodes st' = inodes st \<and> klive (env st') = klive (env st)
     \<or> (\<exists>i raw ii. inodes st' = (inodes st)(ip \<mapsto> i) \<and> distinct [ii, ip, raw] \<and> klive (env st) ip = None
          \<and> klive (env st') = klive (env st) ++ [raw \<mapsto> 128, ip \<mapsto> 56, ii \<mapsto> 48]))"
  using kernel.read_inode_resources[OF assms]
proof (elim disjE exE conjE)
  fix s' e assume "e < 0" "ip = ERR_PTR e" "st' = st\<lparr>env := s'\<rparr>" "kernel.owns (env st) s' [] {}"
  with kernel.owns_done show ?thesis by auto
next
  fix s' i raw ii assume st': "st' = st\<lparr>env := s', inodes := (inodes st)(ip \<mapsto> i)\<rparr>" "ip \<noteq> 0" "raw \<noteq> 0" "ii \<noteq> 0"
    and o: "kernel.owns (env st) s' (obj ii 48 @ obj ip 56 @ obj raw 128) {}"
  from o st'(2-4) have "distinct [ii, ip, raw]" "klive s' = klive (env st) ++ [raw \<mapsto> 128, ip \<mapsto> 56, ii \<mapsto> 48]"
    "kenv_ok s'" "kpages s' = kpages (env st)"
    by (auto simp: obj_def kernel.owns_def kernel.holds_def)
  moreover have "klive (env st) ip = None" using kernel.owns_fresh[OF o, of ip 56] st'(2) by (simp add: obj_def)
  ultimately show ?thesis using st'(1) by auto
qed

definition witness_mounted :: "unit kenv fs" where
  "witness_mounted = \<lparr>env = witness_env, supers = [0x70 \<mapsto> \<lparr>sb_bdev = Ahci_dev [] 512 1000 0, sb_root = 0, sb_block_size = 1024,
     sb_sectors_per_block = 2, sb_info = \<lparr>fs_super = (superblock_at [] 0)\<lparr>inode_struct_size := 128\<rparr>, inodes_per_group = 8,
       block_per_group = 8, block_group_count = 1, bgd_addr = 0, bgd_table = [blockgroup_at [] 0]\<rparr>\<rparr>],
     inodes = Map.empty, dentries = Map.empty, files = Map.empty, vfs_root = 0\<rparr>"

text \<open>A disk that fails: the root inode cannot be read, and nothing is left behind.\<close>

theorem ext2_read_inode_no_leak_witness:
  "\<exists>ip st'. ext2_read_inode (kernel_ops (\<lambda>p lba nr len d. ((- EIO, []), d))) (Ahci_dev [] 512 1000 0) 0x70 2 witness_mounted = Ret (ip, st')
    \<and> klive (env st') = Map.empty \<and> kpages (env st') = {}"
proof -
  define o' where "o' = (kernel_ops (\<lambda>p lba nr len d. ((- EIO, []), d)) :: unit kenv kops)"
  have rd: "bdev_read o' (Ahci_dev [] 512 1000 0) lba nr len s = ((- EIO, []), s)" for lba nr len s by (simp add: o'_def kernel_ops_def)
  obtain b s1 where b: "ext2_alloc_block o' 1024 witness_env = (b, s1)" by force
  obtain raw s2 where raw: "kmalloc_op o' sizeof_ext2_inode s1 = (raw, s2)" by force
  obtain p s3 where p: "kmalloc_op o' sizeof_inode s2 = (p, s3)" by force
  obtain ii s4 where ii: "kmalloc_op o' sizeof_ext2_inode_info s3 = (ii, s4)" by force
  have "\<exists>ip s'. ext2_read_inode o' (Ahci_dev [] 512 1000 0) 0x70 2 witness_mounted = Ret (ip, witness_mounted\<lparr>env := s'\<rparr>)"
    using b raw p ii rd
    by (cases "b = 0 \<or> raw = 0 \<or> p = 0 \<or> ii = 0") (auto simp: ext2_read_inode_def witness_mounted_def deref_def array_get_def Let_def)
  then obtain ip s' where r: "ext2_read_inode (kernel_ops (\<lambda>p lba nr len d. ((- EIO, []), d))) (Ahci_dev [] 512 1000 0) 0x70 2 witness_mounted
      = Ret (ip, witness_mounted\<lparr>env := s'\<rparr>)" unfolding o'_def by blast
  have ok: "kenv_ok (env witness_mounted)" "\<forall>sb. supers witness_mounted 0x70 = Some sb \<longrightarrow> block_size_ok (sb_block_size sb)"
    by (simp_all add: witness_mounted_def witness_env_ok block_size_ok_def)
  have e: "klive (env witness_mounted) = Map.empty" "kpages (env witness_mounted) = {}" "inodes witness_mounted = Map.empty"
    by (simp_all add: witness_mounted_def witness_env_def)
  have "\<not> inodes (witness_mounted\<lparr>env := s'\<rparr>) = (inodes witness_mounted)(ip \<mapsto> i)" for i
    by (simp add: e(3)) (metis fun_upd_same option.distinct(1))
  with ext2_read_inode_no_leak[OF ok r] r e show ?thesis by (metis (no_types, lifting))
qed

end
