(* ===== verification/Vfs_Path.thy ===== *)
theory Vfs_Path
  imports Vfs Fs_Resources
begin

text \<open>
  Resolving paths: the tree of directory entries is a cache. A path that was resolved once is
  resolved again to the same entry, without touching the disk or allocating anything.
\<close>

section \<open>Searching the children of a directory\<close>

lemma find_child_mono: "find_child k ds name cur = Ret c \<Longrightarrow> k \<le> k' \<Longrightarrow> find_child k' ds name cur = Ret c"
proof (induction k arbitrary: k' cur)
  case (Suc k)
  obtain m where m: "k' = Suc m" "k \<le> m" using Suc.prems(2) by (cases k') auto
  show ?case
  proof (cases "cur = 0")
    case False
    then obtain d where d: "deref ds cur = Ret d" using Suc.prems(1) by (auto simp: exec_simps)
    with False Suc.prems(1) Suc.IH[of "next_sibling d" m] m show ?thesis by (auto split: if_splits)
  qed (use Suc.prems m in auto)
qed simp

text \<open>The search only depends on what \<open>same_name\<close> compares.\<close>

lemma find_child_name_cong: "(\<And>x. same_name x a = same_name x b) \<Longrightarrow> find_child k ds a cur = find_child k ds b cur"
proof (induction k arbitrary: cur)
  case (Suc k)
  then show ?case by (cases "deref ds cur") auto
qed simp

lemma find_child_cong:
  assumes "find_child k ds name cur = Ret c"
    and "\<And>x d. ds x = Some d \<Longrightarrow> \<exists>d'. ds' x = Some d' \<and> dname d' = dname d \<and> next_sibling d' = next_sibling d"
  shows "find_child k ds' name cur = Ret c"
  using assms(1)
proof (induction k arbitrary: cur)
  case (Suc k)
  show ?case
  proof (cases "cur = 0")
    case False
    with Suc.prems obtain d where d: "ds cur = Some d" by (auto simp: exec_simps deref_def split: option.splits if_splits)
    obtain d' where "ds' cur = Some d'" "dname d' = dname d" "next_sibling d' = next_sibling d" using assms(2)[OF d] by blast
    with False Suc d show ?thesis by (auto simp: deref_def split: if_splits)
  qed (use Suc.prems in auto)
qed simp

section \<open>Cached steps\<close>

text \<open>Resolving \<open>name\<close> below \<open>p\<close> finds \<open>c\<close> among the children, in at most \<open>k\<close> steps.\<close>

definition cached :: "nat \<Rightarrow> 's fs \<Rightarrow> u64 \<Rightarrow> qstr \<Rightarrow> u64 \<Rightarrow> bool" where
  "cached k st p name c \<longleftrightarrow> p \<noteq> 0 \<and> c \<noteq> 0 \<and> (\<exists>d i. dentries st p = Some d \<and> dinode d \<noteq> 0 \<and> inodes st (dinode d) = Some i \<and> S_ISDIR (imode i)
     \<and> find_child k (dentries st) name (first_child d) = Ret c)"

lemma cached_lookup_direct:
  "cached k st p name c \<Longrightarrow> k \<le> fuel \<Longrightarrow> vfs_lookup_direct ops fuel p name st = Ret (c, st)"
proof -
  assume c: "cached k st p name c" and k: "k \<le> fuel"
  obtain d where d: "p \<noteq> 0" "c \<noteq> 0" "dentries st p = Some d" "find_child k (dentries st) name (first_child d) = Ret c"
    using c by (auto simp: cached_def)
  with find_child_mono[OF d(4) k] show ?thesis by (simp add: vfs_lookup_direct_def deref_def)
qed

text \<open>The name that \<open>d_alloc\<close> stores is the name it was given.\<close>

lemma same_name_stored:
  assumes "unat (qlen q) \<le> length (str q)"
  shows "same_name \<lparr>str_addr = a, str = take (unat (qlen q)) (str q) @ [0], qlen = qlen q, qhash = qhash q\<rparr> name = same_name q name"
  using assms by (auto simp: same_name_def)

lemma same_name_trans: "same_name q name \<Longrightarrow> same_name x q = same_name x name"
  by (auto simp: same_name_def)

lemma cached_mono: "cached k st p name c \<Longrightarrow> k \<le> k' \<Longrightarrow> cached k' st p name c"
  using find_child_mono unfolding cached_def by blast

lemma ERR_PTR_is_err: "IS_ERR (ERR_PTR (- ENOMEM))"
  by (simp add: IS_ERR_def ERR_PTR_def word_le_def)

section \<open>Error numbers\<close>

text \<open>The disk reports errors as negative error numbers; so does everything above it.\<close>

definition disk_errno :: "'s kops \<Rightarrow> bool" where
  "disk_errno ops \<longleftrightarrow> (\<forall>p lba nr len s. - MAX_ERRNO \<le> fst (fst (disk_op ops p lba nr len s)))"

lemma bdev_read_errno: "disk_errno ops \<Longrightarrow> bdev_read ops d lba nr len s = ((status, bytes), s') \<Longrightarrow> - MAX_ERRNO \<le> status"
proof (induction d arbitrary: lba)
  case (Ahci_dev n sz c p)
  then show ?case unfolding disk_errno_def by (metis bdev_read.simps(1) fst_conv)
qed auto

lemma init_singly_errno:
  assumes d: "disk_errno ops" and r: "ext2_init_singly ops ip st = Ret (res, st')"
  shows "- MAX_ERRNO \<le> res"
proof -
  obtain i where i: "deref (inodes st) ip = Ret i" using r by (auto simp: ext2_init_singly_def exec_simps)
  show ?thesis
  proof (cases "singly (i_info i) = None")
    case True
    then obtain sb where sb: "deref (supers st) (isb i) = Ret sb" using r i by (auto simp: ext2_init_singly_def exec_simps)
    obtain a s1 where a: "ext2_alloc_block ops (sb_block_size sb) (env st) = (a, s1)" by force
    obtain status bytes s2 where rd: "bdev_read ops (sb_bdev sb) (ucast (singly_ptr (raw_inode (i_info i)) * sb_sectors_per_block sb))
        (ucast (sb_sectors_per_block sb)) (ucast (sb_block_size sb)) s1 = ((status, bytes), s2)" by (metis prod.exhaust)
    have "res = - ENOMEM \<or> res = status \<or> res = 0"
      using r i True sb a rd by (auto simp: ext2_init_singly_def Let_def split: if_splits)
    with bdev_read_errno[OF d rd] show ?thesis by auto
  qed (use r i in \<open>simp add: ext2_init_singly_def\<close>)
qed

lemma dir_block_addr_errno: "disk_errno ops \<Longrightarrow> dir_block_addr ops dir i st = Ret (Inl e, st') \<Longrightarrow> - MAX_ERRNO \<le> e"
  by (auto simp: dir_block_addr_def exec_simps dest: init_singly_errno split: if_splits option.splits)

lemma search_dir_block_errno: "search_dir_block buf bs name n off = Ret (Inl e) \<Longrightarrow> e = - EUCLEAN"
proof (induction buf bs name n off rule: search_dir_block.induct)
  case (1 buf bs name n off)
  from "1.prems"[unfolded search_dir_block.simps[of buf bs name n off]] "1.IH" show ?case
    by (auto simp: exec_simps split: if_splits)
qed

lemma lookup_blocks_errno:
  "disk_errno ops \<Longrightarrow> lookup_blocks ops sb dir name is st = Ret (Inl e, st') \<Longrightarrow> - MAX_ERRNO \<le> e"
proof (induction "is" arbitrary: st)
  case (Cons i "is")
  obtain a st1 where a: "dir_block_addr ops dir i st = Ret (a, st1)" using Cons.prems(2) by (auto simp: exec_simps)
  show ?case
  proof (cases a)
    case (Inl e')
    with a Cons.prems dir_block_addr_errno show ?thesis by auto
  next
    case (Inr addr)
    then have nz: "addr \<noteq> 0" using a Cons.prems(2) by auto
    obtain res bytes s2 where rd: "bdev_read ops (sb_bdev sb) (ucast (addr * sb_sectors_per_block sb))
        (ucast (sb_sectors_per_block sb)) (ucast (sb_block_size sb)) (env st1) = ((res, bytes), s2)" by (metis prod.exhaust)
    show ?thesis
    proof (cases "res < 0")
      case True
      with a Inr nz rd Cons.prems bdev_read_errno show ?thesis by (auto simp: on_env_def Let_def)
    next
      case False
      obtain f where f: "search_dir_block bytes (unat (sb_block_size sb)) (str name) (ucast (qlen name)) 0 = Ret f"
        using False a Inr nz rd Cons.prems(2) by (auto simp: on_env_def Let_def exec_simps)
      have c: "(case f of Inl err \<Rightarrow> Ret (Inl err, st1\<lparr>env := s2\<rparr>) | Inr (Some off) \<Rightarrow> Ret (Inr (Some (bytes, off)), st1\<lparr>env := s2\<rparr>)
          | Inr None \<Rightarrow> lookup_blocks ops sb dir name is (st1\<lparr>env := s2\<rparr>)) = Ret (Inl e, st')"
        using False a Inr nz rd Cons.prems(2) f by (simp add: on_env_def Let_def)
      show ?thesis
      proof (cases f)
        case (Inl err)
        with c search_dir_block_errno f show ?thesis by fastforce
      next
        case (Inr o')
        with c Cons.IH[OF Cons.prems(1)] show ?thesis by (cases o') auto
      qed
    qed
  qed
qed simp

lemma IS_ERR_PTR_ERR: "IS_ERR p \<Longrightarrow> - MAX_ERRNO \<le> PTR_ERR p"
proof -
  assume "IS_ERR p"
  then have u: "2 ^ 64 - 4095 \<le> uint p" by (simp add: IS_ERR_def word_le_def)
  moreover have l: "uint p < 2 ^ 64" using unsigned_less[of p] by simp
  moreover have "sint p = signed_take_bit 63 (uint p)" by (simp add: sint_uint)
  moreover have "uint p div 2 ^ 63 = 1" using u l by simp
  then have "bit (uint p) 63" by (simp add: bit_iff_odd)
  ultimately show ?thesis by (simp add: PTR_ERR_def signed_take_bit_eq_take_bit_minus take_bit_int_eq_self)
qed

lemma ERR_PTR_is_error:
  assumes "- MAX_ERRNO \<le> e" "e < 0"
  shows "IS_ERR (ERR_PTR e)"
proof -
  have "uint (word_of_int e :: u64) = e mod 2 ^ 64" by (simp add: uint_word_of_int)
  also have "\<dots> = (e + 2 ^ 64) mod 2 ^ 64" by simp
  also have "\<dots> = e + 2 ^ 64" using assms by (intro mod_pos_pos_trivial) auto
  finally show ?thesis using assms by (simp add: IS_ERR_def ERR_PTR_def word_le_def)
qed

lemma ext2_lookup_errno:
  assumes e: "disk_errno ops" and r: "ext2_lookup ops dir child st = Ret (res, st')"
  shows "- MAX_ERRNO \<le> res"
proof -
  obtain d sb where d: "deref (inodes st) dir = Ret d" "deref (supers st) (isb d) = Ret sb"
    using r by (auto simp: ext2_lookup_def exec_simps)
  obtain a s1 where a: "ext2_alloc_block ops (sb_block_size sb) (env st) = (a, s1)" by force
  show ?thesis
  proof (cases "a = 0")
    case True
    with r d a show ?thesis by (simp add: ext2_lookup_def on_env_def Let_def)
  next
    case a0: False
    then obtain c where c: "deref (dentries st) child = Ret c"
      using r d a by (auto simp: ext2_lookup_def on_env_def Let_def exec_simps)
    obtain lr st2 where lb: "lookup_blocks ops sb dir (dname c) [0..<12 + unat (sb_block_size sb) div 4] (st\<lparr>env := s1\<rparr>) = Ret (lr, st2)"
      using r d a a0 c by (auto simp: ext2_lookup_def on_env_def Let_def exec_simps)
    show ?thesis
    proof (cases lr)
      case (Inl err)
      with lookup_blocks_errno[OF e lb[unfolded Inl]] r d a a0 c lb show ?thesis by (simp add: ext2_lookup_def on_env_def Let_def)
    next
      case (Inr o')
      show ?thesis
      proof (cases o')
        case None
        with Inr r d a a0 c lb show ?thesis by (simp add: ext2_lookup_def on_env_def Let_def)
      next
        case (Some bo)
        obtain bytes off where bo: "bo = (bytes, off)" by force
        obtain ip st3 where ri: "ext2_read_inode ops (sb_bdev sb) (isb d) (d_inode (dir_entry_at bytes off)) st2 = Ret (ip, st3)"
          using r d a a0 c lb Inr Some bo by (auto simp: ext2_lookup_def on_env_def Let_def exec_simps)
        have "IS_ERR ip \<and> res = PTR_ERR ip \<or> res = 0"
          using r d a a0 c lb Inr Some bo ri by (auto simp: ext2_lookup_def on_env_def Let_def exec_simps split: if_splits)
        with IS_ERR_PTR_ERR[of ip] show ?thesis by auto
      qed
    qed
  qed
qed

context heap_env
begin

text \<open>A new directory entry is fresh, and nothing else changes.\<close>

lemma d_alloc_success:
  assumes l: "fs_live st" and d: "d_alloc ops parent q st = (child, st1)" "\<not> IS_ERR child"
  shows "child \<noteq> 0" "dentries st child = None" "fs_grows st (st1\<lparr>dentries := dentries st\<rparr>)" "live (env st1) child \<noteq> None" "inodes st1 = inodes st"
    "\<exists>nm. dentries st1 = (dentries st)(child \<mapsto> \<lparr>dname = \<lparr>str_addr = nm, str = take (unat (qlen q)) (str q) @ [0], qlen = qlen q, qhash = qhash q\<rparr>,
       dinode = 0, dparent = parent, first_child = 0, next_sibling = 0, dsb = 0\<rparr>)"
proof -
  have ok: "ok (env st)" using l by (simp add: fs_live_def)
  obtain a s1 where a: "kmalloc_op ops sizeof_dentry (env st) = (a, s1)" by force
  obtain nm s2 where nm: "kmalloc_op ops (ucast (qlen q + 1)) s1 = (nm, s2)" by force
  have nz: "a \<noteq> 0" "nm \<noteq> 0" and c: "child = a"
    and st1: "st1 = st\<lparr>env := s2, dentries := (dentries st)(a \<mapsto> \<lparr>dname = \<lparr>str_addr = nm, str = take (unat (qlen q)) (str q) @ [0], qlen = qlen q, qhash = qhash q\<rparr>,
       dinode = 0, dparent = parent, first_child = 0, next_sibling = 0, dsb = 0\<rparr>)\<rparr>"
    using d a nm ERR_PTR_is_err by (auto simp: d_alloc_def on_env_def Let_def split: if_splits)
  have "unat (ucast (qlen q + 1) :: u64) \<le> 2 ^ 32" by (simp add: less_imp_le less_le_trans[OF unsigned_less[where 'b = 32]])
  from owns_malloc_obj[OF owns_malloc_obj[OF owns_refl[OF ok] _ a] this nm]
  have o: "owns (env st) s2 (obj nm (unat (qlen q + 1)) @ obj a 56) {}" by simp
  have f: "live (env st) a = None" "live s2 a = Some 56" using owns_fresh[OF o, of a 56] nz by (auto simp: obj_def)
  show "child \<noteq> 0" using nz c by simp
  show "dentries st child = None" using f(1) c l by (fastforce simp: fs_live_def)
  show "fs_grows st (st1\<lparr>dentries := dentries st\<rparr>)" using owns_keeps[OF o] by (auto simp: fs_grows_def st1)
  show "live (env st1) child \<noteq> None" "inodes st1 = inodes st" using f(2) c by (simp_all add: st1)
  show "\<exists>nm. dentries st1 = (dentries st)(child \<mapsto> \<lparr>dname = \<lparr>str_addr = nm, str = take (unat (qlen q)) (str q) @ [0], qlen = qlen q, qhash = qhash q\<rparr>,
       dinode = 0, dparent = parent, first_child = 0, next_sibling = 0, dsb = 0\<rparr>)" using c by (auto simp: st1)
qed

text \<open>
  Resolving one component either finds it among the children, or links a fresh entry in front of
  them; in the latter case:
\<close>

lemma lookup_direct_new:
  assumes l: "fs_live st" and e: "disk_errno ops" and p: "p \<noteq> 0" "dentries st p = Some pd" "find_child fuel (dentries st) name (first_child pd) = Ret 0"
    and r: "vfs_lookup_direct ops fuel p name st = Ret (c, st')" "\<not> IS_ERR c"
  shows "c \<noteq> 0 \<and> dentries st c = None \<and> fs_grows st (st'\<lparr>dentries := dentries st\<rparr>) \<and> fs_live st' \<and>
    (\<exists>nm ip sbp. dentries st' = (dentries st)(c \<mapsto> \<lparr>dname = \<lparr>str_addr = nm, str = take (unat (qlen name)) (str name) @ [0], qlen = qlen name,
      qhash = qhash name\<rparr>, dinode = ip, dparent = p, first_child = 0, next_sibling = first_child pd, dsb = sbp\<rparr>, p \<mapsto> pd\<lparr>first_child := c\<rparr>))"
proof -
  obtain child st1 where al: "d_alloc ops p name st = (child, st1)" by force
  have dr: "deref (dentries st) p = Ret pd" using p by (simp add: deref_def)
  have ne: "\<not> IS_ERR child" using r dr p(3) al by (auto simp: vfs_lookup_direct_def split: if_splits)
  note d = d_alloc_success[OF l al ne]
  obtain nm where ds1: "dentries st1 = (dentries st)(child \<mapsto> \<lparr>dname = \<lparr>str_addr = nm, str = take (unat (qlen name)) (str name) @ [0], qlen = qlen name,
      qhash = qhash name\<rparr>, dinode = 0, dparent = p, first_child = 0, next_sibling = 0, dsb = 0\<rparr>)" using d(6) by blast
  have l0: "fs_live (st1\<lparr>dentries := dentries st\<rparr>)" using fs_live_grows[OF l d(3)] by simp
  then have l1: "fs_live st1" using d(4) ds1 by (auto simp: fs_live_def)
  obtain res where look: "ext2_lookup ops (dinode pd) child st1 = Ret (res, st')" "\<not> res < 0" "c = child"
  proof -
    obtain i where i: "deref (inodes st1) (dinode pd) = Ret i" "iops i = Ext2_dir_iops"
      using r dr p(3) al ne by (auto simp: vfs_lookup_direct_def exec_simps split: if_splits)
    obtain res st2 where look: "ext2_lookup ops (dinode pd) child st1 = Ret (res, st2)"
      using r dr p(3) al ne i by (auto simp: vfs_lookup_direct_def exec_simps split: if_splits)
    show thesis
    proof (cases "res < 0")
      case True
      with r dr p(3) al ne i look have "c = ERR_PTR res" by (auto simp: vfs_lookup_direct_def exec_simps)
      with ERR_PTR_is_error[OF ext2_lookup_errno[OF e look] True] r(2) show thesis by blast
    next
      case False
      with r dr p(3) al ne i look have "c = child" "st' = st2" by (auto simp: vfs_lookup_direct_def)
      with False look that show thesis by blast
    qed
  qed
  have pc: "p \<noteq> child" using p(2) d(2) by auto
  have "dentries st1 p = Some pd" using ds1 pc p(2) by simp
  from ext2_lookup_success[OF l1 d(1) _ _ p(1) pc this look(1,2)] ds1
  obtain ip sbp where g: "fs_grows st1 st'" and ds: "dentries st' = (dentries st)(child \<mapsto> \<lparr>dname = \<lparr>str_addr = nm, str = take (unat (qlen name)) (str name) @ [0], qlen = qlen name,
      qhash = qhash name\<rparr>, dinode = ip, dparent = p, first_child = 0, next_sibling = first_child pd, dsb = sbp\<rparr>, p \<mapsto> pd\<lparr>first_child := child\<rparr>)"
    by auto
  have "fs_grows (st1\<lparr>dentries := dentries st\<rparr>) (st'\<lparr>dentries := dentries st\<rparr>)" "fs_grows st1 (st'\<lparr>dentries := dentries st1\<rparr>)"
    using g by (simp_all add: fs_grows_def)
  then have gs: "fs_grows st (st'\<lparr>dentries := dentries st\<rparr>)" and l': "fs_live (st'\<lparr>dentries := dentries st1\<rparr>)"
    using fs_grows_trans[OF d(3)] fs_live_grows[OF l1] by simp_all
  have "dom (dentries st') = dom (dentries st1)" using p(2) by (auto simp: ds ds1)
  with l' have "fs_live st'" by (simp add: fs_live_def)
  with gs d(1,2) ds look(3) show ?thesis by auto
qed

text \<open>One component: it is cached afterwards, and what was cached before still is.\<close>

lemma lookup_direct_step:
  assumes l: "fs_live st" and e: "disk_errno ops" and len: "unat (qlen name) \<le> length (str name)"
    and p: "p \<noteq> 0" "dentries st p = Some pd" "dinode pd \<noteq> 0" "inodes st (dinode pd) = Some i" "S_ISDIR (imode i)"
    and r: "vfs_lookup_direct ops fuel p name st = Ret (c, st')" "\<not> IS_ERR c"
  shows "fs_live st' \<and> keeps (env st) (env st') \<and> vfs_root st' = vfs_root st \<and> cached (Suc fuel) st' p name c
    \<and> (\<forall>k p' nm c'. cached k st p' nm c' \<longrightarrow> cached (Suc k) st' p' nm c')"
proof -
  have dr: "deref (dentries st) p = Ret pd" using p by (simp add: deref_def)
  obtain x where x: "find_child fuel (dentries st) name (first_child pd) = Ret x"
    using r(1) dr by (auto simp: vfs_lookup_direct_def exec_simps)
  show ?thesis
  proof (cases "x = 0")
    case False
    then have "c = x" "st' = st" using r(1) dr x by (simp_all add: vfs_lookup_direct_def)
    moreover have "cached fuel st p name x" using False x p by (auto simp: cached_def)
    moreover have "ok (env st)" using l by (simp add: fs_live_def)
    ultimately show ?thesis using l cached_mono[of _ st _ _ _ "Suc _"] keeps_refl by auto
  next
    case True
    with lookup_direct_new[OF l e p(1,2) _ r] x obtain nm ip sbp where n: "c \<noteq> 0" "dentries st c = None"
        "fs_grows st (st'\<lparr>dentries := dentries st\<rparr>)" "fs_live st'"
      and ds: "dentries st' = (dentries st)(c \<mapsto> \<lparr>dname = \<lparr>str_addr = nm, str = take (unat (qlen name)) (str name) @ [0], qlen = qlen name,
      qhash = qhash name\<rparr>, dinode = ip, dparent = p, first_child = 0, next_sibling = first_child pd, dsb = sbp\<rparr>, p \<mapsto> pd\<lparr>first_child := c\<rparr>)"
      by auto
    have pc: "p \<noteq> c" using p(2) n(2) by auto
    have ino: "\<exists>j. inodes st' q = Some j \<and> imode j = imode i'" if "inodes st q = Some i'" for q i'
    proof -
      have "inodes (st'\<lparr>dentries := dentries st\<rparr>) = inodes st'" by simp
      with n(3) that show ?thesis unfolding fs_grows_def by metis
    qed
    have old: "\<exists>d'. dentries st' y = Some d' \<and> dname d' = dname d \<and> next_sibling d' = next_sibling d" if "dentries st y = Some d" for y d
      using that n(2) p(2) by (auto simp: ds)
    have head: "find_child (Suc k) (dentries st') q c = (if same_name name q then Ret c else find_child k (dentries st') q (first_child pd))" for k q
      using n(1) pc by (simp add: ds deref_def same_name_stored[OF len])
    have dp': "dentries st' p = Some (pd\<lparr>first_child := c\<rparr>)" by (simp add: ds)
    have new: "cached (Suc fuel) st' p name c"
    proof -
      have "find_child (Suc fuel) (dentries st') name c = Ret c" unfolding head by (simp add: same_name_def)
      moreover obtain j where "inodes st' (dinode pd) = Some j" "imode j = imode i" using ino[OF p(4)] by blast
      ultimately show ?thesis using n(1) p dp'
        unfolding cached_def by (intro conjI exI[of _ "pd\<lparr>first_child := c\<rparr>"] exI[of _ j]) (simp_all del: find_child.simps)
    qed
    have "cached (Suc k) st' p' q c'" if cc: "cached k st p' q c'" for k p' q c'
    proof -
      obtain d i' where d: "p' \<noteq> 0" "c' \<noteq> 0" "dentries st p' = Some d" "dinode d \<noteq> 0" "inodes st (dinode d) = Some i'" "S_ISDIR (imode i')"
        "find_child k (dentries st) q (first_child d) = Ret c'" using cc by (auto simp: cached_def)
      have f: "find_child k (dentries st') q (first_child d) = Ret c'" by (rule find_child_cong[OF d(7) old])
      obtain j where j: "inodes st' (dinode d) = Some j" "imode j = imode i'" using ino[OF d(5)] by blast
      show ?thesis
      proof (cases "p' = p")
        case False
        then have "dentries st' p' = Some d" using d(3) n(2) by (auto simp: ds)
        with d j find_child_mono[OF f, of "Suc k"] show ?thesis
          unfolding cached_def by (intro conjI exI[of _ d] exI[of _ j]) (simp_all del: find_child.simps)
      next
        case True
        then have dp: "d = pd" using d(3) p(2) by simp
        have "\<not> same_name name q"
        proof
          assume "same_name name q"
          then have "find_child fuel (dentries st) q (first_child pd) = Ret 0"
            using find_child_name_cong[of name q fuel] same_name_trans x \<open>x = 0\<close> by metis
          with find_child_mono[OF this, of "max fuel k"] find_child_mono[OF d(7), of "max fuel k"] d(2) dp show False by simp
        qed
        then have "find_child (Suc k) (dentries st') q c = Ret c'" unfolding head using f dp by simp
        with True d j dp dp' show ?thesis
          unfolding cached_def by (intro conjI exI[of _ "pd\<lparr>first_child := c\<rparr>"] exI[of _ j]) (simp_all del: find_child.simps)
      qed
    qed
    with new n(3,4) show ?thesis by (auto simp: fs_grows_def)
  qed
qed

text \<open>A whole path.\<close>

lemma lookup_loop_cached:
  assumes e: "disk_errno ops"
  shows "lookup_loop ops fuel cur path st = Ret (d, st') \<Longrightarrow> \<not> IS_ERR d \<Longrightarrow> fs_live st \<Longrightarrow> length path < 2 ^ 32 \<Longrightarrow>
    fs_live st' \<and> keeps (env st) (env st') \<and> vfs_root st' = vfs_root st
    \<and> (\<forall>k p nm c. cached k st p nm c \<longrightarrow> cached (k + length path) st' p nm c)
    \<and> (\<forall>fuel' \<ge> fuel + Suc (length path). lookup_loop ops fuel' cur path st' = Ret (d, st'))"
proof (induction "length path" arbitrary: cur path st rule: less_induct)
  case less
  show ?case
  proof (cases "path = []")
    case True
    then have "st' = st" "d = cur" using less.prems(1) by (simp_all add: lookup_loop.simps)
    with True less.prems keeps_refl show ?thesis by (auto simp: lookup_loop.simps fs_live_def)
  next
    case False
    note run = less.prems(1)[unfolded lookup_loop.simps[of ops fuel cur path st]]
    obtain pd i where pd: "deref (dentries st) cur = Ret pd" "deref (inodes st) (dinode pd) = Ret i"
      using run False by (auto simp: exec_simps)
    have dir: "S_ISDIR (imode i)"
    proof (rule ccontr)
      assume "\<not> ?thesis"
      with run False pd have "d = ERR_PTR (- ENOTDIR)" by simp
      with ERR_PTR_is_error[of "- ENOTDIR"] less.prems(2) show False by simp
    qed
    obtain child st1 where c: "vfs_lookup_direct ops fuel cur (path_token path) st = Ret (child, st1)"
      using run False pd dir by (auto simp: exec_simps)
    have ne: "\<not> IS_ERR child" "lookup_loop ops fuel child (path_rest path) st1 = Ret (d, st')"
      using run False pd dir c less.prems(2) by (auto split: if_splits)
    have len: "unat (qlen (path_token path)) \<le> length (str (path_token path))"
      using length_takeWhile_le[of "\<lambda>c. c \<noteq> slash" path] less.prems(4) by (simp add: path_token_def Let_def unat_of_nat)
    have pd': "cur \<noteq> 0" "dentries st cur = Some pd" "dinode pd \<noteq> 0" "inodes st (dinode pd) = Some i"
      using pd by (auto simp: deref_def split: if_splits option.splits)
    note s1 = lookup_direct_step[OF less.prems(3) e len pd' dir c ne(1)]
    have sh: "length (path_rest path) < length path" using False by (rule path_rest_shorter)
    have IH: "fs_live st'" "keeps (env st1) (env st')" "vfs_root st' = vfs_root st1"
        "\<And>k p nm c. cached k st1 p nm c \<Longrightarrow> cached (k + length (path_rest path)) st' p nm c"
        "\<And>fuel'. fuel + Suc (length (path_rest path)) \<le> fuel' \<Longrightarrow> lookup_loop ops fuel' child (path_rest path) st' = Ret (d, st')"
      using less.hyps[OF sh ne(2) less.prems(2)] s1 sh less.prems(4) by auto
    have cc: "cached (Suc fuel + length (path_rest path)) st' cur (path_token path) child" using IH(4) s1 by blast
    have "lookup_loop ops fuel' cur path st' = Ret (d, st')" if f: "fuel + Suc (length path) \<le> fuel'" for fuel'
    proof -
      have v: "vfs_lookup_direct ops fuel' cur (path_token path) st' = Ret (child, st')"
        using sh f by (intro cached_lookup_direct[OF cc]) simp
      moreover have "lookup_loop ops fuel' child (path_rest path) st' = Ret (d, st')" using sh f by (intro IH(5)) simp
      moreover obtain pd'' i'' where "deref (dentries st') cur = Ret pd''" "deref (inodes st') (dinode pd'') = Ret i''" "S_ISDIR (imode i'')"
        using cc by (auto simp: cached_def deref_def)
      ultimately show ?thesis using False ne(1) by (simp add: lookup_loop.simps[of ops fuel' cur path st'])
    qed
    moreover have "cached (k + length path) st' p nm c" if "cached k st p nm c" for k p nm c
    proof -
      have "cached (Suc k + length (path_rest path)) st' p nm c" using that s1 IH(4) by blast
      then show ?thesis using sh by (rule_tac cached_mono) auto
    qed
    ultimately show ?thesis using IH(1-3) s1 keeps_trans by auto
  qed
qed

end

section \<open>The cache of the kernel\<close>


text \<open>The root directory of a fresh heap, as the entry \<^verbatim>\<open>.\<close> of itself; the path is \<^verbatim>\<open>/./.\<close>.\<close>

definition witness_tree :: "unit kenv \<Rightarrow> unit kenv fs" where
  "witness_tree s = \<lparr>env = s, supers = Map.empty,
     inodes = [0xffff888000001400 \<mapsto> \<lparr>ino = 2, isize = 1024, imode = S_IFDIR, isb = 0x70, iops = Ext2_dir_iops, ifops = Ext2_dir_fops,
       i_info = \<lparr>raw_inode = inode_at [] 0, i_size = 1024, singly = None\<rparr>\<rparr>],
     dentries = [0xffff888000001400 \<mapsto> \<lparr>dname = \<lparr>str_addr = 0, str = [0x2e, 0], qlen = 1, qhash = vfs_hash_name [0x2e, 0] 1\<rparr>,
       dinode = 0xffff888000001400, dparent = 0, first_child = 0xffff888000001400, next_sibling = 0, dsb = 0x70\<rparr>],
     files = Map.empty, vfs_root = 0xffff888000001400\<rparr>"

lemma witness_env_live:
  "\<exists>s. env_kmalloc 1000 witness_env = (0xffff888000001400, s) \<and> kenv_ok s \<and> klive s = [0xffff888000001400 \<mapsto> 1000]"
proof -
  obtain a s where a: "env_kmalloc 1000 witness_env = (a, s)" by force
  have h: "kheap_of witness_env = witness_heap" "klive witness_env = Map.empty" by (simp_all add: witness_env_def witness_heap_def)
  obtain st where k: "kmalloc 5 1000 witness_heap = Ret (0xffff888000001400, st)"
    using witness_address by (cases "kmalloc 5 1000 witness_heap") (auto simp: witness_malloc_def)
  then have "a = 0xffff888000001400" "klive s = [0xffff888000001400 \<mapsto> 1000]"
    using a by (auto simp: env_kmalloc_def h)
  with a env_kmalloc_ok[OF witness_env_ok _ a] show ?thesis by auto
qed


end
