(* ===== verification/Device_Io.thy ===== *)
theory Device_Io
  imports Prelude
begin

text \<open>
  The hardware as the drivers see it: the port instructions of \<^verbatim>\<open>arch/x86_64/special_insns.asm\<close> and
  the memory-mapped registers behind \<^verbatim>\<open>asm/io.h\<close>. The devices themselves are a parameter: a state of
  any type and what an access returns and does to it. Reading a register can change the device, so
  every read returns the next state too.
\<close>

record 'd hw =
  inb_op :: "u16 \<Rightarrow> 'd \<Rightarrow> u8 \<times> 'd"
  outb_op :: "u16 \<Rightarrow> u8 \<Rightarrow> 'd \<Rightarrow> 'd"
  inl_op :: "u16 \<Rightarrow> 'd \<Rightarrow> u32 \<times> 'd"
  outl_op :: "u16 \<Rightarrow> u32 \<Rightarrow> 'd \<Rightarrow> 'd"
  readl_op :: "u64 \<Rightarrow> 'd \<Rightarrow> u32 \<times> 'd"
  writel_op :: "u64 \<Rightarrow> u32 \<Rightarrow> 'd \<Rightarrow> 'd"

text \<open>
  A loop \<^verbatim>\<open>while (c());\<close> that polls a device. The device decides whether it ends: after \<open>fuel\<close>
  tests that were all true the result is \<open>Diverge\<close>.
\<close>

primrec poll :: "nat \<Rightarrow> ('d \<Rightarrow> bool \<times> 'd) \<Rightarrow> 'd \<Rightarrow> 'd exec" where
  "poll 0 c d = Diverge"
| "poll (Suc fuel) c d = (case c d of (b, d') \<Rightarrow> if b then poll fuel c d' else Ret d')"

text \<open>A loop over \<open>xs\<close> that returns the first value its body produces.\<close>

primrec search_loop :: "('a \<Rightarrow> 'd \<Rightarrow> 'b option \<times> 'd) \<Rightarrow> 'a list \<Rightarrow> 'd \<Rightarrow> 'b option \<times> 'd" where
  "search_loop f [] d = (None, d)"
| "search_loop f (x # xs) d = (case f x d of (Some r, d') \<Rightarrow> (Some r, d') | (None, d') \<Rightarrow> search_loop f xs d')"

text \<open>More fuel does not change the result of a loop that ends.\<close>

lemma poll_mono: "poll n c d = Ret d' \<Longrightarrow> n \<le> k \<Longrightarrow> poll k c d = Ret d'"
proof (induction n arbitrary: d k)
  case (Suc n)
  then show ?case by (cases k) (auto split: prod.splits if_splits)
qed simp

text \<open>
  A search whose body depends on the device only through a predicate, and keeps \<open>ok\<close>, is a search
  for the first element that satisfies it; a search over searches is one over the pairs.
\<close>

lemma find_map_pair: "find P (map (Pair x) ys) = map_option (Pair x) (find (\<lambda>y. P (x, y)) ys)"
  by (induction ys) auto

lemma search_loop_find:
  assumes "\<And>x d. ok d \<Longrightarrow> fst (f x d) = (if P x then Some (h x) else None) \<and> ok (snd (f x d))" and "ok d"
  shows "fst (search_loop f xs d) = map_option h (find P xs) \<and> ok (snd (search_loop f xs d))"
  using assms(2)
proof (induction xs arbitrary: d)
  case (Cons x xs)
  obtain r d' where fx: "f x d = (r, d')" by force
  with assms(1)[OF Cons.prems, of x] have "r = (if P x then Some (h x) else None)" "ok d'" by auto
  with fx Cons.IH show ?case by auto
qed simp

lemma search_loop_product:
  assumes "\<And>x d. ok d \<Longrightarrow> fst (f x d) = map_option (h x) (find (\<lambda>y. P (x, y)) ys) \<and> ok (snd (f x d))" and "ok d"
  shows "fst (search_loop f xs d) = map_option (\<lambda>(x, y). h x y) (find P (List.product xs ys))
    \<and> ok (snd (search_loop f xs d))"
  using assms(2)
proof (induction xs arbitrary: d)
  case (Cons x xs)
  obtain r d' where fx: "f x d = (r, d')" by force
  with assms(1)[OF Cons.prems, of x] have "r = map_option (h x) (find (\<lambda>y. P (x, y)) ys)" "ok d'" by auto
  with fx Cons.IH[of d'] show ?case
    by (cases "find (\<lambda>y. P (x, y)) ys") (auto simp: find_append find_map_pair)
qed simp

end
