(* ===== verification/Pci.thy ===== *)
theory Pci
  imports Device_Io
begin

text \<open>
  PCI configuration space, \<^verbatim>\<open>arch/x86_64/pci.c\<close> and \<^verbatim>\<open>drivers/pci/pci.c\<close>: the address of a register, and
  the search for a device by its class.
\<close>

record pci_device =
  pci_bus :: u8
  pci_dev :: u8
  pci_func :: u8
  found :: bool

abbreviation CONFIG_ADDR_PORT :: u16 where "CONFIG_ADDR_PORT \<equiv> 0xCF8"
abbreviation CONFIG_DATA_PORT :: u16 where "CONFIG_DATA_PORT \<equiv> 0xCFC"
abbreviation PCI_MAX_BUS :: nat where "PCI_MAX_BUS \<equiv> 255"
abbreviation PCI_MAX_DEV :: nat where "PCI_MAX_DEV \<equiv> 31"
abbreviation PCI_MAX_FUNC :: nat where "PCI_MAX_FUNC \<equiv> 7"

definition config_addr :: "u8 \<Rightarrow> u8 \<Rightarrow> u8 \<Rightarrow> u8 \<Rightarrow> u32" where
  "config_addr bus dev func offset =
     push_bit 16 (ucast bus) OR push_bit 11 (ucast dev) OR push_bit 8 (ucast func) OR (ucast offset AND 0xFC) OR 0x80000000"

definition arch_pci_read_dword :: "'d hw \<Rightarrow> u8 \<Rightarrow> u8 \<Rightarrow> u8 \<Rightarrow> u8 \<Rightarrow> 'd \<Rightarrow> u32 \<times> 'd" where
  "arch_pci_read_dword hw bus dev func offset d =
     inl_op hw CONFIG_DATA_PORT (outl_op hw CONFIG_ADDR_PORT (config_addr bus dev func offset) d)"

definition arch_pci_write_dword :: "'d hw \<Rightarrow> u8 \<Rightarrow> u8 \<Rightarrow> u8 \<Rightarrow> u8 \<Rightarrow> u32 \<Rightarrow> 'd \<Rightarrow> 'd" where
  "arch_pci_write_dword hw bus dev func offset val d =
     outl_op hw CONFIG_DATA_PORT val (outl_op hw CONFIG_ADDR_PORT (config_addr bus dev func offset) d)"

text \<open>The body of the three loops, for the function \<open>func\<close> of the device \<open>dev\<close> on the bus \<open>bus\<close>.\<close>

definition probe_function ::
    "'d hw \<Rightarrow> u8 \<Rightarrow> u8 \<Rightarrow> pci_device \<Rightarrow> nat \<Rightarrow> nat \<Rightarrow> nat \<Rightarrow> 'd \<Rightarrow> pci_device option \<times> 'd" where
  "probe_function hw target_class target_subclass res bus dev func d =
     (let (vendor, d1) = arch_pci_read_dword hw (of_nat bus) (of_nat dev) (of_nat func) 0 d in
      if vendor AND 0xFFFF \<noteq> 0xFFFF
      then
        let (class_info, d2) = arch_pci_read_dword hw (of_nat bus) (of_nat dev) (of_nat func) 8 d1 in
        if ucast (drop_bit 24 class_info) = target_class \<and> ucast (drop_bit 16 class_info) = target_subclass
        then (Some (res\<lparr>pci_bus := of_nat bus, pci_dev := of_nat dev, pci_func := of_nat func, found := True\<rparr>), d2)
        else (None, d2)
      else (None, d1))"

text \<open>\<open>junk\<close> is the uninitialised local \<^verbatim>\<open>res\<close>.\<close>

definition pci_get_by_class :: "'d hw \<Rightarrow> pci_device \<Rightarrow> u8 \<Rightarrow> u8 \<Rightarrow> 'd \<Rightarrow> pci_device \<times> 'd" where
  "pci_get_by_class hw junk target_class target_subclass d =
     (let res = junk\<lparr>found := False\<rparr>;
          (r, d') = search_loop (\<lambda>bus. search_loop (\<lambda>dev. search_loop (\<lambda>func.
                      probe_function hw target_class target_subclass res bus dev func)
                      [0..<PCI_MAX_FUNC + 1]) [0..<PCI_MAX_DEV + 1]) [0..<PCI_MAX_BUS + 1] d
      in (case r of Some dev \<Rightarrow> dev | None \<Rightarrow> res, d'))"

definition pci_read_dword :: "'d hw \<Rightarrow> pci_device \<Rightarrow> u8 \<Rightarrow> 'd \<Rightarrow> u32 \<times> 'd" where
  "pci_read_dword hw pd offset d = arch_pci_read_dword hw (pci_bus pd) (pci_dev pd) (pci_func pd) offset d"

definition pci_write_dword :: "'d hw \<Rightarrow> pci_device \<Rightarrow> u8 \<Rightarrow> u32 \<Rightarrow> 'd \<Rightarrow> 'd" where
  "pci_write_dword hw pd offset val d = arch_pci_write_dword hw (pci_bus pd) (pci_dev pd) (pci_func pd) offset val d"

section \<open>The search finds the first match\<close>

text \<open>
  What the code relies on: with the address of a register latched, the data port reads the register,
  and reading the configuration does not change it. \<open>cfg\<close> is the configuration by address.
\<close>

definition config_space :: "'d hw \<Rightarrow> (u32 \<Rightarrow> u32) \<Rightarrow> ('d \<Rightarrow> bool) \<Rightarrow> bool" where
  "config_space hw cfg ok \<longleftrightarrow>
     (\<forall>a d. ok d \<longrightarrow> (case inl_op hw CONFIG_DATA_PORT (outl_op hw CONFIG_ADDR_PORT a d) of (v, d') \<Rightarrow> v = cfg a \<and> ok d'))"

definition pci_matches :: "(u32 \<Rightarrow> u32) \<Rightarrow> u8 \<Rightarrow> u8 \<Rightarrow> nat \<times> nat \<times> nat \<Rightarrow> bool" where
  "pci_matches cfg c sc = (\<lambda>(bus, dev, func).
     let reg = (\<lambda>off. cfg (config_addr (of_nat bus) (of_nat dev) (of_nat func) off))
     in take_bit 16 (reg 0) \<noteq> 0xFFFF \<and> ucast (drop_bit 24 (reg 8)) = c \<and> ucast (drop_bit 16 (reg 8)) = sc)"

definition pci_functions :: "(nat \<times> nat \<times> nat) list" where
  "pci_functions = List.product [0..<256] (List.product [0..<32] [0..<8])"

lemma config_read:
  assumes "config_space hw cfg ok" "ok d"
  shows "fst (arch_pci_read_dword hw bus dev func off d) = cfg (config_addr bus dev func off)
    \<and> ok (snd (arch_pci_read_dword hw bus dev func off d))"
  using assms by (auto simp: config_space_def arch_pci_read_dword_def case_prod_beta)

lemma probe_function_pure:
  assumes "config_space hw cfg ok" "ok d"
  shows "fst (probe_function hw c sc res bus dev func d) =
      (if pci_matches cfg c sc (bus, dev, func)
       then Some (res\<lparr>pci_bus := of_nat bus, pci_dev := of_nat dev, pci_func := of_nat func, found := True\<rparr>) else None)
    \<and> ok (snd (probe_function hw c sc res bus dev func d))"
proof -
  have m: "x AND 0xFFFF = take_bit 16 x" for x :: u32 by (simp add: take_bit_eq_mask mask_eq_exp_minus_1)
  obtain v d1 where r1: "arch_pci_read_dword hw (of_nat bus) (of_nat dev) (of_nat func) 0 d = (v, d1)" by force
  obtain k d2 where r2: "arch_pci_read_dword hw (of_nat bus) (of_nat dev) (of_nat func) 8 d1 = (k, d2)" by force
  from config_read[OF assms, of "of_nat bus" "of_nat dev" "of_nat func" 0] r1
  have v: "v = cfg (config_addr (of_nat bus) (of_nat dev) (of_nat func) 0)" "ok d1" by auto
  from config_read[OF assms(1) v(2), of "of_nat bus" "of_nat dev" "of_nat func" 8] r2
  have "k = cfg (config_addr (of_nat bus) (of_nat dev) (of_nat func) 8)" "ok d2" by auto
  with v r1 r2 show ?thesis by (auto simp: probe_function_def pci_matches_def m)
qed

text \<open>
  C28. \<^verbatim>\<open>pci_get_by_class\<close> returns the first function, by bus, device and function number, that is
  present and has the class and subclass; \<^verbatim>\<open>found\<close> is false exactly when there is none. The
  configuration space keeps its contents.
\<close>

theorem pci_get_by_class_first:
  assumes "config_space hw cfg ok" "ok d" "pci_get_by_class hw junk c sc d = (res, d')"
  shows "ok d' \<and> (case find (pci_matches cfg c sc) pci_functions of
      None \<Rightarrow> \<not> found res
    | Some (bus, dev, func) \<Rightarrow> found res \<and> pci_bus res = of_nat bus \<and> pci_dev res = of_nat dev \<and> pci_func res = of_nat func)"
proof -
  let ?res = "\<lambda>bus dev func. junk\<lparr>pci_bus := of_nat bus, pci_dev := of_nat dev, pci_func := of_nat func, found := True\<rparr>"
  let ?f = "\<lambda>bus dev. search_loop (probe_function hw c sc (junk\<lparr>found := False\<rparr>) bus dev) [0..<8]"
  have 1: "fst (?f bus dev d) = map_option (?res bus dev) (find (\<lambda>f. pci_matches cfg c sc (bus, dev, f)) [0..<8])
      \<and> ok (snd (?f bus dev d))" if "ok d" for bus dev d
    by (rule search_loop_find) (use probe_function_pure[OF assms(1)] that in auto)
  have 2: "fst (search_loop (?f bus) [0..<32] d) = map_option (\<lambda>(dev, func). ?res bus dev func)
        (find (\<lambda>df. pci_matches cfg c sc (bus, df)) (List.product [0..<32] [0..<8]))
      \<and> ok (snd (search_loop (?f bus) [0..<32] d))" if "ok d" for bus d
    by (rule search_loop_product[of ok]) (use 1 that in \<open>simp_all del: upt_rec_numeral\<close>)
  have 3: "fst (search_loop (\<lambda>bus. search_loop (?f bus) [0..<32]) [0..<256] d) =
        map_option (\<lambda>(bus, dev, func). ?res bus dev func) (find (pci_matches cfg c sc) pci_functions)
      \<and> ok (snd (search_loop (\<lambda>bus. search_loop (?f bus) [0..<32]) [0..<256] d))"
    unfolding pci_functions_def by (rule search_loop_product[of ok]) (use 2 assms(2) in \<open>simp_all del: upt_rec_numeral\<close>)
  obtain r d2 where l: "search_loop (\<lambda>bus. search_loop (?f bus) [0..<32]) [0..<256] d = (r, d2)" by force
  then have "d' = d2" "res = (case r of Some dev \<Rightarrow> dev | None \<Rightarrow> junk\<lparr>found := False\<rparr>)"
    using assms(3) by (auto simp: pci_get_by_class_def simp del: upt_rec_numeral)
  with 3 l show ?thesis by (auto split: option.splits simp del: upt_rec_numeral)
qed

text \<open>A machine with one disk controller, function 1 of device 2 on bus 0.\<close>

definition witness_pci :: "u32 hw" where
  "witness_pci = \<lparr>inb_op = (\<lambda>p d. (0, d)), outb_op = (\<lambda>p v d. d),
     inl_op = (\<lambda>p d. (if d = config_addr 0 2 1 0 then 0x29228086 else if d = config_addr 0 2 1 8 then 0x01060102
       else 0xFFFFFFFF, d)),
     outl_op = (\<lambda>p v d. if p = CONFIG_ADDR_PORT then v else d), readl_op = (\<lambda>a d. (0, d)), writel_op = (\<lambda>a v d. d)\<rparr>"

lemma witness_pci_space:
  "config_space witness_pci (\<lambda>a. if a = config_addr 0 2 1 0 then 0x29228086
     else if a = config_addr 0 2 1 8 then 0x01060102 else 0xFFFFFFFF) (\<lambda>d. True)"
  by (simp add: config_space_def witness_pci_def)

theorem pci_get_by_class_first_witness:
  "\<exists>res d'. pci_get_by_class witness_pci \<lparr>pci_bus = 0, pci_dev = 0, pci_func = 0, found = False\<rparr> 1 6 0 = (res, d')
     \<and> found res \<and> pci_bus res = 0 \<and> pci_dev res = 2 \<and> pci_func res = 1"
proof -
  let ?cfg = "\<lambda>a. if a = config_addr 0 2 1 0 then 0x29228086 :: u32 else if a = config_addr 0 2 1 8 then 0x01060102 else 0xFFFFFFFF"
  obtain res d' where r: "pci_get_by_class witness_pci \<lparr>pci_bus = 0, pci_dev = 0, pci_func = 0, found = False\<rparr> 1 6 0 = (res, d')"
    by force
  have "find (\<lambda>df. pci_matches ?cfg 1 6 (0, df)) (List.product [0..<32] [0..<8]) = Some (2, 1)" by code_simp
  then have "find (pci_matches ?cfg 1 6) pci_functions = Some (0, 2, 1)"
    unfolding pci_functions_def upt_conv_Cons[of 0 256, simplified]
    by (simp add: find_append find_map_pair del: upt_rec_numeral)
  with pci_get_by_class_first[OF witness_pci_space _ r] r show ?thesis by simp
qed

end
