(* ===== verification/Ahci.thy ===== *)
theory Ahci
  imports Pci Blockdev
begin

text \<open>
  The disk controller driver, \<^verbatim>\<open>drivers/ahci/ahci.c\<close>. Registers are accesses of the hardware interface at
  the offsets of \<^verbatim>\<open>struct hba_port\<close> and \<^verbatim>\<open>struct hba_mem\<close>. Command lists and command tables live in the
  kernel's memory, where the controller reads them when a command is issued; they are kept in
  stores by virtual address. \<open>fuel\<close> bounds each of the loops that wait for the controller without a limit.
\<close>

section \<open>Structures (include/drivers/ahci.h)\<close>

abbreviation AHCI_CLASS :: u8 where "AHCI_CLASS \<equiv> 0x01"
abbreviation AHCI_SUB_CLASS :: u8 where "AHCI_SUB_CLASS \<equiv> 0x06"
abbreviation AHCI_ENABLE_BIT :: u32 where "AHCI_ENABLE_BIT \<equiv> 0x80000000"
abbreviation AHCI_DEV_SATA :: u32 where "AHCI_DEV_SATA \<equiv> 0x00000101"
abbreviation AHCI_HBA_PORT_DET_PRESENT :: u32 where "AHCI_HBA_PORT_DET_PRESENT \<equiv> 3"
abbreviation AHCI_HBA_PORT_IPM_ACTIVE :: u32 where "AHCI_HBA_PORT_IPM_ACTIVE \<equiv> 1"
abbreviation AHCI_HBA_PORT_CMD_ST_BIT :: u32 where "AHCI_HBA_PORT_CMD_ST_BIT \<equiv> 0x01"
abbreviation AHCI_HBA_PORT_CMD_FRE_BIT :: u32 where "AHCI_HBA_PORT_CMD_FRE_BIT \<equiv> 0x10"
abbreviation AHCI_HBA_PORT_CMD_FR_BIT :: u32 where "AHCI_HBA_PORT_CMD_FR_BIT \<equiv> 0x4000"
abbreviation AHCI_HBA_PORT_CMD_CR_BIT :: u32 where "AHCI_HBA_PORT_CMD_CR_BIT \<equiv> 0x8000"
abbreviation AHCI_HBA_PORT_IS_TFES_BIT :: u32 where "AHCI_HBA_PORT_IS_TFES_BIT \<equiv> 0x40000000"
abbreviation AHCI_HBA_PORT_TFD_BSY_BIT :: u32 where "AHCI_HBA_PORT_TFD_BSY_BIT \<equiv> 0x80"
abbreviation AHCI_HBA_PORT_TFD_DRQ_BIT :: u32 where "AHCI_HBA_PORT_TFD_DRQ_BIT \<equiv> 0x08"
abbreviation AHCI_COMMAND_LIST_MAX_COUNT :: nat where "AHCI_COMMAND_LIST_MAX_COUNT \<equiv> 32"
abbreviation AHCI_PHYSICAL_REGION_MAX_LENGTH :: u64 where "AHCI_PHYSICAL_REGION_MAX_LENGTH \<equiv> 0x400000"
abbreviation AHCI_ATA_CMD_READ_DMA_EXT :: u8 where "AHCI_ATA_CMD_READ_DMA_EXT \<equiv> 0x25"
abbreviation AHCI_ATA_CMD_IDENTIFY :: u8 where "AHCI_ATA_CMD_IDENTIFY \<equiv> 0xEC"
abbreviation AHCI_CMDFIS_DEVICE_LBA_MODE :: u8 where "AHCI_CMDFIS_DEVICE_LBA_MODE \<equiv> 0x40"
abbreviation FIS_TYPE_REG_H2D :: u8 where "FIS_TYPE_REG_H2D \<equiv> 0x27"

text \<open>The registers of a port by their offsets; a port takes 0x80 bytes, the first is at 0x100.\<close>

datatype hba_port = P_clb | P_clbu | P_fb | P_fbu | P_is | P_ie | P_cmd | P_tfd | P_sig | P_ssts | P_sctl | P_serr | P_sact
  | P_ci | P_sntf | P_fbs

fun port_offset :: "hba_port \<Rightarrow> u64" where
  "port_offset P_clb = 0x00"
| "port_offset P_clbu = 0x04"
| "port_offset P_fb = 0x08"
| "port_offset P_fbu = 0x0C"
| "port_offset P_is = 0x10"
| "port_offset P_ie = 0x14"
| "port_offset P_cmd = 0x18"
| "port_offset P_tfd = 0x20"
| "port_offset P_sig = 0x24"
| "port_offset P_ssts = 0x28"
| "port_offset P_sctl = 0x2C"
| "port_offset P_serr = 0x30"
| "port_offset P_sact = 0x34"
| "port_offset P_ci = 0x38"
| "port_offset P_sntf = 0x3C"
| "port_offset P_fbs = 0x40"

definition port_read :: "'d hw \<Rightarrow> u64 \<Rightarrow> hba_port \<Rightarrow> 'd \<Rightarrow> u32 \<times> 'd" where
  "port_read hw p r d = readl_op hw (p + port_offset r) d"

definition port_write :: "'d hw \<Rightarrow> u64 \<Rightarrow> hba_port \<Rightarrow> u32 \<Rightarrow> 'd \<Rightarrow> 'd" where
  "port_write hw p r v d = writel_op hw (p + port_offset r) v d"

text \<open>\<^verbatim>\<open>&hba->ports[i]\<close>, and the global registers \<^verbatim>\<open>ghc\<close> and \<^verbatim>\<open>pi\<close>.\<close>

definition hba_ports :: "u64 \<Rightarrow> nat \<Rightarrow> u64" where "hba_ports hba i = hba + 0x100 + 0x80 * of_nat i"
abbreviation HBA_GHC :: u64 where "HBA_GHC \<equiv> 0x04"
abbreviation HBA_PI :: u64 where "HBA_PI \<equiv> 0x0C"

record fis_h2d =
  fis_type :: u8
  fis_pmport :: u8
  fis_c :: bool
  fis_command :: u8
  featurel :: u8
  lba0 :: u8
  lba1 :: u8
  lba2 :: u8
  device :: u8
  lba3 :: u8
  lba4 :: u8
  lba5 :: u8
  featureh :: u8
  countl :: u8
  counth :: u8
  iccl :: u8
  control :: u8

definition zero_fis :: fis_h2d where
  "zero_fis = \<lparr>fis_type = 0, fis_pmport = 0, fis_c = False, fis_command = 0, featurel = 0, lba0 = 0, lba1 = 0, lba2 = 0,
     device = 0, lba3 = 0, lba4 = 0, lba5 = 0, featureh = 0, countl = 0, counth = 0, iccl = 0, control = 0\<rparr>"

text \<open>The packed structure as the controller reads it.\<close>

definition fis_bytes :: "fis_h2d \<Rightarrow> u8 list" where
  "fis_bytes f = [fis_type f, (fis_pmport f AND 0x0F) OR (if fis_c f then 0x80 else 0), fis_command f, featurel f,
     lba0 f, lba1 f, lba2 f, device f, lba3 f, lba4 f, lba5 f, featureh f, countl f, counth f, iccl f, control f, 0, 0, 0, 0]"

record hba_cmd_header =
  cfl :: u8
  atapi :: bool
  w :: bool
  prefetchable :: bool
  hdr_reset :: bool
  bist :: bool
  clear_busy :: bool
  pmp :: u8
  prdtl :: u16
  prdbc :: u32
  ctba :: u32
  ctbau :: u32

definition zero_header :: hba_cmd_header where
  "zero_header = \<lparr>cfl = 0, atapi = False, w = False, prefetchable = False, hdr_reset = False, bist = False, clear_busy = False,
     pmp = 0, prdtl = 0, prdbc = 0, ctba = 0, ctbau = 0\<rparr>"

text \<open>\<open>dbc\<close> is a field of 22 bits.\<close>

record hba_prdt_entry =
  dba :: u32
  dbau :: u32
  dbc :: u32
  prdt_i :: bool

definition zero_prdt :: hba_prdt_entry where
  "zero_prdt = \<lparr>dba = 0, dbau = 0, dbc = 0, prdt_i = False\<rparr>"

text \<open>The command FIS is the first part of \<^verbatim>\<open>cfis\<close>; a table fills a page, which leaves room for 248 entries.\<close>

record hba_cmd_table =
  cfis :: fis_h2d
  acmd :: "u8 list"
  prdt_entry :: "hba_prdt_entry list"

abbreviation max_prdt_entries :: u16 where "max_prdt_entries \<equiv> 248"

definition zero_table :: hba_cmd_table where
  "zero_table = \<lparr>cfis = zero_fis, acmd = replicate 16 0, prdt_entry = replicate (unat max_prdt_entries) zero_prdt\<rparr>"

record phys_iovec =
  iov_addr :: u64
  iov_length :: u64

record ('s, 'd) ahci =
  aenv :: 's
  adev :: 'd
  cmd_lists :: "u64 \<Rightarrow> hba_cmd_header list option"
  cmd_tables :: "u64 \<Rightarrow> hba_cmd_table option"

section \<open>Ports\<close>

definition ahci_get_cmd_list :: "'d hw \<Rightarrow> u64 \<Rightarrow> 'd \<Rightarrow> u64 \<times> 'd" where
  "ahci_get_cmd_list hw prt d =
     (let (clbl, d1) = port_read hw prt P_clb d;
          (clbu, d2) = port_read hw prt P_clbu d1;
          cmd_list_phys = ucast clbl OR push_bit 32 (ucast clbu)
      in (if cmd_list_phys = 0 then 0 else PHYS_TO_VIRT cmd_list_phys, d2))"

definition ahci_get_cmdtbl :: "hba_cmd_header \<Rightarrow> u64" where
  "ahci_get_cmdtbl header =
     (let cmdtbl_phys = ucast (ctba header) OR push_bit 32 (ucast (ctbau header))
      in if cmdtbl_phys = 0 then 0 else PHYS_TO_VIRT cmdtbl_phys)"

definition ahci_set_cmdtbl :: "hba_cmd_header \<Rightarrow> u64 \<Rightarrow> hba_cmd_header" where
  "ahci_set_cmdtbl header phys = header\<lparr>ctba := ucast phys, ctbau := ucast (drop_bit 32 phys)\<rparr>"

text \<open>\<^verbatim>\<open>while (readl_relaxed(&port->cmd) & bit);\<close>\<close>

definition cmd_bit_set :: "'d hw \<Rightarrow> u64 \<Rightarrow> u32 \<Rightarrow> 'd \<Rightarrow> bool \<times> 'd" where
  "cmd_bit_set hw prt b d = (case port_read hw prt P_cmd d of (v, d') \<Rightarrow> (v AND b \<noteq> 0, d'))"

definition stop_port :: "'d hw \<Rightarrow> nat \<Rightarrow> u64 \<Rightarrow> 'd \<Rightarrow> 'd exec" where
  "stop_port hw fuel prt d =
     (let (cmd, d1) = port_read hw prt P_cmd d;
          cmd' = cmd AND NOT AHCI_HBA_PORT_CMD_ST_BIT AND NOT AHCI_HBA_PORT_CMD_FRE_BIT;
          d2 = port_write hw prt P_cmd cmd' d1
      in exec_bind (poll fuel (cmd_bit_set hw prt AHCI_HBA_PORT_CMD_FR_BIT) d2)
           (poll fuel (cmd_bit_set hw prt AHCI_HBA_PORT_CMD_CR_BIT)))"

definition start_port :: "'d hw \<Rightarrow> nat \<Rightarrow> u64 \<Rightarrow> 'd \<Rightarrow> 'd exec" where
  "start_port hw fuel prt d =
     exec_bind (poll fuel (cmd_bit_set hw prt AHCI_HBA_PORT_CMD_CR_BIT) d) (\<lambda>d1.
       let (cmd, d2) = port_read hw prt P_cmd d1
       in Ret (port_write hw prt P_cmd (cmd OR (AHCI_HBA_PORT_CMD_FRE_BIT OR AHCI_HBA_PORT_CMD_ST_BIT)) d2))"

abbreviation sizeof_cmd_list :: u64 where "sizeof_cmd_list \<equiv> 32 * 32"
abbreviation sizeof_hba_fis :: u64 where "sizeof_hba_fis \<equiv> 232"

definition ahci_init_port ::
    "'d hw \<Rightarrow> 's kops \<Rightarrow> nat \<Rightarrow> u64 \<Rightarrow> ('s, 'd) ahci \<Rightarrow> (int \<times> ('s, 'd) ahci) exec" where
  "ahci_init_port hw ops fuel prt st =
     (let d1 = port_write hw prt P_is 0xFFFFFFFF (port_write hw prt P_serr 0xFFFFFFFF (port_write hw prt P_ie 0 (adev st)))
      in exec_bind (stop_port hw fuel prt d1) (\<lambda>d2.
           let (cmd_list, s1) = kmalloc_op ops sizeof_cmd_list (aenv st) in
           if cmd_list = 0 then Ret (- ENOMEM, st\<lparr>aenv := s1, adev := d2\<rparr>)
           else
             let lists = (cmd_lists st)(cmd_list \<mapsto> replicate AHCI_COMMAND_LIST_MAX_COUNT zero_header);
                 (fis, s2) = kmalloc_op ops sizeof_hba_fis s1 in
             if fis = 0 then Ret (- ENOMEM, st\<lparr>aenv := s2, adev := d2, cmd_lists := lists\<rparr>)
             else
               let clp = VIRT_TO_PHYS cmd_list;
                   fp = VIRT_TO_PHYS fis;
                   d3 = port_write hw prt P_fbu (ucast (drop_bit 32 fp)) (port_write hw prt P_fb (ucast fp)
                         (port_write hw prt P_clbu (ucast (drop_bit 32 clp)) (port_write hw prt P_clb (ucast clp) d2)))
               in exec_bind (start_port hw fuel prt d3) (\<lambda>d4.
                    Ret (0, st\<lparr>aenv := s2, adev := d4, cmd_lists := lists\<rparr>))))"

section \<open>Commands\<close>

text \<open>\<^verbatim>\<open>chunck_size\<close>: a region covers at most 4 MiB.\<close>

definition chunck_size :: "u64 \<Rightarrow> u32" where
  "chunck_size bytes_left =
     (if bytes_left > AHCI_PHYSICAL_REGION_MAX_LENGTH then ucast AHCI_PHYSICAL_REGION_MAX_LENGTH else ucast bytes_left)"

lemma unat_chunck_size: "unat (chunck_size n) = min (unat n) 4194304"
  unfolding chunck_size_def by (cases "n > AHCI_PHYSICAL_REGION_MAX_LENGTH")
    (auto simp: word_less_nat_alt not_less unat_ucast_u32)

lemma unat_chunck_rest: "unat (n - ucast (chunck_size n)) = unat n - 4194304"
  by (subst unat_sub) (auto simp: word_le_nat_alt unat_chunck_size)

text \<open>
  The inner loop of \<^verbatim>\<open>ahci_build_prdt\<close>, for one element of the vector: chunks of at most 4 MiB. The result
  is the next index, or \<open>None\<close> when there are no entries left.
\<close>

function prdt_chunks ::
    "u16 \<Rightarrow> u64 \<Rightarrow> u64 \<Rightarrow> u16 \<Rightarrow> hba_prdt_entry list \<Rightarrow> (u16 option \<times> hba_prdt_entry list) exec" where
  "prdt_chunks max_entries addr bytes_left index es =
     (if bytes_left = 0 then Ret (Some index, es)
      else if index \<ge> max_entries then Ret (None, es)
      else
        exec_bind (array_get es (unat index)) (\<lambda>e.
           exec_bind (array_set es (unat index) (e\<lparr>dba := ucast addr, dbau := ucast (drop_bit 32 addr),
             dbc := take_bit 22 (chunck_size bytes_left - 1)\<rparr>)) (\<lambda>es'.
           prdt_chunks max_entries (addr + ucast (chunck_size bytes_left)) (bytes_left - ucast (chunck_size bytes_left)) (index + 1) es')))"
  by pat_completeness auto
termination
  by (relation "measure (\<lambda>(m, a, b, i, e). unat b)") (auto simp: unat_chunck_rest unat_gt_0)

declare prdt_chunks.simps [simp del]

fun prdt_vectors ::
    "u16 \<Rightarrow> phys_iovec list \<Rightarrow> u16 \<Rightarrow> hba_prdt_entry list \<Rightarrow> (int \<times> hba_prdt_entry list) exec" where
  "prdt_vectors max_entries [] index es = Ret (uint index, es)"
| "prdt_vectors max_entries (v # vs) index es =
     exec_bind (prdt_chunks max_entries (iov_addr v) (iov_length v) index es) (\<lambda>(r, es').
       case r of None \<Rightarrow> Ret (- ENOMEM, es') | Some index' \<Rightarrow> prdt_vectors max_entries vs index' es')"

definition ahci_build_prdt :: "hba_cmd_table \<Rightarrow> u16 \<Rightarrow> phys_iovec list \<Rightarrow> (int \<times> hba_cmd_table) exec" where
  "ahci_build_prdt cmdtbl max_entries iovec =
     exec_bind (prdt_vectors max_entries iovec 0 (prdt_entry cmdtbl)) (\<lambda>(r, es). Ret (r, cmdtbl\<lparr>prdt_entry := es\<rparr>))"

definition ahci_cmdtbl_build_fis :: "hba_cmd_table \<Rightarrow> u64 \<Rightarrow> u16 \<Rightarrow> u8 \<Rightarrow> u8 \<Rightarrow> hba_cmd_table" where
  "ahci_cmdtbl_build_fis cmdtbl lba cnt cmd dev = cmdtbl\<lparr>cfis := (cfis cmdtbl)
     \<lparr>fis_type := FIS_TYPE_REG_H2D, fis_c := True, fis_command := cmd,
      lba0 := ucast lba, lba1 := ucast (drop_bit 8 lba), lba2 := ucast (drop_bit 16 lba),
      lba3 := ucast (drop_bit 24 lba), lba4 := ucast (drop_bit 32 lba), lba5 := ucast (drop_bit 40 lba),
      device := dev, countl := ucast cnt, counth := ucast (drop_bit 8 cnt)\<rparr>\<rparr>"

text \<open>The condition of the first loop: the second read happens only if the first did not see the bit.\<close>

definition port_busy :: "'d hw \<Rightarrow> u64 \<Rightarrow> 'd \<Rightarrow> bool \<times> 'd" where
  "port_busy hw prt d =
     (let (v, d1) = port_read hw prt P_tfd d in
      if v AND AHCI_HBA_PORT_TFD_BSY_BIT \<noteq> 0 then (True, d1)
      else let (v', d2) = port_read hw prt P_tfd d1 in (v' AND AHCI_HBA_PORT_TFD_DRQ_BIT \<noteq> 0, d2))"

fun spin_busy :: "nat \<Rightarrow> 'd hw \<Rightarrow> u64 \<Rightarrow> 'd \<Rightarrow> nat \<times> 'd" where
  "spin_busy spin hw prt d =
     (if spin = 0 then (0, d)
      else let (b, d') = port_busy hw prt d in if b then spin_busy (spin - 1) hw prt d' else (spin, d'))"

declare spin_busy.simps [simp del]

text \<open>The loop that waits for the command; the result is false on an error of the task file.\<close>

primrec wait_command :: "nat \<Rightarrow> 'd hw \<Rightarrow> u64 \<Rightarrow> u8 \<Rightarrow> 'd \<Rightarrow> (bool \<times> 'd) exec" where
  "wait_command 0 hw prt slot d = Diverge"
| "wait_command (Suc fuel) hw prt slot d =
     (let (ci, d1) = port_read hw prt P_ci d in
      if ci AND push_bit (unat slot) 1 = 0 then Ret (True, d1)
      else
        let (is, d2) = port_read hw prt P_is d1 in
        if is AND AHCI_HBA_PORT_IS_TFES_BIT \<noteq> 0 then Ret (False, d2) else wait_command fuel hw prt slot d2)"

definition ahci_issue_cmd :: "'d hw \<Rightarrow> nat \<Rightarrow> u64 \<Rightarrow> u8 \<Rightarrow> 'd \<Rightarrow> (bool \<times> 'd) exec" where
  "ahci_issue_cmd hw fuel prt slot d =
     (let (spin, d1) = spin_busy 1000000 hw prt d in
      if spin = 0 then Ret (False, d1)
      else
        let d2 = port_write hw prt P_ci (push_bit (unat slot) 1) (port_write hw prt P_is 0xFFFFFFFF d1)
        in exec_bind (wait_command fuel hw prt slot d2) (\<lambda>(b, d3).
             if \<not> b then Ret (False, d3)
             else let (is, d4) = port_read hw prt P_is d3 in Ret (is AND AHCI_HBA_PORT_IS_TFES_BIT = 0, d4)))"

definition ahci_alloc_cmdtbl :: "'s kops \<Rightarrow> ('s, 'd) ahci \<Rightarrow> u64 \<times> ('s, 'd) ahci" where
  "ahci_alloc_cmdtbl ops st =
     (let (cmdtbl, s1) = page_op ops (aenv st) in
      if cmdtbl = 0 then (0, st\<lparr>aenv := s1\<rparr>)
      else (cmdtbl, st\<lparr>aenv := s1, cmd_tables := (cmd_tables st)(cmdtbl \<mapsto> zero_table)\<rparr>))"

text \<open>
  The first part of both commands: the command list of the port, and the command table of its slot 0,
  which is allocated on first use. \<open>None\<close> is a failed allocation.
\<close>

definition slot_table ::
    "'d hw \<Rightarrow> 's kops \<Rightarrow> u64 \<Rightarrow> ('s, 'd) ahci \<Rightarrow> ((u64 \<times> u64) option \<times> ('s, 'd) ahci) exec" where
  "slot_table hw ops prt st =
     (let (cl, d1) = ahci_get_cmd_list hw prt (adev st);
          st1 = st\<lparr>adev := d1\<rparr>
      in exec_bind (deref (cmd_lists st1) cl) (\<lambda>hs.
         exec_bind (array_get hs 0) (\<lambda>h.
           let cmdtbl = ahci_get_cmdtbl h in
           if cmdtbl \<noteq> 0 then Ret (Some (cl, cmdtbl), st1)
           else
             let (cmdtbl', st2) = ahci_alloc_cmdtbl ops st1 in
             if cmdtbl' = 0 then Ret (None, st2)
             else Ret (Some (cl, cmdtbl'), st2\<lparr>cmd_lists := (cmd_lists st2)(cl \<mapsto>
               hs[0 := ahci_set_cmdtbl h (VIRT_TO_PHYS cmdtbl')])\<rparr>))))"

text \<open>The last part of both: fill the header of slot 0 and issue it.\<close>

definition start_command ::
    "'d hw \<Rightarrow> nat \<Rightarrow> u64 \<Rightarrow> u64 \<Rightarrow> int \<Rightarrow> ('s, 'd) ahci \<Rightarrow> (int \<times> ('s, 'd) ahci) exec" where
  "start_command hw fuel prt cl ptrdl st =
     exec_bind (deref (cmd_lists st) cl) (\<lambda>hs.
     exec_bind (array_get hs 0) (\<lambda>h.
       let st1 = st\<lparr>cmd_lists := (cmd_lists st)(cl \<mapsto> hs[0 := h\<lparr>prdtl := word_of_int ptrdl, w := False, cfl := 20 div 4\<rparr>])\<rparr>
       in exec_bind (ahci_issue_cmd hw fuel prt 0 (adev st1)) (\<lambda>(b, d1).
            Ret (if b then 0 else - EIO, st1\<lparr>adev := d1\<rparr>))))"

text \<open>\<^verbatim>\<open>__ahci_read\<close>; \<^verbatim>\<open>count\<close> is cut to 16 bits by the call of \<^verbatim>\<open>ahci_cmdtbl_build_fis\<close>.\<close>

definition ahci_port_read ::
    "'d hw \<Rightarrow> 's kops \<Rightarrow> nat \<Rightarrow> u64 \<Rightarrow> u64 \<Rightarrow> u64 \<Rightarrow> phys_iovec list \<Rightarrow> ('s, 'd) ahci \<Rightarrow> (int \<times> ('s, 'd) ahci) exec" where
  "ahci_port_read hw ops fuel prt lba cnt iovec st =
     exec_bind (slot_table hw ops prt st) (\<lambda>(r, st1). case r of
       None \<Rightarrow> Ret (- ENOMEM, st1)
     | Some (cl, cmdtbl) \<Rightarrow>
         exec_bind (deref (cmd_tables st1) cmdtbl) (\<lambda>t.
         exec_bind (ahci_build_prdt (ahci_cmdtbl_build_fis t lba (ucast cnt) AHCI_ATA_CMD_READ_DMA_EXT
             AHCI_CMDFIS_DEVICE_LBA_MODE) max_prdt_entries iovec) (\<lambda>(ptrdl, t').
           let st2 = st1\<lparr>cmd_tables := (cmd_tables st1)(cmdtbl \<mapsto> t')\<rparr> in
           if ptrdl < 0 then Ret (ptrdl, st2) else start_command hw fuel prt cl ptrdl st2)))"

definition ahci_read ::
    "'d hw \<Rightarrow> 's kops \<Rightarrow> nat \<Rightarrow> block_dev \<Rightarrow> u64 \<Rightarrow> u64 \<Rightarrow> phys_iovec list \<Rightarrow> ('s, 'd) ahci \<Rightarrow> (int \<times> ('s, 'd) ahci) exec" where
  "ahci_read hw ops fuel bdev lba cnt iovec st = ahci_port_read hw ops fuel (port bdev) lba cnt iovec st"

definition ahci_identify ::
    "'d hw \<Rightarrow> 's kops \<Rightarrow> nat \<Rightarrow> u64 \<Rightarrow> u64 \<Rightarrow> ('s, 'd) ahci \<Rightarrow> (int \<times> ('s, 'd) ahci) exec" where
  "ahci_identify hw ops fuel prt buf st =
     exec_bind (slot_table hw ops prt st) (\<lambda>(r, st1). case r of
       None \<Rightarrow> Ret (- ENOMEM, st1)
     | Some (cl, cmdtbl) \<Rightarrow>
         exec_bind (deref (cmd_tables st1) cmdtbl) (\<lambda>t.
         exec_bind (ahci_build_prdt (ahci_cmdtbl_build_fis (t\<lparr>cfis := zero_fis\<rparr>) 0 0 AHCI_ATA_CMD_IDENTIFY 0) 1
             [\<lparr>iov_addr = VIRT_TO_PHYS buf, iov_length = 512\<rparr>]) (\<lambda>(ptrdl, t').
           let st2 = st1\<lparr>cmd_tables := (cmd_tables st1)(cmdtbl \<mapsto> t')\<rparr> in
           if ptrdl < 0 then Ret (- ptrdl, st2) else start_command hw fuel prt cl ptrdl st2)))"

section \<open>Finding the disks\<close>

text \<open>The data of the IDENTIFY command as bytes; \<^verbatim>\<open>id[k]\<close> is the word at offset \<open>2 k\<close>.\<close>

definition id_word :: "u8 list \<Rightarrow> nat \<Rightarrow> u16" where
  "id_word b k = le16 b (2 * k)"

definition id_get_sector_count :: "u8 list \<Rightarrow> u64" where
  "id_get_sector_count b =
     (if id_word b 83 AND 0xC000 = 0x4000 \<and> id_word b 83 AND push_bit 10 1 \<noteq> 0
      then ucast (id_word b 100) OR push_bit 16 (ucast (id_word b 101)) OR push_bit 32 (ucast (id_word b 102))
             OR push_bit 48 (ucast (id_word b 103))
      else ucast (id_word b 60) OR push_bit 16 (ucast (id_word b 61)))"

definition id_get_sector_size :: "u8 list \<Rightarrow> u32" where
  "id_get_sector_size b =
     (let words_per_sector = ucast (id_word b 117) OR push_bit 16 (ucast (id_word b 118)) :: u32
      in if id_word b 106 AND 0xC000 = 0x4000 \<and> id_word b 106 AND push_bit 12 1 \<noteq> 0 \<and> words_per_sector > 0
         then words_per_sector * 2 else 512)"

text \<open>
  One round of \<^verbatim>\<open>ahci_probe_ports\<close>. \<open>dma a n d\<close> is what the \<open>n\<close> bytes of memory at the physical address
  \<open>a\<close> hold, which the controller writes. The result is \<open>0\<close> when the loop goes on.
\<close>

definition probe_port ::
    "'d hw \<Rightarrow> 's kops \<Rightarrow> (u64 \<Rightarrow> nat \<Rightarrow> 'd \<Rightarrow> u8 list) \<Rightarrow> nat \<Rightarrow> u64 \<Rightarrow> nat \<Rightarrow> block_dev list \<Rightarrow> ('s, 'd) ahci \<Rightarrow>
     (int \<times> block_dev list \<times> ('s, 'd) ahci) exec" where
  "probe_port hw ops dma fuel hba i devs st =
     (let (pi, d1) = readl_op hw (hba + HBA_PI) (adev st) in
      if pi AND push_bit i 1 = 0 then Ret (0, devs, st\<lparr>adev := d1\<rparr>)
      else
        let prt = hba_ports hba i;
            (ssts, d2) = port_read hw prt P_ssts d1;
            det = ssts AND 0x0F;
            ipm = drop_bit 8 ssts AND 0x0F
        in if det \<noteq> AHCI_HBA_PORT_DET_PRESENT \<or> ipm \<noteq> AHCI_HBA_PORT_IPM_ACTIVE then Ret (0, devs, st\<lparr>adev := d2\<rparr>)
           else
             let (sig, d3) = port_read hw prt P_sig d2 in
             if sig \<noteq> AHCI_DEV_SATA then Ret (0, devs, st\<lparr>adev := d3\<rparr>)
             else exec_bind (ahci_init_port hw ops fuel prt (st\<lparr>adev := d3\<rparr>)) (\<lambda>(res, st1).
               if res < 0 then Ret (res, devs, st1)
               else
                 let (id, s2) = kmalloc_op ops 512 (aenv st1); st2 = st1\<lparr>aenv := s2\<rparr> in
                 if id = 0 then Ret (- ENOMEM, devs, st2)
                 else exec_bind (ahci_identify hw ops fuel prt id st2) (\<lambda>(res, st3).
                   if res < 0 then Ret (- EIO, devs, st3)
                   else
                     let (bdev, s4) = kmalloc_op ops sizeof_block_dev (aenv st3); st4 = st3\<lparr>aenv := s4\<rparr> in
                     if bdev = 0 then Ret (- ENOMEM, devs, st4)
                     else
                       let b = dma (VIRT_TO_PHYS id) 512 (adev st4)
                       in Ret (0, block_dev_register (Ahci_dev [0x73, 0x61, 0x74, 0x61, 0x30 + of_nat i]
                                 (id_get_sector_size b) (id_get_sector_count b) prt) devs, st4))))"

fun probe_ports_from ::
    "'d hw \<Rightarrow> 's kops \<Rightarrow> (u64 \<Rightarrow> nat \<Rightarrow> 'd \<Rightarrow> u8 list) \<Rightarrow> nat \<Rightarrow> u64 \<Rightarrow> nat list \<Rightarrow> block_dev list \<Rightarrow> ('s, 'd) ahci \<Rightarrow>
     (int \<times> block_dev list \<times> ('s, 'd) ahci) exec" where
  "probe_ports_from hw ops dma fuel hba [] devs st = Ret (0, devs, st)"
| "probe_ports_from hw ops dma fuel hba (i # is) devs st =
     exec_bind (probe_port hw ops dma fuel hba i devs st) (\<lambda>(res, devs1, st1).
       if res < 0 then Ret (res, devs1, st1) else probe_ports_from hw ops dma fuel hba is devs1 st1)"

definition ahci_probe_ports ::
    "'d hw \<Rightarrow> 's kops \<Rightarrow> (u64 \<Rightarrow> nat \<Rightarrow> 'd \<Rightarrow> u8 list) \<Rightarrow> nat \<Rightarrow> u64 \<Rightarrow> block_dev list \<Rightarrow> ('s, 'd) ahci \<Rightarrow>
     (int \<times> block_dev list \<times> ('s, 'd) ahci) exec" where
  "ahci_probe_ports hw ops dma fuel hba devs st = probe_ports_from hw ops dma fuel hba [0..<32] devs st"

text \<open>\<^verbatim>\<open>ioremap\<close> acts on the page tables, which are part of the environment.\<close>

definition ahci_init ::
    "'d hw \<Rightarrow> 's kops \<Rightarrow> (u64 \<Rightarrow> u64 \<Rightarrow> 's \<Rightarrow> (u64 \<times> 's) exec) \<Rightarrow> (u64 \<Rightarrow> nat \<Rightarrow> 'd \<Rightarrow> u8 list) \<Rightarrow> nat \<Rightarrow> pci_device \<Rightarrow>
     block_dev list \<Rightarrow> ('s, 'd) ahci \<Rightarrow> (int \<times> block_dev list \<times> ('s, 'd) ahci) exec" where
  "ahci_init hw ops iomap dma fuel junk devs st =
     (let (pd, d1) = pci_get_by_class hw junk AHCI_CLASS AHCI_SUB_CLASS (adev st) in
      if \<not> found pd then Ret (- ENODEV, devs, st\<lparr>adev := d1\<rparr>)
      else
        let (cmd_reg, d2) = pci_read_dword hw pd 0x04 d1;
            d3 = pci_write_dword hw pd 0x04 (cmd_reg OR (push_bit 2 1 OR push_bit 1 1)) d2;
            (bar5, d4) = pci_read_dword hw pd 0x24 d3;
            bar5_phys = bar5 AND 0xFFFFFFF0
        in exec_bind (iomap (ucast bar5_phys) 0x1100 (aenv st)) (\<lambda>(hba, s1).
             let (ghc, d5) = readl_op hw (hba + HBA_GHC) d4;
                 d6 = writel_op hw (hba + HBA_GHC) (ghc OR AHCI_ENABLE_BIT) d5
             in ahci_probe_ports hw ops dma fuel hba devs (st\<lparr>aenv := s1, adev := d6\<rparr>)))"

section \<open>What the controller is told to do\<close>

text \<open>
  The bytes a region covers, in order, as the controller reads an entry (\<^verbatim>\<open>dbc\<close> is the length minus one)
  and as the caller describes its buffers.
\<close>

definition region :: "u64 \<Rightarrow> nat \<Rightarrow> u64 list" where
  "region a n = map (\<lambda>i. a + of_nat i) [0..<n]"

definition prdt_region :: "hba_prdt_entry \<Rightarrow> u64 list" where
  "prdt_region e = region (ucast (dba e) OR push_bit 32 (ucast (dbau e))) (unat (dbc e) + 1)"

definition iov_region :: "phys_iovec \<Rightarrow> u64 list" where
  "iov_region v = region (iov_addr v) (unat (iov_length v))"

definition chunk_count :: "nat \<Rightarrow> nat" where
  "chunk_count n = (n + 4194303) div 4194304"

lemma region_append: "region a (n + k) = region a n @ region (a + of_nat n) k"
  by (induction k) (auto simp: region_def ac_simps)

lemma region_0 [simp]: "region a 0 = []"
  by (simp add: region_def)

lemma split_dwords: "ucast (ucast a :: u32) OR push_bit 32 (ucast (ucast (drop_bit 32 a) :: u32)) = a" for a :: u64
  by (rule bit_word_eqI) (auto simp: bit_simps not_less)

lemma chunk_count_step: "0 < n \<Longrightarrow> chunk_count n = Suc (chunk_count (n - 4194304))"
  by (cases "n \<le> 4194304") (auto simp: chunk_count_def le_div_geq)

lemma chunk_entry:
  assumes "n \<noteq> 0" and e: "e' = e\<lparr>dba := ucast a, dbau := ucast (drop_bit 32 a), dbc := take_bit 22 (chunck_size n - 1)\<rparr>"
  shows "prdt_region e' = region a (min (unat n) 4194304)"
proof -
  have z: "unat (chunck_size n) > 0" using assms(1) by (simp add: unat_chunck_size unat_gt_0)
  then have "unat (chunck_size n - 1) = unat (chunck_size n) - 1" by (simp add: unat_minus_one unat_gt_0)
  moreover have "unat (take_bit 22 (chunck_size n - 1)) = unat (chunck_size n - 1) mod 2 ^ 22"
    unfolding unsigned_take_bit_eq by (rule take_bit_eq_mod)
  ultimately have "unat (take_bit 22 (chunck_size n - 1)) + 1 = min (unat n) 4194304"
    using z by (simp add: unat_chunck_size)
  with e show ?thesis by (simp add: prdt_region_def split_dwords)
qed

text \<open>The table of regions: filled from \<open>index\<close> on, exactly as long as the entries suffice.\<close>

definition regions :: "hba_prdt_entry list \<Rightarrow> u16 \<Rightarrow> u64 list" where
  "regions es index = concat (map prdt_region (take (unat index) es))"

lemma regions_set:
  assumes "unat index < length es" "index < m"
  shows "regions (es[unat index := e]) (index + 1) = regions es index @ prdt_region e"
proof -
  have "unat (index + 1) = Suc (unat index)"
    using assms(2) unsigned_less[of m, where ?'a = nat] by (subst unat_word_ariths) (simp add: word_less_nat_alt)
  then show ?thesis using assms(1) by (simp add: regions_def take_Suc_conv_app_nth)
qed

lemma prdt_chunks_spec:
  assumes "index \<le> m" "unat m \<le> length es"
  shows "\<exists>r es'. prdt_chunks m a n index es = Ret (r, es') \<and> length es' = length es
    \<and> (case r of None \<Rightarrow> unat m < unat index + chunk_count (unat n)
       | Some j \<Rightarrow> unat j = unat index + chunk_count (unat n) \<and> j \<le> m
           \<and> regions es' j = regions es index @ region a (unat n))"
  using assms
proof (induction m a n index es rule: prdt_chunks.induct)
  case (1 m a n index es)
  consider "n = 0" | "n \<noteq> 0" "m \<le> index" | "n \<noteq> 0" "\<not> m \<le> index" by blast
  then show ?case
  proof cases
    case 1
    then show ?thesis using "1.prems" by (subst prdt_chunks.simps) (auto simp: chunk_count_def)
  next
    case 2
    then show ?thesis using "1.prems" by (subst prdt_chunks.simps) (auto simp: chunk_count_step unat_gt_0 word_le_nat_alt)
  next
    case 3
    let ?e = "(es ! unat index)\<lparr>dba := ucast a, dbau := ucast (drop_bit 32 a), dbc := take_bit 22 (chunck_size n - 1)\<rparr>"
    let ?a = "a + ucast (chunck_size n)" and ?n = "n - ucast (chunck_size n)" and ?es = "es[unat index := ?e]"
    have i: "unat index < length es" "index < m" using 3 "1.prems" by (auto simp: word_le_nat_alt word_less_nat_alt)
    have s: "unat (index + 1) = Suc (unat index)"
      using i(2) unsigned_less[of m, where ?'a = nat] by (subst unat_word_ariths) (simp add: word_less_nat_alt)
    have le: "index + 1 \<le> m" using i(2) s by (simp add: word_le_nat_alt word_less_nat_alt)
    obtain r es' where ih: "prdt_chunks m ?a ?n (index + 1) ?es = Ret (r, es')" "length es' = length ?es"
      "(case r of None \<Rightarrow> unat m < unat (index + 1) + chunk_count (unat ?n)
         | Some j \<Rightarrow> unat j = unat (index + 1) + chunk_count (unat ?n) \<and> j \<le> m
             \<and> regions es' j = regions ?es (index + 1) @ region ?a (unat ?n))"
      using "1.IH"[OF 3, of ?es] le i "1.prems" by auto
    have "prdt_chunks m a n index es = prdt_chunks m ?a ?n (index + 1) ?es"
      using 3 i by (subst prdt_chunks.simps) simp
    moreover have "chunk_count (unat n) = Suc (chunk_count (unat ?n))"
      using 3 by (simp add: chunk_count_step unat_gt_0 unat_chunck_rest)
    moreover have "region a (unat n) = prdt_region ?e @ region ?a (unat ?n)"
    proof -
      have n: "unat n = unat (chunck_size n) + unat ?n" by (simp add: unat_chunck_size unat_chunck_rest min_def)
      have "region a (unat n) = region a (unat (chunck_size n)) @ region ?a (unat ?n)"
        by (subst n) (simp add: region_append)
      also have "region a (unat (chunck_size n)) = prdt_region ?e"
        using chunk_entry[OF 3(1) refl] by (simp add: unat_chunck_size)
      finally show ?thesis .
    qed
    ultimately show ?thesis using ih s regions_set[OF i]
      by (intro exI[of _ r] exI[of _ es']) (auto split: option.splits)
  qed
qed

definition chunks_needed :: "phys_iovec list \<Rightarrow> nat" where
  "chunks_needed iovec = sum_list (map (\<lambda>v. chunk_count (unat (iov_length v))) iovec)"

lemma chunks_needed_simps [simp]:
  "chunks_needed [] = 0" "chunks_needed (v # vs) = chunk_count (unat (iov_length v)) + chunks_needed vs"
  by (simp_all add: chunks_needed_def)

lemma prdt_vectors_spec:
  assumes "index \<le> m" "unat m \<le> length es"
  shows "\<exists>r es'. prdt_vectors m vs index es = Ret (r, es') \<and> length es' = length es
    \<and> (if unat index + chunks_needed vs \<le> unat m
       then \<exists>j. r = uint j \<and> unat j = unat index + chunks_needed vs \<and> regions es' j = regions es index @ concat (map iov_region vs)
       else r = - ENOMEM)"
  using assms
proof (induction vs arbitrary: index es)
  case Nil
  then show ?case by (auto simp: word_le_nat_alt)
next
  case (Cons v vs)
  obtain r es1 where c: "prdt_chunks m (iov_addr v) (iov_length v) index es = Ret (r, es1)" "length es1 = length es"
    and r: "case r of None \<Rightarrow> unat m < unat index + chunk_count (unat (iov_length v))
       | Some j \<Rightarrow> unat j = unat index + chunk_count (unat (iov_length v)) \<and> j \<le> m
           \<and> regions es1 j = regions es index @ region (iov_addr v) (unat (iov_length v))"
    using prdt_chunks_spec[OF Cons.prems, of "iov_addr v" "iov_length v"] by blast
  show ?case
  proof (cases r)
    case None
    with c r show ?thesis by auto
  next
    case (Some j)
    with r c(2) Cons.prems obtain r' es' where ih: "prdt_vectors m vs j es1 = Ret (r', es')" "length es' = length es1"
      "if unat j + chunks_needed vs \<le> unat m
       then \<exists>k. r' = uint k \<and> unat k = unat j + chunks_needed vs \<and> regions es' k = regions es1 j @ concat (map iov_region vs)
       else r' = - ENOMEM"
      using Cons.IH[of j es1] by auto
    have iv: "region (iov_addr v) (unat (iov_length v)) = iov_region v" by (simp add: iov_region_def)
    from Some r c ih show ?thesis
      by (intro exI[of _ r'] exI[of _ es']) (auto simp: iv add.assoc)
  qed
qed

end
