(* ===== verification/Ahci_Command.thy ===== *)
theory Ahci_Command
  imports Ahci Kenv
begin

text \<open>
  What a read of the disk makes of the command list and command table that the controller fetches, on the
  kernel's page allocator.
\<close>

text \<open>The command as the controller decodes the bytes of a register FIS: 48 bits of address, 16 of count.\<close>

definition fis_lba :: "u8 list \<Rightarrow> u64" where
  "fis_lba b = ucast (b ! 4) OR push_bit 8 (ucast (b ! 5)) OR push_bit 16 (ucast (b ! 6)) OR push_bit 24 (ucast (b ! 8))
     OR push_bit 32 (ucast (b ! 9)) OR push_bit 40 (ucast (b ! 10))"

definition fis_count :: "u8 list \<Rightarrow> u16" where
  "fis_count b = ucast (b ! 12) OR push_bit 8 (ucast (b ! 13))"

text \<open>A header and its table ask for a read of \<open>cnt\<close> sectors from \<open>lba\<close> on into the buffers of \<open>iovec\<close>.\<close>

definition asks_read :: "u64 \<Rightarrow> u64 \<Rightarrow> phys_iovec list \<Rightarrow> hba_cmd_header \<Rightarrow> hba_cmd_table \<Rightarrow> bool" where
  "asks_read lba cnt iovec h t \<longleftrightarrow>
     cfl h = 5 \<and> \<not> w h \<and> unat (prdtl h) = chunks_needed iovec
     \<and> concat (map prdt_region (take (unat (prdtl h)) (prdt_entry t))) = concat (map iov_region iovec)
     \<and> take 3 (fis_bytes (cfis t)) = [FIS_TYPE_REG_H2D, fis_bytes (cfis t) ! 1, AHCI_ATA_CMD_READ_DMA_EXT]
     \<and> bit (fis_bytes (cfis t) ! 1) 7 \<and> fis_bytes (cfis t) ! 7 = AHCI_CMDFIS_DEVICE_LBA_MODE
     \<and> fis_lba (fis_bytes (cfis t)) = take_bit 48 lba \<and> fis_count (fis_bytes (cfis t)) = ucast cnt"

lemma next_byte: "take_bit k x OR push_bit k (ucast (ucast (drop_bit k x) :: u8)) = take_bit (k + 8) x" for x :: "'a::len word"
  by (rule bit_word_eqI) (auto simp: bit_simps not_less)

lemma first_byte: "ucast (ucast x :: u8) = take_bit 8 x" for x :: "'a::len word"
  by (rule bit_word_eqI) (auto simp: bit_simps)

lemma fis_round_trip:
  "fis_lba (fis_bytes (cfis (ahci_cmdtbl_build_fis t lba cnt cmd dev))) = take_bit 48 lba"
  "fis_count (fis_bytes (cfis (ahci_cmdtbl_build_fis t lba cnt cmd dev))) = cnt"
proof -
  note b = next_byte[of 8] next_byte[of 16] next_byte[of 24] next_byte[of 32] next_byte[of 40]
  show "fis_lba (fis_bytes (cfis (ahci_cmdtbl_build_fis t lba cnt cmd dev))) = take_bit 48 lba"
    using b[of lba] by (simp add: fis_lba_def fis_bytes_def ahci_cmdtbl_build_fis_def first_byte or.assoc[symmetric])
  have "take_bit 16 cnt = cnt" by (rule bit_word_eqI) (auto simp: bit_simps)
  with b(1)[of cnt] show "fis_count (fis_bytes (cfis (ahci_cmdtbl_build_fis t lba cnt cmd dev))) = cnt"
    by (simp add: fis_count_def fis_bytes_def ahci_cmdtbl_build_fis_def first_byte)
qed

definition tables_ok :: "('s, 'd) ahci \<Rightarrow> bool" where
  "tables_ok st \<longleftrightarrow> (\<forall>a t. cmd_tables st a = Some t \<longrightarrow> length (prdt_entry t) = unat max_prdt_entries)"

lemma get_set_cmdtbl: "a \<noteq> PHYS_TO_VIRT 0 \<Longrightarrow> ahci_get_cmdtbl (ahci_set_cmdtbl h (VIRT_TO_PHYS a)) = a"
  by (auto simp: ahci_get_cmdtbl_def ahci_set_cmdtbl_def split_dwords Let_def VIRT_TO_PHYS_def PHYS_TO_VIRT_def)

text \<open>Slot 0 of the port has no command table yet and there is no page for one.\<close>

definition no_table :: "'d hw \<Rightarrow> 's kops \<Rightarrow> u64 \<Rightarrow> ('s, 'd) ahci \<Rightarrow> bool" where
  "no_table hw ops prt st \<longleftrightarrow> fst (page_op ops (aenv st)) = 0 \<and>
     (case cmd_lists st (fst (ahci_get_cmd_list hw prt (adev st))) of Some (h # hs) \<Rightarrow> ahci_get_cmdtbl h = 0 | _ \<Rightarrow> False)"

lemma slot_table_cases:
  assumes "slot_table hw ops prt st = Ret (r, st1)" "tables_ok st" "fst (page_op ops (aenv st)) \<noteq> PHYS_TO_VIRT 0"
  shows "tables_ok st1 \<and> (r = None \<and> no_table hw ops prt st \<or> \<not> no_table hw ops prt st
    \<and> (\<exists>cl h hs. r = Some (cl, ahci_get_cmdtbl h) \<and> cl = fst (ahci_get_cmd_list hw prt (adev st))
         \<and> cl \<noteq> 0 \<and> cmd_lists st1 cl = Some (h # hs)))"
proof -
  obtain cl d1 where cl: "ahci_get_cmd_list hw prt (adev st) = (cl, d1)" by force
  obtain tb s1 where p: "page_op ops (aenv st) = (tb, s1)" by force
  from assms(1) cl obtain hs' where "deref (cmd_lists st) cl = Ret hs'" "hs' \<noteq> []"
    by (auto simp: slot_table_def Let_def exec_bind_Ret_iff array_get_Ret)
  then obtain h hs where l: "cl \<noteq> 0" "cmd_lists st cl = Some (h # hs)"
    by (cases hs') (auto simp: deref_def split: if_splits option.splits)
  then have st: "slot_table hw ops prt st = (if ahci_get_cmdtbl h \<noteq> 0 then Ret (Some (cl, ahci_get_cmdtbl h), st\<lparr>adev := d1\<rparr>)
      else let (tb, st2) = ahci_alloc_cmdtbl ops (st\<lparr>adev := d1\<rparr>) in if tb = 0 then Ret (None, st2)
        else Ret (Some (cl, tb), st2\<lparr>cmd_lists := (cmd_lists st2)(cl \<mapsto> ahci_set_cmdtbl h (VIRT_TO_PHYS tb) # hs)\<rparr>))"
    using cl by (simp add: slot_table_def deref_def Let_def cong: if_cong)
  show ?thesis
  proof (cases "ahci_get_cmdtbl h = 0")
    case True
    with assms l cl p st show ?thesis
      by (cases "tb = 0") (auto simp: ahci_alloc_cmdtbl_def tables_ok_def zero_table_def get_set_cmdtbl no_table_def split: if_splits)
  next
    case False
    with assms l cl st show ?thesis by (auto simp: tables_ok_def no_table_def)
  qed
qed

lemma fis_read:
  assumes "f = cfis (ahci_cmdtbl_build_fis t lba cnt cmd dev)"
  shows "take 3 (fis_bytes f) = [FIS_TYPE_REG_H2D, fis_bytes f ! 1, cmd]" "bit (fis_bytes f ! 1) 7" "fis_bytes f ! 7 = dev"
  by (simp_all add: assms fis_bytes_def ahci_cmdtbl_build_fis_def bit_simps bit_numeral_rec)

lemma start_command_cases:
  assumes "start_command hw fuel prt cl n st = Ret (res, st')" "cl \<noteq> 0" "cmd_lists st cl = Some (h # hs)"
  shows "(res = 0 \<or> res = - EIO) \<and> cmd_tables st' = cmd_tables st
    \<and> cmd_lists st' cl = Some (h\<lparr>prdtl := word_of_int n, w := False, cfl := 5\<rparr> # hs)"
  using assms by (auto simp: start_command_def deref_def Let_def exec_bind_Ret_iff split: if_splits)

lemma build_prdt_cases:
  assumes "ahci_build_prdt t m iovec = Ret (r, t')" "unat m \<le> length (prdt_entry t)"
  shows "if chunks_needed iovec \<le> unat m
    then \<exists>j :: u16. r = uint j \<and> unat j = chunks_needed iovec
      \<and> concat (map prdt_region (take (unat j) (prdt_entry t'))) = concat (map iov_region iovec) \<and> cfis t' = cfis t
    else r = - ENOMEM"
proof -
  have "0 \<le> m" by simp
  then obtain r' es where v: "prdt_vectors m iovec 0 (prdt_entry t) = Ret (r', es)"
    and c: "if unat (0 :: u16) + chunks_needed iovec \<le> unat m
       then \<exists>j. r' = uint j \<and> unat j = unat (0 :: u16) + chunks_needed iovec
         \<and> regions es j = regions (prdt_entry t) 0 @ concat (map iov_region iovec)
       else r' = - ENOMEM"
    using prdt_vectors_spec[of 0 m "prdt_entry t" iovec] assms(2) by blast
  from v assms(1) have "r = r'" "t' = t\<lparr>prdt_entry := es\<rparr>" by (auto simp: ahci_build_prdt_def)
  note rt = this
  show ?thesis
  proof (cases "chunks_needed iovec \<le> unat m")
    case True
    with c obtain j where "r' = uint j" "unat j = chunks_needed iovec" "regions es j = concat (map iov_region iovec)"
      by (auto simp: regions_def)
    with rt have "r = uint j \<and> unat j = chunks_needed iovec
        \<and> concat (map prdt_region (take (unat j) (prdt_entry t'))) = concat (map iov_region iovec) \<and> cfis t' = cfis t"
      by (simp add: regions_def)
    then show ?thesis unfolding if_P[OF True] by (rule exI)
  next
    case False
    with c rt show ?thesis by simp
  qed
qed

lemma kernel_page_not_frame_0:
  assumes "kenv_ok s"
  shows "fst (page_op (kernel_ops transfer) s) \<noteq> PHYS_TO_VIRT 0"
proof -
  obtain V where "heap_ok (kheap_of s) V" using assms by (auto simp: kenv_ok_def)
  from alloc_page_fresh[OF this] show ?thesis
  proof (elim disjE exE conjE)
    fix q p assume a: "alloc_page (kpmm (kheap_of s)) = (vp q, p)" and q: "KB < q" "q < 2 ^ 52"
    have "vp q \<noteq> PHYS_TO_VIRT 0"
    proof
      assume "vp q = PHYS_TO_VIRT 0"
      then have "unat (vp q) = 4096 * KB" by (simp add: PHYS_TO_VIRT_def)
      with q unat_vp[of q] show False by simp
    qed
    with a show ?thesis by (simp add: kernel_ops_def env_alloc_page_def)
  qed (simp add: kernel_ops_def env_alloc_page_def PHYS_TO_VIRT_def)
qed


text \<open>A controller that is never busy and finishes every command at once, with its command list at 0x200000.\<close>

definition witness_hba :: "unit hw" where
  "witness_hba = \<lparr>inb_op = (\<lambda>p d. (0, d)), outb_op = (\<lambda>p v d. d), inl_op = (\<lambda>p d. (0, d)), outl_op = (\<lambda>p v d. d),
     readl_op = (\<lambda>a d. (if a = 0x100 then 0x200000 else 0, d)), writel_op = (\<lambda>a v d. d)\<rparr>"

definition witness_ahci :: "(unit kenv, unit) ahci" where
  "witness_ahci = \<lparr>aenv = witness_env, adev = (), cmd_lists = [PHYS_TO_VIRT 0x200000 \<mapsto> [zero_header\<lparr>ctba := 0x300000\<rparr>]],
     cmd_tables = [PHYS_TO_VIRT 0x300000 \<mapsto> zero_table]\<rparr>"

lemma witness_issue: "ahci_issue_cmd witness_hba 1 0x100 0 () = Ret (True, ())"
proof -
  have "port_read witness_hba 0x100 r () = (if r = P_clb then 0x200000 else 0, ())" for r
    by (cases r) (simp_all add: port_read_def witness_hba_def)
  then show ?thesis
    by (simp add: ahci_issue_cmd_def spin_busy.simps port_busy_def port_write_def witness_hba_def)
qed


end
