(* ===== verification/Vga.thy ===== *)
theory Vga
  imports Vmm
begin

text \<open>
  The text console, \<^verbatim>\<open>drivers/vga/vga.c\<close>: 25 rows of 80 cells and a cursor. The cells are a list,
  and a write outside it is undefined behaviour, so the properties say that no sequence of
  characters and deletions makes the driver write outside the screen.
\<close>

section \<open>State and operations\<close>

datatype vga_color = VGA_COLOR_BLACK | VGA_COLOR_BLUE | VGA_COLOR_GREEN | VGA_COLOR_CYAN | VGA_COLOR_RED
  | VGA_COLOR_MAGENTA | VGA_COLOR_BROWN | VGA_COLOR_LIGHT_GRAY | VGA_COLOR_DARK_GRAY | VGA_COLOR_LIGHT_BLUE
  | VGA_COLOR_LIGHT_GREEN | VGA_COLOR_LIGHT_CYAN | VGA_COLOR_LIGHT_RED | VGA_COLOR_LIGHT_MAGENTA
  | VGA_COLOR_YELLOW | VGA_COLOR_WHITE

fun color_code :: "vga_color \<Rightarrow> u16" where
  "color_code VGA_COLOR_BLACK = 0" | "color_code VGA_COLOR_BLUE = 1" | "color_code VGA_COLOR_GREEN = 2"
| "color_code VGA_COLOR_CYAN = 3" | "color_code VGA_COLOR_RED = 4" | "color_code VGA_COLOR_MAGENTA = 5"
| "color_code VGA_COLOR_BROWN = 6" | "color_code VGA_COLOR_LIGHT_GRAY = 7" | "color_code VGA_COLOR_DARK_GRAY = 8"
| "color_code VGA_COLOR_LIGHT_BLUE = 9" | "color_code VGA_COLOR_LIGHT_GREEN = 10" | "color_code VGA_COLOR_LIGHT_CYAN = 11"
| "color_code VGA_COLOR_LIGHT_RED = 12" | "color_code VGA_COLOR_LIGHT_MAGENTA = 13" | "color_code VGA_COLOR_YELLOW = 14"
| "color_code VGA_COLOR_WHITE = 15"

abbreviation VGA_BUF_WIDTH :: u64 where "VGA_BUF_WIDTH \<equiv> 80"
abbreviation VGA_BUF_HEIGHT :: u64 where "VGA_BUF_HEIGHT \<equiv> 25"
abbreviation VGA_DEFAULT_TEXT_COLOR :: vga_color where "VGA_DEFAULT_TEXT_COLOR \<equiv> VGA_COLOR_WHITE"

record vga =
  vga_buf :: "u16 list"
  vx :: u64
  vy :: u64

definition vga_init :: "('s \<Rightarrow> u64 \<times> 's) \<Rightarrow> bool \<Rightarrow> 's vmm \<times> vga \<Rightarrow> ('s vmm \<times> vga) exec" where
  "vga_init alloc g1 = (\<lambda>(st, v).
     exec_bind (ioremap alloc g1 0xB8000 (VGA_BUF_WIDTH * VGA_BUF_HEIGHT * 2) st) (\<lambda>(_, st1).
     exec_bind (exec_fold (\<lambda>i b. array_set b i 0) [0..<2000] (vga_buf v)) (\<lambda>b.
     Ret (st1, v\<lparr>vga_buf := b\<rparr>))))"

definition isfull :: "vga \<Rightarrow> bool" where
  "isfull v = (if vy v < VGA_BUF_HEIGHT then False else if vx v \<ge> VGA_BUF_WIDTH then False else True)"

text \<open>The character is a signed \<^verbatim>\<open>char\<close> that is promoted to \<^verbatim>\<open>int\<close> before the disjunction.\<close>

definition makechar :: "u8 \<Rightarrow> vga_color \<Rightarrow> u16" where
  "makechar c color = push_bit 8 (color_code color) OR scast c"

definition vga_write :: "u64 \<Rightarrow> u64 \<Rightarrow> u16 \<Rightarrow> vga \<Rightarrow> vga exec" where
  "vga_write x y val v =
     (let offset = y * VGA_BUF_WIDTH + x
      in exec_bind (array_set (vga_buf v) (unat offset) val) (\<lambda>b. Ret (v\<lparr>vga_buf := b\<rparr>)))"

definition vga_putchar_color :: "u8 \<Rightarrow> vga_color \<Rightarrow> vga \<Rightarrow> vga exec" where
  "vga_putchar_color c color v =
     (if isfull v then Ret v
      else if c = 10 then Ret (v\<lparr>vx := 0, vy := vy v + 1\<rparr>)
      else exec_bind (vga_write (vx v) (vy v) (makechar c color) v) (\<lambda>v1.
        let v2 = v1\<lparr>vx := vx v1 + 1\<rparr>
        in Ret (if vx v2 mod VGA_BUF_WIDTH = 0 then v2\<lparr>vx := 0, vy := vy v2 + 1\<rparr> else v2)))"

definition vga_putchar :: "u8 \<Rightarrow> vga \<Rightarrow> vga exec" where
  "vga_putchar c = vga_putchar_color c VGA_DEFAULT_TEXT_COLOR"

text \<open>A C string is its bytes before the terminating zero.\<close>

primrec vga_print_color :: "u8 list \<Rightarrow> vga_color \<Rightarrow> vga \<Rightarrow> vga exec" where
  "vga_print_color [] color v = Ret v"
| "vga_print_color (c # s) color v = exec_bind (vga_putchar_color c color v) (vga_print_color s color)"

definition vga_print :: "u8 list \<Rightarrow> vga \<Rightarrow> vga exec" where
  "vga_print s = vga_print_color s VGA_DEFAULT_TEXT_COLOR"

definition vga_del_last :: "vga \<Rightarrow> vga exec" where
  "vga_del_last v =
     (let v1 = (if vx v = 0
                then v\<lparr>vx := (if vy v = 0 then 0 else VGA_BUF_WIDTH - 1), vy := (if vy v = 0 then 0 else vy v - 1)\<rparr>
                else v\<lparr>vx := vx v - 1\<rparr>)
      in vga_write (vx v1) (vy v1) 0x720 v1)"

section \<open>The cursor stays on the screen\<close>

definition vga_ok :: "vga \<Rightarrow> bool" where
  "vga_ok v \<longleftrightarrow> length (vga_buf v) = 2000 \<and> unat (vx v) < 80 \<and> (unat (vy v) < 25 \<or> unat (vy v) = 25 \<and> vx v = 0)"

text \<open>The position of the cursor, counted in cells from the top left corner.\<close>

definition vpos :: "vga \<Rightarrow> nat" where
  "vpos v = unat (vy v) * 80 + unat (vx v)"

lemma vga_offset: "unat x < 80 \<Longrightarrow> unat y \<le> 25 \<Longrightarrow> unat (y * VGA_BUF_WIDTH + x) = unat y * 80 + unat x"
proof -
  assume "unat x < 80" "unat y \<le> 25"
  moreover from this have "unat (y * VGA_BUF_WIDTH) = unat y * 80" by (subst unat_mult_small) auto
  ultimately show ?thesis by (subst unat_add_small) auto
qed

lemma vga_write_in:
  assumes "length (vga_buf v) = 2000" "unat x < 80" "unat y < 25"
  shows "vga_write x y val v = Ret (v\<lparr>vga_buf := (vga_buf v)[unat y * 80 + unat x := val]\<rparr>)"
  using assms vga_offset[of x y] by (simp add: vga_write_def)

lemma not_full_iff: "vga_ok v \<Longrightarrow> \<not> isfull v \<longleftrightarrow> unat (vy v) < 25"
  by (auto simp: isfull_def vga_ok_def word_less_nat_alt)

lemma putchar_full: "vga_ok v \<Longrightarrow> unat (vy v) = 25 \<Longrightarrow> vga_putchar_color c col v = Ret v"
  using not_full_iff[of v] by (simp add: vga_putchar_color_def)

lemma unat_inc: "unat x < 100 \<Longrightarrow> unat (x + 1) = unat x + 1" for x :: u64
  by (subst unat_add_small) auto

lemma putchar_newline:
  assumes "vga_ok v" "unat (vy v) < 25"
  shows "vga_putchar_color 10 col v = Ret (v\<lparr>vx := 0, vy := vy v + 1\<rparr>)"
    and "vga_ok (v\<lparr>vx := 0, vy := vy v + 1\<rparr>)"
  using assms not_full_iff[of v] unat_inc[of "vy v"] by (auto simp: vga_putchar_color_def vga_ok_def)

lemma putchar_char:
  assumes ok: "vga_ok v" "unat (vy v) < 25" and c: "c \<noteq> 10"
  shows "\<exists>v'. vga_putchar_color c col v = Ret v' \<and> vga_ok v' \<and> vpos v' = vpos v + 1
    \<and> vga_buf v' = (vga_buf v)[vpos v := makechar c col]"
proof -
  have b: "length (vga_buf v) = 2000" "unat (vx v) < 80" using ok by (auto simp: vga_ok_def)
  let ?v1 = "v\<lparr>vga_buf := (vga_buf v)[vpos v := makechar c col], vx := vx v + 1\<rparr>"
  have x1: "unat (vx v + 1) = unat (vx v) + 1" "unat (vy v + 1) = unat (vy v) + 1"
    using b ok(2) unat_inc by auto
  have m: "(vx v + 1) mod VGA_BUF_WIDTH = 0 \<longleftrightarrow> unat (vx v) = 79"
  proof -
    have "(vx v + 1) mod VGA_BUF_WIDTH = 0 \<longleftrightarrow> unat ((vx v + 1) mod VGA_BUF_WIDTH) = 0" by (simp add: unat_eq_0)
    also have "\<dots> \<longleftrightarrow> (unat (vx v) + 1) mod 80 = 0" by (simp add: unat_mod x1)
    also have "\<dots> \<longleftrightarrow> unat (vx v) = 79" using b(2) by (cases "unat (vx v) = 79") auto
    finally show ?thesis .
  qed
  have r: "vga_putchar_color c col v = Ret (if unat (vx v) = 79 then ?v1\<lparr>vx := 0, vy := vy v + 1\<rparr> else ?v1)"
    using not_full_iff[OF ok(1)] ok(2) c vga_write_in[OF b ok(2)] m
    by (simp add: vga_putchar_color_def Let_def vpos_def)
  show ?thesis
    unfolding r using b ok(2) x1 by (auto simp: vga_ok_def vpos_def)
qed

lemma del_last_ok:
  assumes ok: "vga_ok v"
  shows "\<exists>v'. vga_del_last v = Ret v' \<and> vga_ok v' \<and> vpos v' = vpos v - 1 \<and> vga_buf v' = (vga_buf v)[vpos v' := 0x720]"
proof -
  let ?v1 = "if vx v = 0
      then v\<lparr>vx := (if vy v = 0 then 0 else VGA_BUF_WIDTH - 1), vy := (if vy v = 0 then 0 else vy v - 1)\<rparr>
      else v\<lparr>vx := vx v - 1\<rparr>"
  have d: "unat (a - 1) = unat a - 1" if "a \<noteq> 0" for a :: u64
    using that unat_sub[of 1 a] by (simp add: word_le_nat_alt unat_gt_0 Suc_leI)
  have b: "length (vga_buf ?v1) = 2000" "unat (vx ?v1) < 80" "unat (vy ?v1) < 25" "vpos ?v1 = vpos v - 1"
    using ok d[of "vx v"] d[of "vy v"] unat_gt_0[of "vx v"] unat_gt_0[of "vy v"]
    by (auto simp: vga_ok_def vpos_def unat_eq_0 diff_mult_distrib)
  have "vga_del_last v = Ret (?v1\<lparr>vga_buf := (vga_buf v)[vpos v - 1 := 0x720]\<rparr>)"
    using vga_write_in[OF b(1-3), of "0x720"] b(4) by (simp add: vga_del_last_def Let_def vpos_def)
  moreover have "vga_ok (?v1\<lparr>vga_buf := (vga_buf v)[vpos v - 1 := 0x720]\<rparr>)"
    using b ok by (auto simp: vga_ok_def)
  ultimately show ?thesis using b(4) by (auto simp: vpos_def)
qed

section \<open>Properties\<close>

text \<open>What is done to the console: a character is printed or the last one deleted.\<close>

datatype vga_op = Put u8 vga_color | Del

primrec vga_do :: "vga_op \<Rightarrow> vga \<Rightarrow> vga exec" where
  "vga_do (Put c col) v = vga_putchar_color c col v"
| "vga_do Del v = vga_del_last v"

lemma vga_do_ok: "vga_ok v \<Longrightarrow> \<exists>v'. vga_do op v = Ret v' \<and> vga_ok v'"
proof (cases op)
  case (Put c col)
  assume ok: "vga_ok v"
  then consider "unat (vy v) = 25" | "unat (vy v) < 25" "c = 10" | "unat (vy v) < 25" "c \<noteq> 10"
    by (auto simp: vga_ok_def)
  then show ?thesis
    using putchar_full[OF ok] putchar_newline[OF ok] putchar_char[OF ok, of c col] ok Put by cases auto
qed (use del_last_ok in auto)

text \<open>
  C35. No sequence of printed characters and deletions makes the console driver write outside the
  25 by 80 cells of the screen: each of them returns, with the cursor on the screen or just
  behind its last cell.
\<close>

theorem vga_stays_on_screen:
  assumes "vga_ok v"
  shows "\<exists>v'. exec_fold vga_do ops v = Ret v' \<and> vga_ok v'"
  using assms
proof (induction ops arbitrary: v)
  case (Cons op ops)
  obtain v1 where "vga_do op v = Ret v1" "vga_ok v1" using vga_do_ok[OF Cons.prems] by blast
  then show ?case using Cons.IH by simp
qed simp

theorem vga_stays_on_screen_witness:
  "\<exists>v'. exec_fold vga_do [Put 0x41 VGA_COLOR_WHITE, Del, Del] \<lparr>vga_buf = replicate 2000 0, vx = 0, vy = 25\<rparr> = Ret v' \<and> vga_ok v'"
  by (rule vga_stays_on_screen) (simp add: vga_ok_def)

text \<open>
  A character that is not a newline appears in the cell at the cursor, the cursor moves on by
  one cell, and deleting goes back to that cell and blanks it.
\<close>

theorem vga_put_delete:
  assumes "vga_ok v" "vpos v < 2000" "c \<noteq> 10"
  shows "\<exists>v1 v2. vga_putchar_color c col v = Ret v1 \<and> vga_buf v1 = (vga_buf v)[vpos v := makechar c col]
    \<and> vpos v1 = vpos v + 1 \<and> vga_del_last v1 = Ret v2
    \<and> vga_buf v2 = (vga_buf v)[vpos v := 0x720] \<and> vpos v2 = vpos v"
proof -
  have y: "unat (vy v) < 25" using assms(1,2) by (auto simp: vga_ok_def vpos_def)
  obtain v1 where v1: "vga_putchar_color c col v = Ret v1" "vga_ok v1" "vpos v1 = vpos v + 1"
    "vga_buf v1 = (vga_buf v)[vpos v := makechar c col]"
    using putchar_char[OF assms(1) y assms(3)] by blast
  obtain v2 where "vga_del_last v1 = Ret v2" "vpos v2 = vpos v1 - 1" "vga_buf v2 = (vga_buf v1)[vpos v2 := 0x720]"
    using del_last_ok[OF v1(2)] by blast
  with v1 show ?thesis by auto
qed

theorem vga_put_delete_witness:
  "\<exists>v1. vga_putchar_color 0x41 VGA_COLOR_WHITE \<lparr>vga_buf = replicate 2000 0, vx = 79, vy = 3\<rparr> = Ret v1 \<and> vpos v1 = 320"
proof -
  let ?v = "\<lparr>vga_buf = replicate 2000 0, vx = 79, vy = 3\<rparr>"
  have "vga_ok ?v" "vpos ?v = 319" by (simp_all add: vga_ok_def vpos_def)
  with vga_put_delete[of ?v "0x41"] show ?thesis by auto
qed

end
