(* ===== verification/Wait.thy ===== *)
theory Wait
  imports Sched
begin

text \<open>
  Wait queues, \<^verbatim>\<open>kernel/wait.c\<close> and \<^verbatim>\<open>include/wait.h\<close>: a task links an entry into the queue,
  announces that it sleeps, and another task or an interrupt handler walks the queue and wakes
  the tasks of the entries through the wake function each entry names. The spin locks are empty
  (\<^verbatim>\<open>include/spinlock.h\<close>) and only disable interrupts.
\<close>

section \<open>State and operations\<close>

datatype wait_queue_func = default_wake_function | pid_filter_wake_func

record wait_queue_entry =
  wq_flags :: u32
  wq_private :: u64
  wq_func :: wait_queue_func

record waiting =
  sch :: sched
  wqe_at :: "u64 \<Rightarrow> wait_queue_entry"

abbreviation WQ_FLAG_EXCLUSIVE :: u32 where "WQ_FLAG_EXCLUSIVE \<equiv> 1"

text \<open>\<^verbatim>\<open>&w->entry\<close>, at offset 24, and back; the list head of a queue is its first field, since the
  lock is an empty structure.\<close>

definition wait_node :: "u64 \<Rightarrow> u64" where
  "wait_node w = w + 24"

definition wait_entry_of :: "u64 \<Rightarrow> u64" where
  "wait_entry_of n = n - 24"

definition on_links :: "(list_head \<Rightarrow> list_head) \<Rightarrow> waiting \<Rightarrow> waiting" where
  "on_links f st = st\<lparr>sch := (sch st)\<lparr>links := f (links (sch st))\<rparr>\<rparr>"

definition init_waitqueue_head :: "u64 \<Rightarrow> waiting \<Rightarrow> waiting" where
  "init_waitqueue_head h = on_links (INIT_LIST_HEAD h)"

definition init_waitqueue_entry :: "u64 \<Rightarrow> u64 \<Rightarrow> waiting \<Rightarrow> waiting" where
  "init_waitqueue_entry w t st =
     on_links (INIT_LIST_HEAD (wait_node w))
       (st\<lparr>wqe_at := (wqe_at st)(w := \<lparr>wq_flags = 0, wq_private = t, wq_func = default_wake_function\<rparr>)\<rparr>)"

definition prepare_to_wait :: "u64 \<Rightarrow> u64 \<Rightarrow> u32 \<Rightarrow> waiting \<Rightarrow> waiting" where
  "prepare_to_wait h w s st =
     (let st1 = (if list_empty (wait_node w) (links (sch st))
                 then on_links (list_add_tail (wait_node w) h) st else st)
      in st1\<lparr>sch := task_set_state (wq_private (wqe_at st1 w)) s (sch st1)\<rparr>)"

definition finish_wait :: "u64 \<Rightarrow> waiting \<Rightarrow> waiting" where
  "finish_wait w st =
     (let st1 = st\<lparr>sch := task_set_state (wq_private (wqe_at st w)) TASK_RUNNING (sch st)\<rparr>
      in if \<not> list_empty (wait_node w) (links (sch st1))
         then on_links (INIT_LIST_HEAD (wait_node w)) (on_links (list_del (wait_node w)) st1)
         else st1)"

text \<open>A call through \<^verbatim>\<open>cur->func\<close>; \<open>key\<close> is what the pointer of that name points to, and reading
  through a null one is undefined.\<close>

definition call_wake_func :: "u64 \<Rightarrow> u32 option \<Rightarrow> waiting \<Rightarrow> (bool \<times> waiting) exec" where
  "call_wake_func w key st =
     (let t = wq_private (wqe_at st w) in
      case wq_func (wqe_at st w) of
        default_wake_function \<Rightarrow> (let (r, s) = wake_up_task t (sch st) in Ret (r, st\<lparr>sch := s\<rparr>))
      | pid_filter_wake_func \<Rightarrow>
          (case key of None \<Rightarrow> Oob
           | Some p \<Rightarrow>
               if pid (task_at (sch st) t) = p
               then (let (r, s) = wake_up_task t (sch st) in Ret (r, st\<lparr>sch := s\<rparr>))
               else Ret (False, st)))"

text \<open>The walk of \<^verbatim>\<open>__wakeup\<close> from the node \<open>pos\<close>; on a broken ring it may never come back.\<close>

primrec wakeup_loop :: "nat \<Rightarrow> u64 \<Rightarrow> u64 \<Rightarrow> u32 \<Rightarrow> int \<Rightarrow> u32 option \<Rightarrow> waiting \<Rightarrow> waiting exec" where
  "wakeup_loop 0 pos h mode nr key st = Diverge"
| "wakeup_loop (Suc fuel) pos h mode nr key st =
     (if pos = h then Ret st
      else
        let cur = wait_entry_of pos; fl = wq_flags (wqe_at st cur) in
        if mode = 0 \<or> fl AND mode \<noteq> 0 then
          exec_bind (call_wake_func cur key st) (\<lambda>(woke_up, st1).
            if woke_up \<and> fl AND WQ_FLAG_EXCLUSIVE \<noteq> 0 then
              (if nr - 1 = 0 then Ret st1
               else wakeup_loop fuel (lnext (links (sch st1)) pos) h mode (nr - 1) key st1)
            else wakeup_loop fuel (lnext (links (sch st1)) pos) h mode nr key st1)
        else wakeup_loop fuel (lnext (links (sch st)) pos) h mode nr key st)"

definition wakeup :: "nat \<Rightarrow> u64 \<Rightarrow> u32 \<Rightarrow> int \<Rightarrow> u32 option \<Rightarrow> waiting \<Rightarrow> waiting exec" where
  "wakeup fuel h mode nr_exclusive key st = wakeup_loop fuel (lnext (links (sch st)) h) h mode nr_exclusive key st"

definition wake_up :: "nat \<Rightarrow> u64 \<Rightarrow> waiting \<Rightarrow> waiting exec" where
  "wake_up fuel h = wakeup fuel h 0 1 None"

definition wake_up_all :: "nat \<Rightarrow> u64 \<Rightarrow> waiting \<Rightarrow> waiting exec" where
  "wake_up_all fuel h = wakeup fuel h 0 0 None"

section \<open>Wait queues as sequences\<close>

lemma wait_node_simps [simp]:
  "wait_entry_of (wait_node w) = w" "wait_node (wait_entry_of n) = n" "wait_node a = wait_node b \<longleftrightarrow> a = b"
  by (simp_all add: wait_node_def wait_entry_of_def)

lemma on_links_simps [simp]:
  "links (sch (on_links f st)) = f (links (sch st))" "wqe_at (on_links f st) = wqe_at st"
  "task_at (sch (on_links f st)) = task_at (sch st)" "run_queue (sch (on_links f st)) = run_queue (sch st)"
  by (simp_all add: on_links_def)

lemma task_set_state_simps [simp]:
  "links (task_set_state t s st) = links st" "run_queue (task_set_state t s st) = run_queue st"
  "current_task (task_set_state t s st) = current_task st"
  "state (task_at (task_set_state t s st) u) = (if u = t then s else state (task_at st u))"
  by (simp_all add: task_set_state_def)

lemma INIT_elsewhere:
  "a \<noteq> n \<Longrightarrow> lnext (INIT_LIST_HEAD n l) a = lnext l a \<and> lprev (INIT_LIST_HEAD n l) a = lprev l a"
  by (simp add: INIT_LIST_HEAD_def)

lemma ring_INIT_other: "ring l h xs \<Longrightarrow> n \<notin> set (h # xs) \<Longrightarrow> ring (INIT_LIST_HEAD n l) h xs"
  by (erule ring_other) (metis INIT_elsewhere)

lemma in_ring_not_empty: "ring l h xs \<Longrightarrow> n \<in> set xs \<Longrightarrow> \<not> list_empty n l"
proof -
  assume r: "ring l h xs" and n: "n \<in> set xs"
  obtain ys zs where xs: "xs = ys @ n # zs" using n by (auto simp: in_set_conv_decomp)
  then show "\<not> list_empty n l"
    using r by (cases zs; simp add: ring_def linked_append list_empty_def; metis)
qed

text \<open>Waking one task only touches the run queue.\<close>

lemma wake_links_elsewhere:
  assumes "sched_inv s ts" "a \<notin> insert (run_queue s) (run_node ` insert t (set ts))"
  shows "lnext (links (snd (wake_up_task t s))) a = lnext (links s) a
    \<and> lprev (links (snd (wake_up_task t s))) a = lprev (links s) a"
  using assms add_tail_elsewhere[of "links s" "run_queue s" "map run_node ts" a "run_node t"]
  by (auto simp: wake_up_task_def sched_enqueue_def sched_inv_def queue_def)

lemma wake_up_task_state:
  "state (task_at (snd (wake_up_task t s)) u) = (if u = t then TASK_RUNNING else state (task_at s u))"
  "run_queue (snd (wake_up_task t s)) = run_queue s"
  by (auto simp: wake_up_task_def sched_enqueue_def)

lemma linked_first: "linked l a xs b \<Longrightarrow> lnext l a = hd (xs @ [b])"
  by (cases xs) auto

text \<open>
  A walk over entries that all use the default wake function and are not exclusive. The nodes of
  the queue are apart from the nodes of the run queue and of the tasks that wait.
\<close>

definition plain_entry :: "waiting \<Rightarrow> u64 \<Rightarrow> bool" where
  "plain_entry st w \<longleftrightarrow> wq_func (wqe_at st w) = default_wake_function \<and> wq_flags (wqe_at st w) AND WQ_FLAG_EXCLUSIVE = 0"

text \<open>The tasks of a sequence of entries.\<close>

definition waiters :: "waiting \<Rightarrow> u64 list \<Rightarrow> u64 set" where
  "waiters st ws = (\<lambda>w. wq_private (wqe_at st w)) ` set ws"

definition apart :: "waiting \<Rightarrow> u64 list \<Rightarrow> u64 \<Rightarrow> u64 list \<Rightarrow> bool" where
  "apart st ts h ws \<longleftrightarrow> set (h # map wait_node ws) \<inter>
     insert (run_queue (sch st)) (run_node ` (set ts \<union> waiters st ws)) = {}
   \<and> run_queue (sch st) \<notin> run_node ` waiters st ws"

lemma apartD:
  assumes "apart st ts h ws"
  shows "w \<in> set ws \<Longrightarrow> run_node (wq_private (wqe_at st w)) \<noteq> run_queue (sch st)"
    and "x \<in> set (h # map wait_node ws) \<Longrightarrow> t \<in> set ts \<union> waiters st ws \<Longrightarrow> x \<noteq> run_queue (sch st) \<and> x \<noteq> run_node t"
  using assms unfolding apart_def waiters_def by (metis imageI, blast)

lemma waiters_Cons: "waiters st (u # us) = insert (wq_private (wqe_at st u)) (waiters st us)"
  by (simp add: waiters_def)

lemma waiters_in: "u \<in> set ws \<Longrightarrow> wq_private (wqe_at st u) \<in> waiters st ws"
  by (simp add: waiters_def)

lemma waiters_sch: "waiters (st\<lparr>sch := s\<rparr>) ws = waiters st ws"
  by (simp add: waiters_def)

lemma wakeup_walk:
  assumes "linked (links (sch st)) a (map wait_node us) h" "h \<notin> set (map wait_node us)"
    and "set us \<subseteq> set ws" "a \<in> set (h # map wait_node ws)" "apart st ts0 h ws"
    and "sched_inv (sch st) ts" "set ts \<subseteq> set ts0 \<union> waiters st ws"
    and "\<forall>w \<in> set ws. plain_entry st w" "length us < fuel"
  shows "\<exists>st' vs. wakeup_loop fuel (lnext (links (sch st)) a) h 0 nr key st = Ret st'
    \<and> sched_inv (sch st') (ts @ vs) \<and> wqe_at st' = wqe_at st
    \<and> set vs = {t \<in> waiters st us. state (task_at (sch st) t) \<noteq> TASK_RUNNING}
    \<and> (\<forall>t. state (task_at (sch st') t) =
         (if t \<in> waiters st us then TASK_RUNNING else state (task_at (sch st) t)))
    \<and> (\<forall>x \<in> set (h # map wait_node ws). lnext (links (sch st')) x = lnext (links (sch st)) x
         \<and> lprev (links (sch st')) x = lprev (links (sch st)) x)"
  using assms
proof (induction us arbitrary: a fuel st ts)
  case Nil
  then obtain f where f: "fuel = Suc f" by (cases fuel) auto
  from Nil.prems(1) have "lnext (links (sch st)) a = h" by simp
  with Nil.prems(6) f show ?case by (intro exI[of _ st] exI[of _ "[]"]) (simp add: waiters_def)
next
  case (Cons u us)
  then obtain f where f: "fuel = Suc f" by (cases fuel) auto
  let ?s = "sch st" and ?t = "wq_private (wqe_at st u)"
  define s1 where "s1 = snd (wake_up_task ?t ?s)"
  let ?st1 = "st\<lparr>sch := s1\<rparr>"
  have u: "u \<in> set ws" "wait_node u \<noteq> h" using Cons.prems(2,3) by auto
  have first: "lnext (links ?s) a = wait_node u" and rest: "linked (links ?s) (wait_node u) (map wait_node us) h"
    using Cons.prems(1) by auto
  have rn: "run_node ?t \<noteq> run_queue ?s" by (rule apartD(1)[OF Cons.prems(5) u(1)])
  have same: "lnext (links s1) x = lnext (links ?s) x \<and> lprev (links s1) x = lprev (links ?s) x"
    if "x \<in> set (h # map wait_node ws)" for x
    unfolding s1_def
  proof (rule wake_links_elsewhere[OF Cons.prems(6)])
    have "x \<noteq> run_queue ?s \<and> x \<noteq> run_node t" if "t \<in> insert ?t (set ts)" for t
      using apartD(2)[OF Cons.prems(5) \<open>x \<in> _\<close>, of t] that waiters_in[OF u(1), of st] Cons.prems(7) by blast
    then show "x \<notin> insert (run_queue ?s) (run_node ` insert ?t (set ts))" by blast
  qed
  have step: "wakeup_loop fuel (wait_node u) h 0 nr key st
      = wakeup_loop f (lnext (links s1) (wait_node u)) h 0 nr key ?st1"
    using u(2) Cons.prems(8) u(1)
    by (simp add: f call_wake_func_def plain_entry_def case_prod_unfold Let_def s1_def)
  have inv1: "\<exists>vs. sched_inv s1 (ts @ vs) \<and> set vs = (if state (task_at ?s ?t) \<noteq> TASK_RUNNING then {?t} else {})"
    using wake_inv[OF Cons.prems(6) rn]
    by (cases "state (task_at ?s ?t) = TASK_RUNNING") (auto simp: s1_def intro: exI[of _ "[]"])
  then obtain vs1 where v1: "sched_inv s1 (ts @ vs1)"
    "set vs1 = (if state (task_at ?s ?t) \<noteq> TASK_RUNNING then {?t} else {})" by blast
  have "linked (links s1) (wait_node u) (map wait_node us) h"
    using rest by (rule linked_cong) (use same u(1) Cons.prems(3) in auto)
  moreover have "apart ?st1 ts0 h ws"
    using Cons.prems(5) by (simp add: apart_def s1_def wake_up_task_state waiters_sch)
  moreover have "set (ts @ vs1) \<subseteq> set ts0 \<union> waiters ?st1 ws"
    using Cons.prems(7) v1(2) waiters_in[OF u(1), of st] by (auto simp: waiters_sch split: if_splits)
  ultimately obtain st' vs where IH: "wakeup_loop f (lnext (links s1) (wait_node u)) h 0 nr key ?st1 = Ret st'"
    "sched_inv (sch st') ((ts @ vs1) @ vs)" "wqe_at st' = wqe_at st"
    "set vs = {t \<in> waiters st us. state (task_at s1 t) \<noteq> TASK_RUNNING}"
    "\<forall>t. state (task_at (sch st') t) =
         (if t \<in> waiters st us then TASK_RUNNING else state (task_at s1 t))"
    "\<forall>x \<in> set (h # map wait_node ws). lnext (links (sch st')) x = lnext (links s1) x
         \<and> lprev (links (sch st')) x = lprev (links s1) x"
    using Cons.IH[of ?st1 "wait_node u" "ts @ vs1" f] Cons.prems(2,3,8,9) u(1) v1(1) f
    by (auto simp: plain_entry_def waiters_sch)
  have "set (vs1 @ vs) = {t \<in> waiters st (u # us). state (task_at ?s t) \<noteq> TASK_RUNNING}"
    using v1(2) IH(4) by (auto simp: s1_def wake_up_task_state waiters_Cons split: if_splits)
  moreover have "\<forall>t. state (task_at (sch st') t) =
      (if t \<in> waiters st (u # us) then TASK_RUNNING else state (task_at ?s t))"
    using IH(5) by (auto simp: s1_def wake_up_task_state waiters_Cons)
  moreover have "\<forall>x \<in> set (h # map wait_node ws). lnext (links (sch st')) x = lnext (links ?s) x
      \<and> lprev (links (sch st')) x = lprev (links ?s) x"
    using IH(6) same by simp
  ultimately show ?case
    using step IH(1-3) first by (intro exI[of _ st'] exI[of _ "vs1 @ vs"]) simp
qed

section \<open>Properties\<close>

definition witness_waiting :: waiting where
  "witness_waiting = \<lparr>sch = witness_sched\<lparr>links := \<lparr>
      lnext = (\<lambda>a. if a = 0x800 then 0x918 else if a = 0x918 then 0x800 else lnext witness_links a),
      lprev = (\<lambda>a. if a = 0x800 then 0x918 else if a = 0x918 then 0x800 else lprev witness_links a)\<rparr>,
      task_at := (task_at witness_sched)(0x3000 := (witness_task 3)\<lparr>state := TASK_INTERRUPTIBLE\<rparr>)\<rparr>,
    wqe_at = (\<lambda>_. \<lparr>wq_flags = 0, wq_private = 0x3000, wq_func = default_wake_function\<rparr>)\<rparr>"

text \<open>
  C21. \<^verbatim>\<open>wake_up\<close> on a well-formed wait queue whose entries are plain ends, makes every waiting
  task runnable, appends exactly those of them that slept to the run queue, and leaves the wait
  queue as it was.
\<close>

theorem wake_up_wakes_all:
  assumes "ring (links (sch st)) h (map wait_node ws)" and "sched_inv (sch st) ts"
    and "apart st ts h ws" and "\<forall>w \<in> set ws. plain_entry st w" and "length ws < fuel"
  shows "\<exists>st' vs. wake_up fuel h st = Ret st' \<and> sched_inv (sch st') (ts @ vs)
    \<and> set vs = {t \<in> waiters st ws. state (task_at (sch st) t) \<noteq> TASK_RUNNING}
    \<and> (\<forall>t. state (task_at (sch st') t) =
         (if t \<in> waiters st ws then TASK_RUNNING else state (task_at (sch st) t)))
    \<and> ring (links (sch st')) h (map wait_node ws)"
proof -
  have l: "linked (links (sch st)) h (map wait_node ws) h" "h \<notin> set (map wait_node ws)"
    using assms(1) by (auto simp: ring_def)
  have h: "h \<in> set (h # map wait_node ws)" "set ts \<subseteq> set ts \<union> waiters st ws" by auto
  from wakeup_walk[OF l subset_refl h(1) assms(3,2) h(2) assms(4,5), of 1 None] obtain st' vs where
    w: "wake_up fuel h st = Ret st'" "sched_inv (sch st') (ts @ vs)"
    "set vs = {t \<in> waiters st ws. state (task_at (sch st) t) \<noteq> TASK_RUNNING}"
    "\<forall>t. state (task_at (sch st') t) = (if t \<in> waiters st ws then TASK_RUNNING else state (task_at (sch st) t))"
    and same: "\<forall>x \<in> set (h # map wait_node ws). lnext (links (sch st')) x = lnext (links (sch st)) x
         \<and> lprev (links (sch st')) x = lprev (links (sch st)) x"
    unfolding wake_up_def wakeup_def by blast
  have "ring (links (sch st')) h (map wait_node ws)"
    using same by (intro ring_other[OF assms(1)]) blast
  with w show ?thesis by blast
qed

theorem wake_up_wakes_all_witness:
  "\<exists>st' vs. wake_up 2 0x800 witness_waiting = Ret st' \<and> sched_inv (sch st') ([0x1000, 0x2000] @ vs) \<and> set vs = {0x3000}"
proof -
  let ?l = "links (sch witness_waiting)"
  have r: "ring ?l 0x800 (map wait_node [0x900])"
    by (simp add: witness_waiting_def ring_def wait_node_def)
  have w: "waiters witness_waiting [0x900] = {0x3000}" by (simp add: waiters_def witness_waiting_def)
  have i: "sched_inv (sch witness_waiting) [0x1000, 0x2000]"
    by (simp add: sched_inv_def queue_def ring_def witness_waiting_def witness_sched_def witness_links_def
        witness_task_def run_node_def cpu_ok_def)
  have a: "apart witness_waiting [0x1000, 0x2000] 0x800 [0x900]"
    unfolding apart_def w by (simp add: witness_waiting_def witness_sched_def wait_node_def run_node_def)
  have p: "\<forall>w \<in> set [0x900]. plain_entry witness_waiting w" by (simp add: plain_entry_def witness_waiting_def)
  have s: "state (task_at (sch witness_waiting) 0x3000) \<noteq> TASK_RUNNING" by (simp add: witness_waiting_def)
  from wake_up_wakes_all[OF r i a p, of 2] obtain st' vs where
    "wake_up 2 0x800 witness_waiting = Ret st'" "sched_inv (sch st') ([0x1000, 0x2000] @ vs)" "set vs = {0x3000}"
    using s by (auto simp: w)
  then show ?thesis by blast
qed

text \<open>
  A wait is undone completely: \<^verbatim>\<open>prepare_to_wait\<close> appends a fresh entry once, however often
  the waiting loop calls it, and \<^verbatim>\<open>finish_wait\<close> removes it again and makes the task runnable;
  the queue of the other waiters is what it was.
\<close>

theorem wait_round_trip:
  fixes st w t h
  defines "st0 \<equiv> init_waitqueue_entry w t st"
  defines "st1 \<equiv> prepare_to_wait h w TASK_INTERRUPTIBLE st0"
  assumes "ring (links (sch st)) h xs" and "wait_node w \<notin> set (h # xs)"
  shows "ring (links (sch st1)) h (xs @ [wait_node w]) \<and> state (task_at (sch st1) t) = TASK_INTERRUPTIBLE
    \<and> prepare_to_wait h w TASK_INTERRUPTIBLE st1 = st1
    \<and> ring (links (sch (finish_wait w st1))) h xs \<and> list_empty (wait_node w) (links (sch (finish_wait w st1)))
    \<and> state (task_at (sch (finish_wait w st1)) t) = TASK_RUNNING"
proof -
  let ?n = "wait_node w"
  have r0: "ring (links (sch st0)) h xs"
    using ring_INIT_other[OF assms(3,4)] by (simp add: st0_def init_waitqueue_entry_def)
  have e0: "list_empty ?n (links (sch st0))"
    by (simp add: st0_def init_waitqueue_entry_def list_empty_def INIT_LIST_HEAD_def)
  have p: "wq_private (wqe_at st0 w) = t" by (simp add: st0_def init_waitqueue_entry_def)
  have l1: "links (sch st1) = list_add_tail ?n h (links (sch st0))" and p1: "wq_private (wqe_at st1 w) = t"
    and s1: "state (task_at (sch st1) t) = TASK_INTERRUPTIBLE"
    using e0 p by (simp_all add: st1_def prepare_to_wait_def Let_def)
  have r1: "ring (links (sch st1)) h (xs @ [?n])" unfolding l1 by (rule ring_add_tail[OF r0 assms(4)])
  have ne: "\<not> list_empty ?n (links (sch st1))" by (rule in_ring_not_empty[OF r1]) simp
  have again: "prepare_to_wait h w TASK_INTERRUPTIBLE st1 = st1"
  proof -
    have "task_set_state t TASK_INTERRUPTIBLE (sch st1) = sch st1"
      using s1 unfolding task_set_state_def
      by (metis fun_upd_triv sched.surjective sched.update_convs(2) task_struct.surjective task_struct.update_convs(2))
    then show ?thesis using ne p1 by (simp add: prepare_to_wait_def)
  qed
  have lf: "links (sch (finish_wait w st1)) = INIT_LIST_HEAD ?n (list_del ?n (links (sch st1)))"
    using ne by (simp add: finish_wait_def Let_def)
  have "ring (list_del ?n (links (sch st1))) h xs" using ring_del[of _ h xs ?n "[]"] r1 by simp
  then have "ring (links (sch (finish_wait w st1))) h xs"
    unfolding lf by (rule ring_INIT_other[OF _ assms(4)])
  moreover have "list_empty ?n (links (sch (finish_wait w st1)))"
    by (simp add: lf list_empty_def INIT_LIST_HEAD_def)
  moreover have "state (task_at (sch (finish_wait w st1)) t) = TASK_RUNNING"
    using p1 by (simp add: finish_wait_def Let_def)
  ultimately show ?thesis using r1 s1 again by blast
qed

theorem wait_round_trip_witness:
  "ring (links (sch (prepare_to_wait 0x800 0xa00 TASK_INTERRUPTIBLE (init_waitqueue_entry 0xa00 0x1000 witness_waiting))))
     0x800 [0x918, 0xa18]"
proof -
  have "ring (links (sch witness_waiting)) 0x800 [0x918]" "wait_node 0xa00 \<notin> set [0x800, 0x918]"
    by (simp_all add: witness_waiting_def ring_def wait_node_def)
  from wait_round_trip[where t = "0x1000", OF this] show ?thesis by (simp add: wait_node_def)
qed

end
