(* ===== verification/Tty.thy ===== *)
theory Tty
  imports Vga Wait
begin

text \<open>
  The terminal of \<^verbatim>\<open>kernel/tty.c\<close>: a ring buffer of 512 bytes between the keyboard interrupt,
  which pushes characters, and the tasks that read lines. Reading and writing go through a bounce
  buffer of 128 bytes, and a task that is not in the foreground or finds no complete line sleeps
  on a wait queue. What other tasks and interrupts do while it sleeps, and how much of a user
  buffer is accessible, are arguments.
\<close>

section \<open>State\<close>

abbreviation TTY_BUF_SIZE :: u64 where "TTY_BUF_SIZE \<equiv> 512"
abbreviation TTY_BOUNCE_BUF_SIZE :: u64 where "TTY_BOUNCE_BUF_SIZE \<equiv> 128"

record tty_struct =
  tbuf :: "u8 list"
  head :: u64
  tail :: u64
  canon_lines :: u64
  fg_pid :: u32
  leader_pid :: u32
  read_wait :: u64
  fg_wait :: u64

text \<open>The terminal with the screen it echoes to and the scheduler and wait queues.\<close>

record console =
  tty :: tty_struct
  screen :: vga
  wst :: waiting

section \<open>The line buffer\<close>

definition tty_has_line :: "tty_struct \<Rightarrow> bool" where
  "tty_has_line t \<longleftrightarrow> canon_lines t > 0"

definition tty_is_empty :: "tty_struct \<Rightarrow> bool" where
  "tty_is_empty t \<longleftrightarrow> head t = tail t"

definition is_fg :: "tty_struct \<Rightarrow> u32 \<Rightarrow> bool" where
  "is_fg t p \<longleftrightarrow> fg_pid t = p"

definition handle_backspace :: "console \<Rightarrow> console exec" where
  "handle_backspace c =
     (let t = tty c in
      if \<not> tty_is_empty t then
        let t1 = t\<lparr>tail := (if tail t = 0 then TTY_BUF_SIZE - 1 else tail t - 1)\<rparr>
        in exec_bind (vga_del_last (screen c)) (\<lambda>v. Ret (c\<lparr>tty := t1, screen := v\<rparr>))
      else Ret c)"

text \<open>The buffer half of \<^verbatim>\<open>tty_push_char\<close> for a character other than backspace.\<close>

definition tty_store :: "u8 \<Rightarrow> tty_struct \<Rightarrow> tty_struct exec" where
  "tty_store input t =
     (let tl = (tail t + 1) mod TTY_BUF_SIZE in
      exec_bind (if tl \<noteq> head t
                 then exec_bind (array_set (tbuf t) (unat (tail t)) input) (\<lambda>b. Ret (t\<lparr>tbuf := b, tail := tl\<rparr>))
                 else Ret t) (\<lambda>t1.
      Ret (if input = 10 then t1\<lparr>canon_lines := canon_lines t1 + 1\<rparr> else t1)))"

text \<open>\<open>fuel\<close> bounds the walk over the wait queue.\<close>

definition tty_push_char :: "nat \<Rightarrow> u8 \<Rightarrow> console \<Rightarrow> console exec" where
  "tty_push_char fuel input c =
     (if input = 8 then handle_backspace c
      else
        exec_bind (tty_store input (tty c)) (\<lambda>t1.
        exec_bind (vga_putchar input (screen c)) (\<lambda>v.
          let c1 = c\<lparr>tty := t1, screen := v\<rparr> in
          if input = 10 then
            exec_bind (wake_up fuel (read_wait t1) (wst c1)) (\<lambda>w. Ret (c1\<lparr>wst := w\<rparr>))
          else Ret c1)))"

text \<open>The copying loop of \<^verbatim>\<open>__tty_read\<close>: the bytes it stores in the bounce buffer and the
  terminal, from position \<open>i\<close> on.\<close>

function tty_copy :: "u64 \<Rightarrow> u64 \<Rightarrow> tty_struct \<Rightarrow> (u8 list \<times> tty_struct) exec" where
  "tty_copy i tocopy t =
     (if i < tocopy then
        exec_bind (array_get (tbuf t) (unat ((head t + i) mod TTY_BUF_SIZE))) (\<lambda>c.
          if c = 10 then Ret ([c], t\<lparr>canon_lines := canon_lines t - 1\<rparr>)
          else exec_bind (tty_copy (i + 1) tocopy t) (\<lambda>(cs, t1). Ret (c # cs, t1)))
      else Ret ([], t))"
  by auto
termination
  by (relation "measure (\<lambda>(i, n, t). unat n - unat i)") (auto simp: word_less_nat_alt unat_Suc_less)

declare tty_copy.simps [simp del]

definition tty_take :: "u64 \<Rightarrow> tty_struct \<Rightarrow> (u8 list \<times> tty_struct) exec" where
  "tty_take cnt t =
     (if \<not> tty_has_line t then Ret ([], t)
      else
        let available = (if head t < tail t then tail t - head t else TTY_BUF_SIZE - head t + tail t);
            tocopy = size_min available cnt
        in exec_bind (tty_copy 0 tocopy t) (\<lambda>(cs, t1).
             Ret (cs, t1\<lparr>head := (head t1 + of_nat (length cs)) mod TTY_BUF_SIZE\<rparr>)))"

section \<open>Reading and writing\<close>

text \<open>
  What one iteration of the loop of \<^verbatim>\<open>tty_read\<close> works on: \<open>ret\<close>, \<open>tot\<close>, the bounce buffer, the
  bytes that reached user memory, and the console.
\<close>

record reader =
  rret :: u64
  rtotal :: u64
  rbounce :: "u8 list"
  rout :: "u8 list"
  rcon :: console

text \<open>
  \<open>faults n\<close> is the number of bytes that \<^verbatim>\<open>copy_to_user\<close> leaves uncopied of \<open>n\<close> after the bytes
  copied so far, \<open>sleep\<close> what happens from the call of \<^verbatim>\<open>schedule\<close> until the task runs again,
  \<open>me\<close> the current task and \<open>wfg\<close>, \<open>wrd\<close> the two wait queue entries on its stack.
\<close>

definition reader_wait :: "u64 \<Rightarrow> u64 \<Rightarrow> console \<Rightarrow> console" where
  "reader_wait wfg wrd c = c\<lparr>wst := prepare_to_wait (read_wait (tty c)) wrd TASK_INTERRUPTIBLE
     (prepare_to_wait (fg_wait (tty c)) wfg TASK_INTERRUPTIBLE (wst c))\<rparr>"

definition reader_finish :: "u64 \<Rightarrow> u64 \<Rightarrow> console \<Rightarrow> console" where
  "reader_finish wfg wrd c = c\<lparr>wst := finish_wait wrd (finish_wait wfg (wst c))\<rparr>"

primrec tty_read_loop ::
    "nat \<Rightarrow> (u64 \<Rightarrow> u64 \<Rightarrow> u64) \<Rightarrow> (console \<Rightarrow> console) \<Rightarrow> u64 \<Rightarrow> u64 \<Rightarrow> u64 \<Rightarrow> u64 \<Rightarrow> reader \<Rightarrow> (int \<times> reader) exec" where
  "tty_read_loop 0 faults sleep me wfg wrd cnt r = Diverge"
| "tty_read_loop (Suc fuel) faults sleep me wfg wrd cnt r =
     (if rtotal r < cnt then
        let c1 = reader_wait wfg wrd (rcon r);
            lines_before = canon_lines (tty c1)
        in exec_bind (if is_fg (tty c1) (pid (task_at (sch (wst c1)) me))
                      then exec_bind (tty_take (size_min (cnt - rtotal r) TTY_BOUNCE_BUF_SIZE) (tty c1)) (\<lambda>(cs, t).
                        Ret (r\<lparr>rret := of_nat (length cs), rbounce := cs @ drop (length cs) (rbounce r),
                               rcon := c1\<lparr>tty := t\<rparr>\<rparr>))
                      else Ret (r\<lparr>rcon := c1\<rparr>)) (\<lambda>r1.
           let lines_after = canon_lines (tty (rcon r1)) in
           if rtotal r1 = 0 \<and> rret r1 = 0 then
             tty_read_loop fuel faults sleep me wfg wrd cnt (r1\<lparr>rcon := sleep (rcon r1)\<rparr>)
           else if rret r1 = 0 then Ret (sint (rtotal r1), r1\<lparr>rcon := reader_finish wfg wrd (rcon r1)\<rparr>)
           else
             let uncopied = faults (rtotal r1) (rret r1);
                 copied = rret r1 - uncopied;
                 r2 = r1\<lparr>rtotal := rtotal r1 + copied, rout := rout r1 @ take (unat copied) (rbounce r1)\<rparr>
             in if rtotal r2 = 0 then Ret (- EFAULT, r2)
                else if uncopied \<noteq> 0 \<or> lines_after \<noteq> lines_before
                then Ret (sint (rtotal r2), r2\<lparr>rcon := reader_finish wfg wrd (rcon r2)\<rparr>)
                else tty_read_loop fuel faults sleep me wfg wrd cnt r2)
      else Ret (sint (rtotal r), r\<lparr>rcon := reader_finish wfg wrd (rcon r)\<rparr>))"

definition tty_read ::
    "nat \<Rightarrow> (u64 \<Rightarrow> u64 \<Rightarrow> u64) \<Rightarrow> (console \<Rightarrow> console) \<Rightarrow> u64 \<Rightarrow> u64 \<Rightarrow> u64 \<Rightarrow> console \<Rightarrow> (int \<times> reader) exec" where
  "tty_read fuel faults sleep wfg wrd cnt c =
     (let me = current_task (sch (wst c));
          w1 = init_waitqueue_entry wrd me (init_waitqueue_entry wfg me (wst c));
          w2 = w1\<lparr>wqe_at := (wqe_at w1)(wfg := (wqe_at w1 wfg)\<lparr>wq_func := pid_filter_wake_func\<rparr>)\<rparr>
      in tty_read_loop fuel faults sleep me wfg wrd cnt
           \<lparr>rret = 0, rtotal = 0, rbounce = replicate 128 0, rout = [], rcon = c\<lparr>wst := w2\<rparr>\<rparr>)"

text \<open>The first loop of \<^verbatim>\<open>__tty_write\<close>: wait until the task is in the foreground.\<close>

primrec tty_wait_fg :: "nat \<Rightarrow> (console \<Rightarrow> console) \<Rightarrow> u64 \<Rightarrow> u64 \<Rightarrow> console \<Rightarrow> console exec" where
  "tty_wait_fg 0 sleep me w c = Diverge"
| "tty_wait_fg (Suc fuel) sleep me w c =
     (let c1 = c\<lparr>wst := prepare_to_wait (fg_wait (tty c)) w TASK_INTERRUPTIBLE (wst c)\<rparr> in
      if \<not> is_fg (tty c1) (pid (task_at (sch (wst c1)) me)) then tty_wait_fg fuel sleep me w (sleep c1)
      else Ret c1)"

text \<open>The second loop; \<open>udata\<close> are the bytes of the user buffer, \<open>faults\<close> as for reading.\<close>

primrec tty_write_loop ::
    "nat \<Rightarrow> (u64 \<Rightarrow> u64 \<Rightarrow> u64) \<Rightarrow> (nat \<Rightarrow> u8) \<Rightarrow> u64 \<Rightarrow> u64 \<Rightarrow> vga \<Rightarrow> (int \<times> vga) exec" where
  "tty_write_loop 0 faults udata cnt tot v = Diverge"
| "tty_write_loop (Suc fuel) faults udata cnt tot v =
     (if tot < cnt then
        let to_copy = size_min (cnt - tot) TTY_BOUNCE_BUF_SIZE;
            uncopied = faults tot to_copy;
            copied = to_copy - uncopied;
            bounce = map (\<lambda>i. udata (unat tot + i)) [0..<unat copied]
        in exec_bind (exec_fold vga_putchar bounce v) (\<lambda>v1.
             let total1 = tot + copied in
             if total1 = 0 then Ret (- EFAULT, v1)
             else if uncopied \<noteq> 0 then Ret (sint total1, v1)
             else tty_write_loop fuel faults udata cnt total1 v1)
      else Ret (sint tot, v))"

definition tty_write ::
    "nat \<Rightarrow> (u64 \<Rightarrow> u64 \<Rightarrow> u64) \<Rightarrow> (console \<Rightarrow> console) \<Rightarrow> (nat \<Rightarrow> u8) \<Rightarrow> u64 \<Rightarrow> u64 \<Rightarrow> console \<Rightarrow> (int \<times> console) exec" where
  "tty_write fuel faults sleep udata w cnt c =
     (let me = current_task (sch (wst c));
          w1 = init_waitqueue_entry w me (wst c);
          w2 = w1\<lparr>wqe_at := (wqe_at w1)(w := (wqe_at w1 w)\<lparr>wq_func := pid_filter_wake_func\<rparr>)\<rparr>
      in exec_bind (tty_wait_fg fuel sleep me w (c\<lparr>wst := w2\<rparr>)) (\<lambda>c1.
         let c2 = c1\<lparr>wst := finish_wait w (wst c1)\<rparr>
         in exec_bind (tty_write_loop fuel faults udata cnt 0 (screen c2)) (\<lambda>(n, v).
            Ret (n, c2\<lparr>screen := v\<rparr>))))"

section \<open>The buffer as a queue of characters\<close>

definition tty_ok :: "tty_struct \<Rightarrow> bool" where
  "tty_ok t \<longleftrightarrow> length (tbuf t) = 512 \<and> unat (head t) < 512 \<and> unat (tail t) < 512"

definition tty_len :: "tty_struct \<Rightarrow> nat" where
  "tty_len t = (unat (tail t) + 512 - unat (head t)) mod 512"

definition contents :: "tty_struct \<Rightarrow> u8 list" where
  "contents t = map (\<lambda>i. tbuf t ! ((unat (head t) + i) mod 512)) [0..<tty_len t]"

text \<open>The bytes up to and including the first newline.\<close>

fun first_line :: "u8 list \<Rightarrow> u8 list" where
  "first_line [] = []"
| "first_line (c # cs) = (if c = 10 then [c] else c # first_line cs)"

lemma first_line_prefix: "prefix (first_line cs) cs"
  by (induction cs) auto

lemma first_line_newline: "10 \<in> set (first_line cs) \<longleftrightarrow> 10 \<in> set cs"
  by (induction cs) auto

lemma length_contents [simp]: "length (contents t) = tty_len t"
  by (simp add: contents_def)

lemma contents_nth: "i < tty_len t \<Longrightarrow> contents t ! i = tbuf t ! ((unat (head t) + i) mod 512)"
  by (simp add: contents_def)

lemma tty_len_less: "tty_len t < 512"
  by (simp add: tty_len_def)

lemma tty_len_cases:
  assumes "tty_ok t"
  shows "tty_len t = (if unat (head t) \<le> unat (tail t) then unat (tail t) - unat (head t) else unat (tail t) + 512 - unat (head t))"
  using assms by (auto simp: tty_ok_def tty_len_def mod_if)

lemma tail_pos:
  assumes "tty_ok t"
  shows "unat (tail t) = (unat (head t) + tty_len t) mod 512"
  using assms by (auto simp: tty_len_cases tty_ok_def mod_if)

lemma unat_mod512: "unat a < 1024 \<Longrightarrow> unat b < 1024 \<Longrightarrow> unat ((a + b) mod TTY_BUF_SIZE) = (unat a + unat b) mod 512" for a b :: u64
  by (simp add: unat_mod unat_add_small)

lemma tty_store_spec:
  assumes ok: "tty_ok t"
  shows "\<exists>t'. tty_store c t = Ret t' \<and> tty_ok t' \<and> head t' = head t
    \<and> contents t' = (if tty_len t < 511 then contents t @ [c] else contents t)
    \<and> canon_lines t' = (if c = 10 then canon_lines t + 1 else canon_lines t)"
proof -
  let ?tl = "(tail t + 1) mod TTY_BUF_SIZE"
  have b: "length (tbuf t) = 512" "unat (head t) < 512" "unat (tail t) < 512" using ok by (auto simp: tty_ok_def)
  have tl: "unat ?tl = (unat (tail t) + 1) mod 512" using b unat_mod512[of "tail t" 1] by simp
  have full: "?tl = head t \<longleftrightarrow> tty_len t = 511"
    using tty_len_cases[OF ok] b by (auto simp: word_unat_eq_iff tl mod_if split: if_splits)
  show ?thesis
  proof (cases "?tl = head t")
    case True
    with full have f: "tty_len t = 511" by simp
    from True have "tty_store c t = Ret (if c = 10 then t\<lparr>canon_lines := canon_lines t + 1\<rparr> else t)"
      by (simp add: tty_store_def)
    then show ?thesis using ok f by (auto simp: tty_ok_def contents_def tty_len_def)
  next
    case False
    define u where "u = t\<lparr>tbuf := (tbuf t)[unat (tail t) := c], tail := ?tl\<rparr>"
    have r: "tty_store c t = Ret (if c = 10 then u\<lparr>canon_lines := canon_lines t + 1\<rparr> else u)"
      using False b by (simp add: tty_store_def u_def)
    have u: "tty_ok u" "head u = head t" "canon_lines u = canon_lines t"
      using b tl by (auto simp: u_def tty_ok_def)
    have lt: "tty_len t < 511" using False full tty_len_less[of t] by simp
    have len: "tty_len u = Suc (tty_len t)"
      using tty_len_cases[OF ok] tty_len_cases[OF u(1)] b lt by (auto simp: u_def tl mod_if split: if_splits)
    have "contents u = contents t @ [c]"
    proof (rule nth_equalityI)
      show "length (contents u) = length (contents t @ [c])" using len by simp
      fix i assume "i < length (contents u)"
      then have i: "i < Suc (tty_len t)" using len by simp
      have ne: "(unat (head t) + i) mod 512 \<noteq> unat (tail t)" if "i < tty_len t"
        unfolding tail_pos[OF ok] using that lt b(2) by (auto simp: mod_if split: if_splits)
      show "contents u ! i = (contents t @ [c]) ! i"
      proof (cases "i < tty_len t")
        case True
        with ne i len b show ?thesis by (simp add: contents_def u_def nth_append)
      next
        case False
        with i have "i = tty_len t" by simp
        with len b tail_pos[OF ok] show ?thesis by (simp add: contents_def u_def nth_append)
      qed
    qed
    then show ?thesis
      using r u lt by (auto simp: tty_ok_def contents_def tty_len_def)
  qed
qed

lemma tty_empty_iff: "tty_ok t \<Longrightarrow> tty_is_empty t \<longleftrightarrow> contents t = []"
  using tty_len_cases[of t] by (auto simp: tty_is_empty_def contents_def tty_ok_def word_unat_eq_iff)

lemma backspace_spec:
  assumes ok: "tty_ok (tty c)" and v: "vga_ok (screen c)"
  shows "\<exists>c'. handle_backspace c = Ret c' \<and> tty_ok (tty c') \<and> vga_ok (screen c')
    \<and> contents (tty c') = butlast (contents (tty c)) \<and> canon_lines (tty c') = canon_lines (tty c) \<and> wst c' = wst c"
proof (cases "tty_is_empty (tty c)")
  case True
  with tty_empty_iff[OF ok] ok v show ?thesis by (auto simp: handle_backspace_def)
next
  case False
  let ?t = "tty c"
  define u where "u = ?t\<lparr>tail := (if tail ?t = 0 then TTY_BUF_SIZE - 1 else tail ?t - 1)\<rparr>"
  obtain w where w: "vga_del_last (screen c) = Ret w" "vga_ok w" using del_last_ok[OF v] by blast
  have r: "handle_backspace c = Ret (c\<lparr>tty := u, screen := w\<rparr>)"
    using False w by (simp add: handle_backspace_def u_def Let_def)
  have b: "length (tbuf ?t) = 512" "unat (head ?t) < 512" "unat (tail ?t) < 512" using ok by (auto simp: tty_ok_def)
  have tl: "unat (tail u) = (if unat (tail ?t) = 0 then 511 else unat (tail ?t) - 1)"
    using unat_sub[of 1 "tail ?t"] unat_gt_0[of "tail ?t"]
    by (auto simp: u_def unat_eq_0 word_le_nat_alt Suc_leI)
  have u: "tty_ok u" "head u = head ?t" "tbuf u = tbuf ?t" "canon_lines u = canon_lines ?t"
    using b tl by (auto simp: u_def tty_ok_def)
  have ne: "unat (head ?t) \<noteq> unat (tail ?t)" using False by (simp add: tty_is_empty_def word_unat_eq_iff)
  have len: "tty_len u = tty_len ?t - 1"
    using tty_len_cases[OF ok] tty_len_cases[OF u(1)] b ne by (auto simp: tl u(2) split: if_splits)
  have "contents u = butlast (contents ?t)"
    by (rule nth_equalityI) (use len in \<open>auto simp: nth_butlast contents_def u\<close>)
  with r u w show ?thesis by auto
qed

lemma tty_copy_spec:
  assumes "tty_ok t" "unat n \<le> 512"
  shows "unat i \<le> unat n \<Longrightarrow> tty_copy i n t =
    (let cs = first_line (map (\<lambda>j. tbuf t ! ((unat (head t) + j) mod 512)) [unat i..<unat n])
     in Ret (cs, if 10 \<in> set cs then t\<lparr>canon_lines := canon_lines t - 1\<rparr> else t))"
  using assms
proof (induction i n t rule: tty_copy.induct)
  case (1 i n t)
  let ?c = "tbuf t ! ((unat (head t) + unat i) mod 512)"
  show ?case
  proof (cases "i < n")
    case False
    with "1.prems" show ?thesis by (subst tty_copy.simps) (simp add: word_less_nat_alt)
  next
    case True
    then have lt: "unat i < unat n" by (simp add: word_less_nat_alt)
    have m: "unat ((head t + i) mod TTY_BUF_SIZE) = (unat (head t) + unat i) mod 512"
      using "1.prems" lt by (intro unat_mod512) (auto simp: tty_ok_def)
    then have g: "array_get (tbuf t) (unat ((head t + i) mod TTY_BUF_SIZE)) = Ret ?c"
      using "1.prems" by (simp add: tty_ok_def)
    have s: "unat (i + 1) = Suc (unat i)" by (rule unat_Suc_less[OF True])
    have up: "[unat i..<unat n] = unat i # [Suc (unat i)..<unat n]" using lt by (simp add: upt_conv_Cons)
    show ?thesis
    proof (cases "?c = 10")
      case True
      then show ?thesis using \<open>i < n\<close> g up by (subst tty_copy.simps) simp
    next
      case False
      have IH: "tty_copy (i + 1) n t =
        (let cs = first_line (map (\<lambda>j. tbuf t ! ((unat (head t) + j) mod 512)) [Suc (unat i)..<unat n])
         in Ret (cs, if 10 \<in> set cs then t\<lparr>canon_lines := canon_lines t - 1\<rparr> else t))"
        using "1.IH"[OF True, of ?c] False "1.prems" lt s by simp
      show ?thesis using True g up False by (subst tty_copy.simps) (auto simp: IH Let_def)
    qed
  qed
qed

lemma ring_advance:
  assumes "L = (if h \<le> e then e - h else e + 512 - h)" "k \<le> L" "h < 512" "e < (512 :: nat)"
  shows "(if (h + k) mod 512 \<le> e then e - (h + k) mod 512 else e + 512 - (h + k) mod 512) = L - k"
proof -
  have "(h + k) mod 512 = (if h + k < 512 then h + k else h + k - 512)"
    using assms by (cases "h + k < 512") (auto simp: le_mod_geq split: if_splits)
  then show ?thesis using assms by (cases "h + k < 512"; cases "h \<le> e"; simp; linarith)
qed

text \<open>Reading takes the first line off the queue, or as much of it as is asked for.\<close>

lemma tty_take_spec:
  assumes ok: "tty_ok t" and line: "tty_has_line t" and ne: "contents t \<noteq> []"
  shows "\<exists>t'. tty_take n t = Ret (first_line (take (unat n) (contents t)), t') \<and> tty_ok t'
    \<and> contents t' = drop (length (first_line (take (unat n) (contents t)))) (contents t)
    \<and> canon_lines t' = (if 10 \<in> set (take (unat n) (contents t)) then canon_lines t - 1 else canon_lines t)"
proof -
  have b: "length (tbuf t) = 512" "unat (head t) < 512" "unat (tail t) < 512" using ok by (auto simp: tty_ok_def)
  let ?av = "if head t < tail t then tail t - head t else TTY_BUF_SIZE - head t + tail t"
  have nz: "unat (head t) \<noteq> unat (tail t)"
    using tty_empty_iff[OF ok] ne by (simp add: tty_is_empty_def word_unat_eq_iff)
  have s: "unat (TTY_BUF_SIZE - head t) = 512 - unat (head t)" using b by (simp add: unat_sub word_le_nat_alt)
  have av: "unat ?av = tty_len t"
    using tty_len_cases[OF ok] b nz s unat_sub[of "head t" "tail t"]
    by (auto simp: word_less_nat_alt word_le_nat_alt unat_add_small)
  let ?n = "size_min ?av n"
  have un: "unat ?n = min (tty_len t) (unat n)" using av by (auto simp: size_min_def word_less_nat_alt split: if_splits)
  have m: "map (\<lambda>j. tbuf t ! ((unat (head t) + j) mod 512)) [unat (0 :: u64)..<unat ?n] = take (unat n) (contents t)"
    by (auto simp: contents_def un take_map min_def)
  let ?cs = "first_line (take (unat n) (contents t))"
  have l: "length ?cs \<le> tty_len t"
    using prefix_length_le[OF first_line_prefix, of "take (unat n) (contents t)"] by simp
  have c: "tty_copy 0 ?n t = Ret (?cs, if 10 \<in> set ?cs then t\<lparr>canon_lines := canon_lines t - 1\<rparr> else t)"
    using tty_copy_spec[OF ok, of ?n 0] un tty_len_less[of t] m by (simp add: Let_def)
  define u where "u = t\<lparr>head := (head t + of_nat (length ?cs)) mod TTY_BUF_SIZE\<rparr>"
  have hd: "unat (head u) = (unat (head t) + length ?cs) mod 512"
    using b(2) l tty_len_less[of t] unat_mod512[of "head t" "of_nat (length ?cs)"] by (simp add: u_def unat_of_nat_small)
  have u: "tty_ok u" "tbuf u = tbuf t" "tail u = tail t" using b hd by (auto simp: u_def tty_ok_def)
  have len: "tty_len u = tty_len t - length ?cs"
    unfolding tty_len_cases[OF u(1)] hd u(3) using l tty_len_cases[OF ok] b by (intro ring_advance) auto
  have "contents u = drop (length ?cs) (contents t)"
  proof (rule nth_equalityI)
    fix i assume "i < length (contents u)"
    then have i: "i < tty_len u" "length ?cs + i < tty_len t" using len by auto
    then show "contents u ! i = drop (length ?cs) (contents t) ! i"
      by (simp add: contents_nth u hd mod_simps add.assoc)
  qed (simp add: len)
  moreover have "tty_take n t = Ret (?cs, if 10 \<in> set ?cs then u\<lparr>canon_lines := canon_lines t - 1\<rparr> else u)"
    using line c by (simp add: tty_take_def u_def Let_def)
  ultimately show ?thesis
    using u(1) by (auto simp: first_line_newline tty_ok_def contents_def tty_len_def u_def)
qed

section \<open>Writing in pieces\<close>

text \<open>A user buffer of which the first \<open>lim\<close> bytes are accessible.\<close>

definition faults_after :: "u64 \<Rightarrow> u64 \<Rightarrow> u64 \<Rightarrow> u64" where
  "faults_after lim done n = n - size_min n (lim - done)"

lemma unat_size_min: "unat (size_min a b) = min (unat a) (unat b)"
  by (auto simp: size_min_def word_less_nat_alt)

lemma unat_sub_le: "b \<le> a \<Longrightarrow> unat (a - b) = unat a - unat b" for a b :: u64
  by (simp add: unat_sub)

lemma sint_small: "unat x < 2 ^ 63 \<Longrightarrow> sint x = int (unat x)" for x :: u64
proof -
  assume a: "unat x < 2 ^ 63"
  have e: "int (unat x) = uint x" by simp
  have "uint x < 2 ^ 63" using a unfolding e[symmetric] by (metis of_nat_less_iff of_nat_numeral of_nat_power)
  then have "signed_take_bit 63 (uint x) = uint x"
    by (intro signed_take_bit_int_eq_self) (auto intro: order_trans[of _ 0])
  then show ?thesis unfolding e by (simp add: sint_uint)
qed

lemma exec_fold_bind: "exec_bind (exec_fold f xs v) (\<lambda>v. exec_bind (exec_fold f ys v) g) = exec_bind (exec_fold f (xs @ ys) v) g"
  by (simp add: exec_fold_append) (cases "exec_fold f xs v"; simp)

lemma tty_write_loop_spec:
  assumes "m = min (unat lim) (unat cnt)" "unat cnt < 2 ^ 63"
  shows "unat tot \<le> m \<Longrightarrow> (m - unat tot) div 128 + (if tot = cnt then 0 else 1) < fuel \<Longrightarrow>
    tty_write_loop fuel (faults_after lim) udata cnt tot v =
    exec_bind (exec_fold vga_putchar (map udata [unat tot..<m]) v)
      (\<lambda>v'. Ret (if m = 0 \<and> cnt \<noteq> 0 then - EFAULT else int m, v'))"
proof (induction fuel arbitrary: tot v)
  case (Suc fuel)
  have si: "sint x = int (unat x)" if "unat x \<le> unat cnt" for x :: u64
    using that assms(2) by (intro sint_small) simp
  show ?case
  proof (cases "tot < cnt")
    case False
    then have e: "unat tot = unat cnt" "m = unat cnt"
      using Suc.prems(1) assms(1) by (auto simp: word_less_nat_alt)
    then have "tot = cnt" by (simp add: word_unat_eq_iff)
    with False e si[of tot] show ?thesis by (auto simp: unat_eq_0)
  next
    case True
    then have lt: "unat tot < unat cnt" "tot \<noteq> cnt" by (auto simp: word_less_nat_alt)
    let ?n = "size_min (cnt - tot) TTY_BOUNCE_BUF_SIZE"
    let ?u = "faults_after lim tot ?n"
    have n: "unat ?n = min (unat cnt - unat tot) 128"
      using lt by (simp add: unat_size_min unat_sub_le word_le_nat_alt)
    have le: "unat tot \<le> unat lim" using Suc.prems(1) assms(1) by simp
    have d: "unat (lim - tot) = unat lim - unat tot" using le by (simp add: unat_sub word_le_nat_alt)
    have k: "unat (size_min ?n (lim - tot)) = min (min (unat cnt - unat tot) 128) (unat lim - unat tot)"
      by (simp only: unat_size_min[of ?n] n d)
    let ?k = "size_min ?n (lim - tot)"
    have c: "?n - ?u = ?k" by (simp add: faults_after_def)
    have kn: "unat ?k \<le> unat ?n" "unat ?k \<le> unat cnt - unat tot" "unat ?k \<le> unat lim - unat tot"
      unfolding k n by auto
    have us: "unat ?u = unat ?n - unat ?k"
      unfolding faults_after_def by (rule unat_sub) (simp add: word_le_nat_alt kn(1))
    have "unat ?u = 0 \<longleftrightarrow> unat ?k = unat ?n" unfolding us using kn(1) by arith
    then have u: "?u = 0 \<longleftrightarrow> unat ?k = unat ?n" unfolding unat_eq_0 .
    have t1: "unat (tot + ?k) = unat tot + unat ?k"
      using kn(2) lt assms(2) by (subst unat_add_small) auto
    have tm: "unat tot + unat ?k \<le> m" using kn lt(1) le unfolding assms(1) by linarith
    have z: "tot + ?k = 0 \<longleftrightarrow> unat tot + unat ?k = 0" using t1 by (metis unat_eq_0)
    have up: "map udata [unat tot..<m] = map (\<lambda>i. udata (unat tot + i)) [0..<unat ?k] @ map udata [unat (tot + ?k)..<m]"
    proof -
      have "[unat tot..<m] = [unat tot..<unat tot + unat ?k] @ [unat tot + unat ?k..<m]"
        using tm upt_add_eq_append[of "unat tot" "unat tot + unat ?k" "m - (unat tot + unat ?k)"] by simp
      moreover have "[unat tot..<unat tot + unat ?k] = map (\<lambda>i. unat tot + i) [0..<unat ?k]"
        using map_add_upt[of "unat tot" "unat ?k"] by (simp add: add.commute)
      ultimately show ?thesis by (simp add: t1)
    qed
    let ?rest = "\<lambda>v1. if tot + ?k = 0 then Ret (- EFAULT, v1) else if ?u \<noteq> 0 then Ret (sint (tot + ?k), v1)
        else tty_write_loop fuel (faults_after lim) udata cnt (tot + ?k) v1"
    have step: "tty_write_loop (Suc fuel) (faults_after lim) udata cnt tot v =
        exec_bind (exec_fold vga_putchar (map (\<lambda>i. udata (unat tot + i)) [0..<unat ?k]) v) ?rest"
      unfolding tty_write_loop.simps Let_def c using True by simp
    have rest: "?rest v1 = exec_bind (exec_fold vga_putchar (map udata [unat (tot + ?k)..<m]) v1)
        (\<lambda>v'. Ret (if m = 0 \<and> cnt \<noteq> 0 then - EFAULT else int m, v'))" for v1
    proof -
      consider (zero) "unat tot + unat ?k = 0" | (fault) "unat tot + unat ?k \<noteq> 0" "unat ?k < unat ?n"
        | (go) "unat tot + unat ?k \<noteq> 0" "unat ?k = unat ?n" using kn(1) by linarith
      then show ?thesis
      proof cases
        case zero
        then have "m = 0" using k lt assms(1) by (auto simp: min_def split: if_splits)
        with zero z lt show ?thesis by (auto simp: t1)
      next
        case fault
        then have e: "unat tot + unat ?k = m" using k n assms(1) le by (auto simp: min_def split: if_splits)
        have "sint (tot + ?k) = int m" using si[of "tot + ?k"] t1 e assms(1) by simp
        moreover have "tot + ?k \<noteq> 0" "?u \<noteq> 0" "m \<noteq> 0" using fault z u e by auto
        ultimately show ?thesis by (simp add: t1 e)
      next
        case go
        have "(m - unat (tot + ?k)) div 128 + (if tot + ?k = cnt then 0 else 1) < fuel"
        proof (cases "unat ?n = 128")
          case True
          with go Suc.prems(2) lt(2) tm show ?thesis
            unfolding t1 by (simp add: le_div_geq split: if_splits)
        next
          case False
          with go n have "unat (tot + ?k) = unat cnt" unfolding t1 using lt by (auto simp: min_def split: if_splits)
          then have "tot + ?k = cnt" "m \<le> unat (tot + ?k)" using assms(1) by (simp_all add: word_unat_eq_iff)
          with Suc.prems(2) lt(2) show ?thesis by auto
        qed
        from Suc.IH[OF _ this, of v1] tm
        have "tty_write_loop fuel (faults_after lim) udata cnt (tot + ?k) v1 =
          exec_bind (exec_fold vga_putchar (map udata [unat (tot + ?k)..<m]) v1)
            (\<lambda>v'. Ret (if m = 0 \<and> cnt \<noteq> 0 then - EFAULT else int m, v'))" unfolding t1 by blast
        moreover have "tot + ?k \<noteq> 0" "?u = 0" using go z u by auto
        ultimately show ?thesis by (simp only: if_False simp_thms)
      qed
    qed
    show ?thesis unfolding step up exec_fold_bind[symmetric] using rest by simp
  qed
qed simp

section \<open>Properties\<close>

text \<open>
  C18. The ring buffer is a queue of at most 511 characters: a character is appended or, when the
  buffer is full, dropped; backspace takes the last one off; and a read with a complete line
  pending takes the first line off, or as much of it as fits the request.
\<close>

theorem tty_is_line_queue:
  assumes "tty_ok (tty c)" and "vga_ok (screen c)"
  shows "(\<exists>t'. tty_store ch (tty c) = Ret t' \<and> tty_ok t'
      \<and> contents t' = (if length (contents (tty c)) < 511 then contents (tty c) @ [ch] else contents (tty c)))
    \<and> (\<exists>c'. handle_backspace c = Ret c' \<and> tty_ok (tty c') \<and> vga_ok (screen c')
      \<and> contents (tty c') = butlast (contents (tty c)))
    \<and> (tty_has_line (tty c) \<longrightarrow> contents (tty c) \<noteq> [] \<longrightarrow>
       (\<exists>t'. tty_take n (tty c) = Ret (first_line (take (unat n) (contents (tty c))), t') \<and> tty_ok t'
        \<and> contents t' = drop (length (first_line (take (unat n) (contents (tty c))))) (contents (tty c))))"
  using tty_store_spec[OF assms(1), of ch] backspace_spec[OF assms] tty_take_spec[OF assms(1), of n]
  by auto

definition witness_tty :: tty_struct where
  "witness_tty = \<lparr>tbuf = [0x62, 10] @ replicate 509 0 @ [0x61], head = 511, tail = 2, canon_lines = 1, fg_pid = 1,
     leader_pid = 1, read_wait = 0x800, fg_wait = 0xc00\<rparr>"

definition witness_console :: console where
  "witness_console = \<lparr>tty = witness_tty, screen = \<lparr>vga_buf = replicate 2000 0, vx = 0, vy = 0\<rparr>, wst = witness_waiting\<rparr>"

lemma witness_console_ok: "tty_ok (tty witness_console)" "vga_ok (screen witness_console)"
  "tty_has_line (tty witness_console)"
  by (simp_all add: witness_console_def witness_tty_def tty_ok_def vga_ok_def tty_has_line_def)

lemma witness_contents: "contents (tty witness_console) = [0x61, 0x62, 10]"
  unfolding witness_console_def witness_tty_def by code_simp

theorem tty_is_line_queue_witness:
  "\<exists>t'. tty_take 64 (tty witness_console) = Ret ([0x61, 0x62, 10], t') \<and> contents t' = []"
  using tty_is_line_queue[OF witness_console_ok(1,2), of 0 64] witness_console_ok(3)
  by (auto simp: witness_contents)

text \<open>
  C23. Writing to the terminal in pieces of 128 bytes is the same as printing the accessible part
  of the user buffer character by character: the count that \<^verbatim>\<open>tty_write\<close> returns is the length of
  that part, and \<^verbatim>\<open>-EFAULT\<close> if nothing of a non-empty buffer is accessible.
\<close>

theorem tty_write_prints:
  assumes "is_fg (tty c) (pid (task_at (sch (wst c)) (current_task (sch (wst c)))))"
    and "unat cnt < 2 ^ 63" "m = min (unat lim) (unat cnt)" "m div 128 + 2 \<le> fuel"
  shows "\<exists>c'. tty c' = tty c \<and> tty_write fuel (faults_after lim) sleep udata w cnt c =
    exec_bind (exec_fold vga_putchar (map udata [0..<m]) (screen c))
      (\<lambda>v. Ret (if m = 0 \<and> cnt \<noteq> 0 then - EFAULT else int m, c'\<lparr>screen := v\<rparr>))"
proof -
  let ?me = "current_task (sch (wst c))"
  let ?w1 = "init_waitqueue_entry w ?me (wst c)"
  let ?w2 = "?w1\<lparr>wqe_at := (wqe_at ?w1)(w := (wqe_at ?w1 w)\<lparr>wq_func := pid_filter_wake_func\<rparr>)\<rparr>"
  let ?c1 = "c\<lparr>wst := prepare_to_wait (fg_wait (tty c)) w TASK_INTERRUPTIBLE ?w2\<rparr>"
  obtain f where f: "fuel = Suc f" using assms(4) by (cases fuel) auto
  have pid: "pid (task_at (sch (prepare_to_wait h w s st)) t) = pid (task_at (sch st) t)" for h w s st t
    by (simp add: prepare_to_wait_def Let_def task_set_state_def)
  have "pid (task_at (sch ?w2) t) = pid (task_at (sch (wst c)) t)" for t
    by (simp add: init_waitqueue_entry_def)
  then have wt: "tty_wait_fg fuel sleep ?me w (c\<lparr>wst := ?w2\<rparr>) = Ret ?c1"
    using assms(1) by (simp add: f Let_def pid)
  let ?c2 = "?c1\<lparr>wst := finish_wait w (wst ?c1)\<rparr>"
  have "tty_write_loop fuel (faults_after lim) udata cnt 0 (screen c) =
      exec_bind (exec_fold vga_putchar (map udata [unat (0 :: u64)..<m]) (screen c))
        (\<lambda>v'. Ret (if m = 0 \<and> cnt \<noteq> 0 then - EFAULT else int m, v'))"
    using assms(4) by (intro tty_write_loop_spec[OF assms(3,2)]) auto
  then have "tty_write fuel (faults_after lim) sleep udata w cnt c =
    exec_bind (exec_fold vga_putchar (map udata [0..<m]) (screen c))
      (\<lambda>v. Ret (if m = 0 \<and> cnt \<noteq> 0 then - EFAULT else int m, ?c2\<lparr>screen := v\<rparr>))"
    using wt by (simp add: tty_write_def Let_def) (cases "exec_fold vga_putchar (map udata [0..<m]) (screen c)"; simp)
  moreover have "tty ?c2 = tty c" by simp
  ultimately show ?thesis by blast
qed

theorem tty_write_prints_witness:
  "\<exists>c'. tty c' = witness_tty \<and> tty_write 3 (faults_after 1000) (\<lambda>c. c) (\<lambda>i. 0x41) 0xe00 2 witness_console =
    exec_bind (exec_fold vga_putchar [0x41, 0x41] (screen witness_console)) (\<lambda>v. Ret (2, c'\<lparr>screen := v\<rparr>))"
proof -
  have "is_fg (tty witness_console) (pid (task_at (sch (wst witness_console)) (current_task (sch (wst witness_console)))))"
    by (simp add: is_fg_def witness_console_def witness_tty_def witness_waiting_def witness_sched_def witness_task_def)
  moreover have "unat (2 :: u64) < 2 ^ 63" "2 = min (unat (1000 :: u64)) (unat (2 :: u64))" "2 div 128 + 2 \<le> (3 :: nat)"
    by simp_all
  ultimately obtain c' where c': "tty c' = tty witness_console"
    "tty_write 3 (faults_after 1000) (\<lambda>c. c) (\<lambda>i. 0x41) 0xe00 2 witness_console =
      exec_bind (exec_fold vga_putchar (map (\<lambda>i. 0x41) [0..<2]) (screen witness_console))
        (\<lambda>v. Ret (if (2 :: nat) = 0 \<and> (2 :: u64) \<noteq> 0 then - EFAULT else int 2, c'\<lparr>screen := v\<rparr>))"
    using tty_write_prints[of witness_console 2 2 1000 3 "\<lambda>c. c" "\<lambda>i. 0x41" "0xe00"] by blast
  have u: "map (\<lambda>i. 0x41) [0..<2] = [0x41, 0x41 :: u8]" by (simp add: numeral_2_eq_2)
  have t: "tty witness_console = witness_tty" by (simp add: witness_console_def)
  have i: "(if (2 :: nat) = 0 \<and> (2 :: u64) \<noteq> 0 then - EFAULT else int 2) = 2" by simp
  show ?thesis using c' unfolding i u t by blast
qed

text \<open>
  C37. Erasing a newline confuses the line count: after a newline and a backspace the buffer is
  empty but still counts a line, the next read returns the erased newline, and then the terminal
  believes that 511 characters of old buffer contents are waiting.
\<close>

theorem tty_erased_newline_reread:
  assumes "tty_ok (tty c)" "vga_ok (screen c)" "contents (tty c) = []" "canon_lines (tty c) = 0" "0 < n"
  shows "\<exists>t1 c2 t3. tty_store 10 (tty c) = Ret t1 \<and> handle_backspace (c\<lparr>tty := t1\<rparr>) = Ret c2
    \<and> contents (tty c2) = [] \<and> tty_take n (tty c2) = Ret ([10], t3) \<and> length (contents t3) = 511"
proof -
  let ?t = "tty c"
  have b: "length (tbuf ?t) = 512" "unat (head ?t) < 512" "unat (tail ?t) < 512" using assms(1) by (auto simp: tty_ok_def)
  have e: "tail ?t = head ?t" using tty_empty_iff[OF assms(1)] assms(3) by (simp add: tty_is_empty_def)
  define nt where "nt = (tail ?t + 1) mod TTY_BUF_SIZE"
  have tl: "unat nt = (unat (head ?t) + 1) mod 512" using b unat_mod512[of "tail ?t" 1] e by (simp add: nt_def)
  have ne: "unat nt \<noteq> unat (head ?t)" unfolding tl using b(2) by (cases "unat (head ?t) = 511") auto
  then have ne': "nt \<noteq> head ?t" by auto
  define t1 where "t1 = ?t\<lparr>tbuf := (tbuf ?t)[unat (head ?t) := 10], tail := nt, canon_lines := 1\<rparr>"
  have r1: "tty_store 10 ?t = Ret t1"
    using ne' b e assms(4) by (simp add: tty_store_def t1_def Let_def nt_def)
  have ok1: "tty_ok t1" using b tl by (simp add: t1_def tty_ok_def)
  obtain v where v: "vga_del_last (screen c) = Ret v" using del_last_ok[OF assms(2)] by blast
  define t2 where "t2 = t1\<lparr>tail := head ?t\<rparr>"
  have bk: "(if nt = 0 then TTY_BUF_SIZE - 1 else nt - 1) = head ?t"
  proof (rule word_unat_eq_iff[THEN iffD2])
    show "unat (if nt = 0 then TTY_BUF_SIZE - 1 else nt - 1) = unat (head ?t)"
    proof (cases "unat (head ?t) = 511")
      case True
      then have "nt = 0" using tl by (simp flip: unat_eq_0)
      with True show ?thesis by simp
    next
      case False
      then have "unat nt = unat (head ?t) + 1" using tl b(2) by simp
      moreover from this have "nt \<noteq> 0" by (metis unat_eq_0 Suc_eq_plus1 nat.distinct(1))
      ultimately show ?thesis using unat_sub[of 1 nt] by (simp add: word_le_nat_alt)
    qed
  qed
  have r2: "handle_backspace (c\<lparr>tty := t1\<rparr>) = Ret (c\<lparr>tty := t2, screen := v\<rparr>)"
    using ne' v bk by (cases "nt = 0") (simp_all add: handle_backspace_def tty_is_empty_def t1_def t2_def Let_def)
  have ok2: "tty_ok t2" "tty_has_line t2" "head t2 = head ?t" "tail t2 = head ?t" "tbuf t2 ! unat (head ?t) = 10"
    using b by (auto simp: t2_def t1_def tty_ok_def tty_has_line_def)
  have c2: "contents t2 = []" using ok2 by (simp add: contents_def tty_len_def)
  let ?k = "size_min (TTY_BUF_SIZE - head ?t + head ?t) n"
  have k: "0 < unat ?k" "unat ?k \<le> 512" using assms(5) by (auto simp: unat_size_min word_less_nat_alt)
  have "[0..<unat ?k] = 0 # [1..<unat ?k]" using k(1) by (simp add: upt_conv_Cons)
  then have cp: "tty_copy 0 ?k t2 = Ret ([10], t2\<lparr>canon_lines := canon_lines t2 - 1\<rparr>)"
    using tty_copy_spec[OF ok2(1) k(2), of 0] ok2(3,5) b(2) by (simp add: Let_def)
  let ?t3 = "t2\<lparr>canon_lines := canon_lines t2 - 1, head := (head ?t + 1) mod TTY_BUF_SIZE\<rparr>"
  have r3: "tty_take n t2 = Ret ([10], ?t3)"
    using ok2(2-4) cp by (simp add: tty_take_def Let_def)
  have "tty_len ?t3 = 511"
    unfolding tty_len_def using tl ok2(4) e b(2) unfolding nt_def by (cases "unat (head ?t) = 511") simp_all
  with r1 r2 r3 c2 show ?thesis
    by (intro exI[of _ t1] exI[of _ "c\<lparr>tty := t2, screen := v\<rparr>"] exI[of _ ?t3]) simp
qed

theorem tty_erased_newline_reread_witness:
  "\<exists>t1 c2 t3. tty_store 10 (tty (witness_console\<lparr>tty := witness_tty\<lparr>head := 2, canon_lines := 0\<rparr>\<rparr>)) = Ret t1
    \<and> handle_backspace (witness_console\<lparr>tty := t1\<rparr>) = Ret c2 \<and> tty_take 64 (tty c2) = Ret ([10], t3) \<and> length (contents t3) = 511"
proof -
  let ?c = "witness_console\<lparr>tty := witness_tty\<lparr>head := 2, canon_lines := 0\<rparr>\<rparr>"
  have "tty_ok (tty ?c)" "vga_ok (screen ?c)" "contents (tty ?c) = []" "canon_lines (tty ?c) = 0" "0 < (64 :: u64)"
    using witness_console_ok(2) by (simp_all add: witness_tty_def tty_ok_def contents_def tty_len_def)
  from tty_erased_newline_reread[OF this] show ?thesis by auto
qed

end
