(* ===== verification/Cpu_Tables.thy ===== *)
theory Cpu_Tables
  imports Prelude
begin

text \<open>
  The tables the processor reads and the code behind its vectors: the segment descriptors and
  the task state segment of \<^verbatim>\<open>arch/x86_64/gdt.c\<close>, the interrupt gates of
  \<^verbatim>\<open>arch/x86_64/idt/idt.c\<close>, the fault handlers with the exception table of
  \<^verbatim>\<open>arch/x86_64/idt/exceptions.c\<close>, and the interrupt request table of \<^verbatim>\<open>kernel/irq.c\<close>. Function
  addresses and the tables that the linker lays out are arguments.
\<close>

section \<open>Segments\<close>

record gdt_entry =
  limit_low :: u16
  base_low :: u16
  base_mid :: u8
  access_byte :: u8
  limit_high_and_flags :: u8
  base_high :: u8

record tss_struct =
  rsv1 :: u32
  rsp0_low :: u32
  rsp0_high :: u32
  rsp1_low :: u32
  rsp1_high :: u32
  rsp2_low :: u32
  rsp2_high :: u32
  rsv2 :: u32
  rsv3 :: u32
  ist_low :: "u32 list"
  ist_high :: "u32 list"
  rsv4 :: u32
  rsv5 :: u32
  rsv6 :: u16
  iopb :: u16

abbreviation sizeof_tss :: nat where "sizeof_tss \<equiv> 104"

definition tss_zero :: tss_struct where
  "tss_zero = \<lparr>rsv1 = 0, rsp0_low = 0, rsp0_high = 0, rsp1_low = 0, rsp1_high = 0, rsp2_low = 0, rsp2_high = 0,
     rsv2 = 0, rsv3 = 0, ist_low = replicate 7 0, ist_high = replicate 7 0, rsv4 = 0, rsv5 = 0, rsv6 = 0, iopb = 0\<rparr>"

definition mk_gdt :: "u16 \<Rightarrow> u16 \<Rightarrow> u8 \<Rightarrow> u8 \<Rightarrow> u8 \<Rightarrow> u8 \<Rightarrow> gdt_entry" where
  "mk_gdt ll bl bm ab lf bh = \<lparr>limit_low = ll, base_low = bl, base_mid = bm, access_byte = ab,
     limit_high_and_flags = lf, base_high = bh\<rparr>"

definition gdt_static :: "gdt_entry list" where
  "gdt_static =
     [mk_gdt 0 0 0 0 0 0,
      mk_gdt 0xffff 0 0 0x9b 0xaf 0,
      mk_gdt 0xffff 0 0 0x93 0xcf 0,
      mk_gdt 0xffff 0 0 0xf3 0xcf 0,
      mk_gdt 0xffff 0 0 0xfb 0xaf 0,
      mk_gdt 0 0 0 0 0 0,
      mk_gdt 0 0 0 0 0 0]"

text \<open>\<open>base\<close> is the address of \<^verbatim>\<open>tss\<close>.\<close>

definition init_tss :: "u64 \<Rightarrow> gdt_entry list \<times> tss_struct \<Rightarrow> gdt_entry list \<times> tss_struct" where
  "init_tss base = (\<lambda>(gdt, tss).
     let limit = (of_nat sizeof_tss - 1 :: u32);
         tss' = tss\<lparr>iopb := of_nat sizeof_tss\<rparr>;
         e5 = (gdt ! 5)\<lparr>limit_low := ucast (limit AND 0xffff), base_low := ucast (base AND 0xffff),
                base_mid := ucast (drop_bit 16 base AND 0xffff), access_byte := 0x89,
                limit_high_and_flags := ucast (drop_bit 16 limit AND 0x0F),
                base_high := ucast (drop_bit 24 base AND 0xFF)\<rparr>;
         e6 = (gdt ! 6)\<lparr>limit_low := ucast (drop_bit 32 base AND 0xFFFF), base_low := ucast (drop_bit 48 base AND 0xFFFF),
                base_mid := 0, access_byte := 0, limit_high_and_flags := 0, base_high := 0\<rparr>
     in (gdt[5 := e5, 6 := e6], tss'))"

record gdtr =
  gdtr_limit :: u16
  gdtr_base :: u64

definition gdt_init :: "u64 \<Rightarrow> u64 \<Rightarrow> gdt_entry list \<times> tss_struct \<Rightarrow> gdtr \<times> gdt_entry list \<times> tss_struct" where
  "gdt_init gdt_addr tss_addr st =
     (let st' = init_tss tss_addr st
      in (\<lparr>gdtr_limit = of_nat (8 * length (fst st')) - 1, gdtr_base = gdt_addr\<rparr>, st'))"

definition tss_set_rsp0 :: "u64 \<Rightarrow> tss_struct \<Rightarrow> tss_struct" where
  "tss_set_rsp0 addr tss = tss\<lparr>rsp0_low := ucast addr, rsp0_high := ucast (drop_bit 32 addr)\<rparr>"

section \<open>Interrupt gates\<close>

record interrupt_descriptor =
  offset_low :: u16
  selector :: u16
  ist :: u8
  type_dp_present :: u8
  offset_mid :: u16
  offset_high :: u32
  rsv :: u32

abbreviation KERNEL_CS :: u16 where "KERNEL_CS \<equiv> 0x08"
abbreviation IDT_COUNT :: nat where "IDT_COUNT \<equiv> 256"
abbreviation EXCEPTION_COUNT :: nat where "EXCEPTION_COUNT \<equiv> 32"

definition register_intrerrupt ::
    "nat \<Rightarrow> u64 \<Rightarrow> interrupt_descriptor list \<Rightarrow> interrupt_descriptor list exec" where
  "register_intrerrupt int_no handler_addr idt =
     array_set idt int_no
       \<lparr>offset_low = ucast (handler_addr AND 0xFFFF), selector = KERNEL_CS, ist = 0, type_dp_present = 0x8E,
        offset_mid = ucast (drop_bit 16 handler_addr AND 0xFFFF),
        offset_high = ucast (drop_bit 32 handler_addr AND 0xFFFFFFFF), rsv = 0\<rparr>"

text \<open>The addresses of the handlers that the linker provides.\<close>

record vectors =
  dummy_interrupt_handler :: u64
  int0 :: u64
  int13 :: u64
  int14 :: u64
  irq_tramp_table :: "u64 list"

definition register_eceptions :: "vectors \<Rightarrow> interrupt_descriptor list \<Rightarrow> interrupt_descriptor list exec" where
  "register_eceptions vs idt =
     exec_bind (exec_fold (\<lambda>i. register_intrerrupt i (dummy_interrupt_handler vs)) [0..<EXCEPTION_COUNT] idt)
       (\<lambda>idt1. exec_bind (register_intrerrupt 0 (int0 vs) idt1)
       (\<lambda>idt2. exec_bind (register_intrerrupt 13 (int13 vs) idt2)
       (\<lambda>idt3. register_intrerrupt 14 (int14 vs) idt3)))"

definition zero_gate :: interrupt_descriptor where
  "zero_gate = \<lparr>offset_low = 0, selector = 0, ist = 0, type_dp_present = 0, offset_mid = 0, offset_high = 0, rsv = 0\<rparr>"

definition idt_init :: "vectors \<Rightarrow> interrupt_descriptor list exec" where
  "idt_init vs =
     exec_bind (register_eceptions vs (replicate IDT_COUNT zero_gate)) (\<lambda>idt1.
     exec_fold (\<lambda>v idt. exec_bind (array_get (irq_tramp_table vs) (v - 32)) (\<lambda>h. register_intrerrupt v h idt))
       [32..<IDT_COUNT] idt1)"

section \<open>Faults\<close>

record interrupt_frame =
  fr_regs :: "u64 list"
  error_code :: u64
  fr_rip :: u64
  fr_cs :: u64
  fr_rflags :: u64
  fr_rsp :: u64
  fr_ss :: u64

record ex_table_entry =
  fault_addr :: u64
  fixup_addr :: u64

primrec fixup_exception :: "ex_table_entry list \<Rightarrow> interrupt_frame \<Rightarrow> bool \<times> interrupt_frame" where
  "fixup_exception [] frame = (False, frame)"
| "fixup_exception (e # es) frame =
     (if fault_addr e = fr_rip frame then (True, frame\<lparr>fr_rip := fixup_addr e\<rparr>) else fixup_exception es frame)"

definition divide_by_zero_handler :: "interrupt_frame \<Rightarrow> interrupt_frame exec" where
  "divide_by_zero_handler frame = Panic ''Exception: divide by zero.''"

definition general_protection_handler :: "ex_table_entry list \<Rightarrow> interrupt_frame \<Rightarrow> interrupt_frame exec" where
  "general_protection_handler tab frame =
     (if fr_cs frame = ucast KERNEL_CS then
        let (fixed, frame') = fixup_exception tab frame in
        if fixed then Ret frame'
        else Panic ''Excpetion: general protection fault from kernel code with no fixup.''
      else Panic ''Exception: general protection fault from user code.'')"

definition page_fault_handler :: "ex_table_entry list \<Rightarrow> interrupt_frame \<Rightarrow> interrupt_frame exec" where
  "page_fault_handler tab frame =
     (if fr_cs frame = ucast KERNEL_CS then
        let (fixed, frame') = fixup_exception tab frame in
        if fixed then Ret frame'
        else Panic ''Excpetion: page fault from kernel code with no fixup.''
      else Panic ''Exception: page fault from user code.'')"

section \<open>Interrupt requests\<close>

record irq_desc =
  handler :: u64
  dev :: u64
  irq_name :: u64

abbreviation NR_IRQS :: u32 where "NR_IRQS \<equiv> 224"
abbreviation IRQ_BASE :: u64 where "IRQ_BASE \<equiv> 32"
abbreviation VEC_SPURIOUS :: u64 where "VEC_SPURIOUS \<equiv> 0xFF"
abbreviation IRQ_TIMER :: u32 where "IRQ_TIMER \<equiv> 0"
abbreviation IRQ_PS2 :: u32 where "IRQ_PS2 \<equiv> 1"

text \<open>\<open>routed\<close> lists the calls of \<^verbatim>\<open>apic_route_irq\<close>, latest first.\<close>

record irqs =
  irq_table :: "irq_desc list"
  routed :: "(u8 \<times> u8) list"

definition arch_irq_enable :: "u32 \<Rightarrow> irqs \<Rightarrow> irqs" where
  "arch_irq_enable irq st =
     (if irq = IRQ_TIMER then st
      else st\<lparr>routed := (ucast irq, ucast (ucast IRQ_BASE + irq)) # routed st\<rparr>)"

definition request_irq :: "u32 \<Rightarrow> u64 \<Rightarrow> u64 \<Rightarrow> u64 \<Rightarrow> irqs \<Rightarrow> (int \<times> irqs) exec" where
  "request_irq irq fn nm d st =
     (if irq \<ge> NR_IRQS then Ret (- 1, st)
      else exec_bind (array_get (irq_table st) (unat irq)) (\<lambda>e.
        if handler e \<noteq> 0 then Ret (- 1, st)
        else exec_bind (array_set (irq_table st) (unat irq) \<lparr>handler = fn, dev = d, irq_name = nm\<rparr>) (\<lambda>tab.
          Ret (0, arch_irq_enable irq (st\<lparr>irq_table := tab\<rparr>)))))"

text \<open>The handler and device that \<^verbatim>\<open>irq_handle\<close> calls, if any.\<close>

definition irq_handle :: "u32 \<Rightarrow> irqs \<Rightarrow> (u64 \<times> u64) option exec" where
  "irq_handle irq st =
     exec_bind (array_get (irq_table st) (unat irq)) (\<lambda>d.
       Ret (if handler d \<noteq> 0 then Some (handler d, dev d) else None))"

text \<open>The router acknowledges the interrupt first: the result says whether it did.\<close>

definition irq_router :: "u64 \<Rightarrow> irqs \<Rightarrow> (bool \<times> (u64 \<times> u64) option) exec" where
  "irq_router vector st =
     (if vector = VEC_SPURIOUS then Ret (False, None)
      else exec_bind (irq_handle (ucast (vector - IRQ_BASE)) st) (\<lambda>c. Ret (True, c)))"

section \<open>What the processor reads\<close>

text \<open>The base address in a system descriptor of two entries, and the target of a gate.\<close>

definition tss_base :: "gdt_entry \<Rightarrow> gdt_entry \<Rightarrow> u64" where
  "tss_base e f = ucast (base_low e) OR push_bit 16 (ucast (base_mid e)) OR push_bit 24 (ucast (base_high e))
     OR push_bit 32 (ucast (limit_low f)) OR push_bit 48 (ucast (base_low f))"

definition tss_limit :: "gdt_entry \<Rightarrow> u64" where
  "tss_limit e = ucast (limit_low e) OR push_bit 16 (ucast (limit_high_and_flags e AND 0x0F))"

definition gate_offset :: "interrupt_descriptor \<Rightarrow> u64" where
  "gate_offset g = ucast (offset_low g) OR push_bit 16 (ucast (offset_mid g)) OR push_bit 32 (ucast (offset_high g))"

definition tss_rsp0_value :: "tss_struct \<Rightarrow> u64" where
  "tss_rsp0_value t = ucast (rsp0_low t) OR push_bit 32 (ucast (rsp0_high t))"

text \<open>Present, privilege level, code or data, and 64-bit code, of a segment.\<close>

definition seg_present :: "gdt_entry \<Rightarrow> bool" where "seg_present e \<longleftrightarrow> bit (access_byte e) 7"
definition seg_dpl :: "gdt_entry \<Rightarrow> u8" where "seg_dpl e = drop_bit 5 (access_byte e) AND 3"
definition seg_code :: "gdt_entry \<Rightarrow> bool" where "seg_code e \<longleftrightarrow> bit (access_byte e) 4 \<and> bit (access_byte e) 3"
definition seg_data :: "gdt_entry \<Rightarrow> bool" where "seg_data e \<longleftrightarrow> bit (access_byte e) 4 \<and> \<not> bit (access_byte e) 3 \<and> bit (access_byte e) 1"
definition seg_long :: "gdt_entry \<Rightarrow> bool" where "seg_long e \<longleftrightarrow> bit (limit_high_and_flags e) 5 \<and> \<not> bit (limit_high_and_flags e) 6"

lemma word_masks:
  "(0xffff :: u64) = mask 16" "(0xFF :: u64) = mask 8" "(0xFFFFFFFF :: u64) = mask 32"
  by (simp_all add: mask_eq_exp_minus_1)

lemma gate_offset_register:
  "gate_offset \<lparr>offset_low = ucast (a AND 0xFFFF), selector = s, ist = i, type_dp_present = t,
     offset_mid = ucast (drop_bit 16 a AND 0xFFFF), offset_high = ucast (drop_bit 32 a AND 0xFFFFFFFF), rsv = r\<rparr> = a"
  unfolding gate_offset_def word_masks
proof (rule bit_word_eqI)
  fix n assume "n < LENGTH(64)"
  then consider "n < 16" | "16 \<le> n" "n < 32" | "32 \<le> n" "n < 64" by fastforce
  then show "bit (ucast (offset_low \<lparr>offset_low = ucast (a AND mask 16), selector = s, ist = i, type_dp_present = t,
     offset_mid = ucast (drop_bit 16 a AND mask 16), offset_high = ucast (drop_bit 32 a AND mask 32), rsv = r\<rparr>)
      OR push_bit 16 (ucast (offset_mid \<lparr>offset_low = ucast (a AND mask 16), selector = s, ist = i, type_dp_present = t,
     offset_mid = ucast (drop_bit 16 a AND mask 16), offset_high = ucast (drop_bit 32 a AND mask 32), rsv = r\<rparr>))
      OR push_bit 32 (ucast (offset_high \<lparr>offset_low = ucast (a AND mask 16), selector = s, ist = i, type_dp_present = t,
     offset_mid = ucast (drop_bit 16 a AND mask 16), offset_high = ucast (drop_bit 32 a AND mask 32), rsv = r\<rparr>)) :: u64) n = bit a n"
    by cases (auto simp: bit_simps less_diff_conv2)
qed

lemma tss_parts:
  "base_low (e\<lparr>limit_low := l, base_low := bl, base_mid := bm, access_byte := a, limit_high_and_flags := f, base_high := bh\<rparr>) = bl"
  "base_mid (e\<lparr>limit_low := l, base_low := bl, base_mid := bm, access_byte := a, limit_high_and_flags := f, base_high := bh\<rparr>) = bm"
  "base_high (e\<lparr>limit_low := l, base_low := bl, base_mid := bm, access_byte := a, limit_high_and_flags := f, base_high := bh\<rparr>) = bh"
  "limit_low (e\<lparr>limit_low := l, base_low := bl, base_mid := bm, access_byte := a, limit_high_and_flags := f, base_high := bh\<rparr>) = l"
  by simp_all

lemma tss_base_init:
  "tss_base (e\<lparr>limit_low := l, base_low := ucast (b AND 0xffff), base_mid := ucast (drop_bit 16 b AND 0xffff),
       access_byte := a, limit_high_and_flags := f, base_high := ucast (drop_bit 24 b AND 0xFF)\<rparr>)
     (g\<lparr>limit_low := ucast (drop_bit 32 b AND 0xffff), base_low := ucast (drop_bit 48 b AND 0xffff),
       base_mid := 0, access_byte := 0, limit_high_and_flags := 0, base_high := 0\<rparr>) = b"
  unfolding tss_base_def word_masks tss_parts
proof (rule bit_word_eqI)
  fix n assume "n < LENGTH(64)"
  then consider "n < 16" | "16 \<le> n" "n < 24" | "24 \<le> n" "n < 32" | "32 \<le> n" "n < 48" | "48 \<le> n" "n < 64" by fastforce
  then show "bit (ucast (ucast (b AND mask 16) :: u16) OR push_bit 16 (ucast (ucast (drop_bit 16 b AND mask 16) :: u8))
      OR push_bit 24 (ucast (ucast (drop_bit 24 b AND mask 8) :: u8)) OR push_bit 32 (ucast (ucast (drop_bit 32 b AND mask 16) :: u16))
      OR push_bit 48 (ucast (ucast (drop_bit 48 b AND mask 16) :: u16)) :: u64) n = bit b n"
    by cases (auto simp: bit_simps less_diff_conv2)
qed

section \<open>Properties\<close>

text \<open>
  C30. The descriptor table that \<^verbatim>\<open>gdt_init\<close> loads is what the rest of the kernel relies on: the
  selectors 0x08 and 0x10 are a 64-bit code and a data segment of privilege 0, 0x20 and 0x18 the
  same of privilege 3, the system descriptor at 0x28 gives back the address and size of the task
  state segment, and \<^verbatim>\<open>tss_set_rsp0\<close> stores the whole stack address.
\<close>

theorem gdt_init_descriptors:
  fixes tss_addr gdt_addr
  defines "gdt \<equiv> fst (snd (gdt_init gdt_addr tss_addr (gdt_static, tss_zero)))"
  shows "seg_code (gdt ! 1) \<and> seg_long (gdt ! 1) \<and> seg_dpl (gdt ! 1) = 0 \<and> seg_present (gdt ! 1)
    \<and> seg_data (gdt ! 2) \<and> seg_dpl (gdt ! 2) = 0 \<and> seg_present (gdt ! 2)
    \<and> seg_data (gdt ! 3) \<and> seg_dpl (gdt ! 3) = 3 \<and> seg_present (gdt ! 3)
    \<and> seg_code (gdt ! 4) \<and> seg_long (gdt ! 4) \<and> seg_dpl (gdt ! 4) = 3 \<and> seg_present (gdt ! 4)
    \<and> tss_base (gdt ! 5) (gdt ! 6) = tss_addr \<and> tss_limit (gdt ! 5) = 103 \<and> access_byte (gdt ! 5) = 0x89
    \<and> length gdt = 7 \<and> gdtr_limit (fst (gdt_init gdt_addr tss_addr (gdt_static, tss_zero))) = 55
    \<and> tss_rsp0_value (tss_set_rsp0 stack (snd (snd (gdt_init gdt_addr tss_addr (gdt_static, tss_zero))))) = stack"
proof -
  have g: "gdt = gdt_static[5 := (gdt_static ! 5)\<lparr>limit_low := 103, base_low := ucast (tss_addr AND 0xffff),
                base_mid := ucast (drop_bit 16 tss_addr AND 0xffff), access_byte := 0x89,
                limit_high_and_flags := 0, base_high := ucast (drop_bit 24 tss_addr AND 0xFF)\<rparr>,
       6 := (gdt_static ! 6)\<lparr>limit_low := ucast (drop_bit 32 tss_addr AND 0xffff), base_low := ucast (drop_bit 48 tss_addr AND 0xffff),
                base_mid := 0, access_byte := 0, limit_high_and_flags := 0, base_high := 0\<rparr>]"
    by (simp add: gdt_def gdt_init_def init_tss_def Let_def)
  have seg: "gdt ! 1 = mk_gdt 0xffff 0 0 0x9b 0xaf 0" "gdt ! 2 = mk_gdt 0xffff 0 0 0x93 0xcf 0"
    "gdt ! 3 = mk_gdt 0xffff 0 0 0xf3 0xcf 0" "gdt ! 4 = mk_gdt 0xffff 0 0 0xfb 0xaf 0" "length gdt = 7"
    unfolding g gdt_static_def by simp_all
  have "tss_base (gdt ! 5) (gdt ! 6) = tss_addr" "tss_limit (gdt ! 5) = 103" "access_byte (gdt ! 5) = 0x89"
    unfolding g by (simp_all add: gdt_static_def tss_base_init tss_limit_def)
  moreover have "tss_rsp0_value (tss_set_rsp0 stack t) = stack" for t
    unfolding tss_rsp0_value_def tss_set_rsp0_def
    by (rule bit_word_eqI) (auto simp: bit_simps)
  moreover have "gdtr_limit (fst (gdt_init gdt_addr tss_addr (gdt_static, tss_zero))) = 55"
    by (simp add: gdt_init_def init_tss_def Let_def gdt_static_def)
  moreover have "seg_code (gdt ! 1) \<and> seg_long (gdt ! 1) \<and> seg_dpl (gdt ! 1) = 0 \<and> seg_present (gdt ! 1)
    \<and> seg_data (gdt ! 2) \<and> seg_dpl (gdt ! 2) = 0 \<and> seg_present (gdt ! 2)"
    "seg_data (gdt ! 3) \<and> seg_dpl (gdt ! 3) = 3 \<and> seg_present (gdt ! 3)
    \<and> seg_code (gdt ! 4) \<and> seg_long (gdt ! 4) \<and> seg_dpl (gdt ! 4) = 3 \<and> seg_present (gdt ! 4)"
    unfolding seg by code_simp+
  ultimately show ?thesis using seg(5) by simp
qed

text \<open>
  C33. \<^verbatim>\<open>idt_init\<close> fills all 256 gates: the exceptions with handlers of their own lead to those, the
  other exceptions to the dummy handler, and the vectors from 32 on to their trampolines, all as
  present interrupt gates into the kernel code segment.
\<close>

definition vector_target :: "vectors \<Rightarrow> nat \<Rightarrow> u64" where
  "vector_target vs v = (if v = 0 then int0 vs else if v = 13 then int13 vs else if v = 14 then int14 vs
     else if v < 32 then dummy_interrupt_handler vs else irq_tramp_table vs ! (v - 32))"

definition gate_for :: "u64 \<Rightarrow> interrupt_descriptor" where
  "gate_for a = \<lparr>offset_low = ucast (a AND 0xFFFF), selector = KERNEL_CS, ist = 0, type_dp_present = 0x8E,
        offset_mid = ucast (drop_bit 16 a AND 0xFFFF), offset_high = ucast (drop_bit 32 a AND 0xFFFFFFFF), rsv = 0\<rparr>"

lemma register_gate: "register_intrerrupt i a idt = array_set idt i (gate_for a)"
  by (simp add: register_intrerrupt_def gate_for_def)

lemma register_loop:
  assumes "lo \<le> hi" "hi \<le> length idt" "\<And>i. lo \<le> i \<Longrightarrow> i < hi \<Longrightarrow> h i = Ret (a i)"
  shows "\<exists>idt'. exec_fold (\<lambda>v idt. exec_bind (h v) (\<lambda>x. register_intrerrupt v x idt)) [lo..<hi] idt = Ret idt'
    \<and> length idt' = length idt \<and> (\<forall>i < length idt. idt' ! i = (if lo \<le> i \<and> i < hi then gate_for (a i) else idt ! i))"
proof -
  let ?P = "\<lambda>k idt'. length idt' = length idt \<and> (\<forall>i < length idt. idt' ! i = (if lo \<le> i \<and> i < k then gate_for (a i) else idt ! i))"
  show ?thesis
    by (rule exec_fold_upt_rule[where P = ?P, OF assms(1)])
      (use assms(2,3) in \<open>auto simp: register_gate nth_list_update less_Suc_eq\<close>)
qed

theorem idt_init_gates:
  assumes "length (irq_tramp_table vs) = 224"
  shows "\<exists>idt. idt_init vs = Ret idt \<and> length idt = IDT_COUNT
    \<and> (\<forall>v < IDT_COUNT. gate_offset (idt ! v) = vector_target vs v \<and> selector (idt ! v) = KERNEL_CS
         \<and> type_dp_present (idt ! v) = 0x8E)"
proof -
  obtain i1 where i1: "exec_fold (\<lambda>i. register_intrerrupt i (dummy_interrupt_handler vs)) [0..<EXCEPTION_COUNT]
      (replicate IDT_COUNT zero_gate) = Ret i1" "length i1 = IDT_COUNT"
    "\<forall>i < IDT_COUNT. i1 ! i = (if i < 32 then gate_for (dummy_interrupt_handler vs) else zero_gate)"
    using register_loop[of 0 32 "replicate IDT_COUNT zero_gate" "\<lambda>_. Ret (dummy_interrupt_handler vs)" "\<lambda>_. dummy_interrupt_handler vs"]
    by auto
  let ?i2 = "i1[0 := gate_for (int0 vs), 13 := gate_for (int13 vs), 14 := gate_for (int14 vs)]"
  have r: "register_eceptions vs (replicate IDT_COUNT zero_gate) = Ret ?i2"
    using i1(1,2) by (simp add: register_eceptions_def register_gate)
  obtain i3 where i3: "exec_fold (\<lambda>v idt. exec_bind (array_get (irq_tramp_table vs) (v - 32)) (\<lambda>h. register_intrerrupt v h idt))
       [32..<IDT_COUNT] ?i2 = Ret i3" "length i3 = IDT_COUNT"
    "\<forall>i < IDT_COUNT. i3 ! i = (if 32 \<le> i then gate_for (irq_tramp_table vs ! (i - 32)) else ?i2 ! i)"
    using register_loop[of 32 IDT_COUNT ?i2 "\<lambda>v. array_get (irq_tramp_table vs) (v - 32)" "\<lambda>v. irq_tramp_table vs ! (v - 32)"]
      assms i1(2) by auto
  have g: "i3 ! v = gate_for (vector_target vs v)" if "v < IDT_COUNT" for v
    using i3(3) i1(2,3) that by (simp add: nth_list_update vector_target_def)
  have "idt_init vs = Ret i3" using r i3(1) by (simp add: idt_init_def)
  moreover have "gate_offset (gate_for a) = a \<and> selector (gate_for a) = KERNEL_CS \<and> type_dp_present (gate_for a) = 0x8E" for a
    unfolding gate_for_def by (simp only: gate_offset_register) simp
  ultimately show ?thesis using g i3(2) by auto
qed

theorem idt_init_gates_witness:
  "\<exists>idt. idt_init \<lparr>dummy_interrupt_handler = 0xFFFFFFFF81001000, int0 = 1, int13 = 2, int14 = 3,
      irq_tramp_table = replicate 224 0xFFFFFFFF81002000\<rparr> = Ret idt
    \<and> gate_offset (idt ! 33) = 0xFFFFFFFF81002000"
  using idt_init_gates[of "\<lparr>dummy_interrupt_handler = 0xFFFFFFFF81001000, int0 = 1, int13 = 2, int14 = 3,
      irq_tramp_table = replicate 224 0xFFFFFFFF81002000\<rparr>"]
  by (auto simp: vector_target_def)


lemma unat_ucast_up: "unat (ucast x :: u64) = unat x" for x :: u32
proof -
  have "unat x < 2 ^ 64" using unsigned_less[of x, where ?'a = nat] by simp
  then show ?thesis by (simp add: unsigned_ucast_eq take_bit_nat_eq_self)
qed

text \<open>
  An interrupt line has one handler: \<^verbatim>\<open>request_irq\<close> registers the handler of a free line,
  after which the line's vector calls exactly that handler with its device, and every further
  request for the line fails without changing anything.
\<close>

theorem request_irq_once:
  assumes "length (irq_table st) = 224" and "irq < NR_IRQS" and "irq \<noteq> 223"
    and "handler (irq_table st ! unat irq) = 0" and "fn \<noteq> 0"
  shows "\<exists>st'. request_irq irq fn nm d st = Ret (0, st')
    \<and> irq_router (ucast irq + IRQ_BASE) st' = Ret (True, Some (fn, d))
    \<and> request_irq irq fn2 nm2 d2 st' = Ret (- 1, st')
    \<and> (\<forall>j < 224. j \<noteq> unat irq \<longrightarrow> irq_table st' ! j = irq_table st ! j)"
proof -
  have i: "unat irq < 224" using assms(2) by (simp add: word_less_nat_alt)
  let ?st = "arch_irq_enable irq (st\<lparr>irq_table := (irq_table st)[unat irq := \<lparr>handler = fn, dev = d, irq_name = nm\<rparr>]\<rparr>)"
  have t: "irq_table ?st = (irq_table st)[unat irq := \<lparr>handler = fn, dev = d, irq_name = nm\<rparr>]"
    by (simp add: arch_irq_enable_def)
  have r: "request_irq irq fn nm d st = Ret (0, ?st)"
    using assms i by (simp add: request_irq_def linorder_not_le)
  have u: "unat (ucast irq + IRQ_BASE :: u64) = unat irq + 32" 
    using i by (subst unat_add_small) (auto simp: unat_ucast_up)
  have v: "(ucast irq + IRQ_BASE :: u64) \<noteq> VEC_SPURIOUS"
  proof
    assume "(ucast irq + IRQ_BASE :: u64) = VEC_SPURIOUS"
    with u have "unat irq = 223" by simp
    then have "irq = 223" by (simp add: word_unat_eq_iff)
    with assms(3) show False by simp
  qed
  have w: "ucast (ucast irq + IRQ_BASE - IRQ_BASE :: u64) = irq"
    by simp (rule bit_word_eqI, simp add: bit_simps)
  have "irq_router (ucast irq + IRQ_BASE) ?st = Ret (True, Some (fn, d))"
    using v i assms(1,5) unfolding irq_router_def w by (simp add: irq_handle_def t)
  moreover have "request_irq irq fn2 nm2 d2 ?st = Ret (- 1, ?st)"
    using i assms(1,2,5) by (simp add: request_irq_def t linorder_not_le)
  moreover have "\<forall>j < 224. j \<noteq> unat irq \<longrightarrow> irq_table ?st ! j = irq_table st ! j"
    by (simp add: t)
  ultimately show ?thesis using r by blast
qed

theorem request_irq_once_witness:
  "\<exists>st'. request_irq 1 0x1234 0 7 \<lparr>irq_table = replicate 224 \<lparr>handler = 0, dev = 0, irq_name = 0\<rparr>, routed = []\<rparr> = Ret (0, st')
     \<and> irq_router 33 st' = Ret (True, Some (0x1234, 7))"
  using request_irq_once[of "\<lparr>irq_table = replicate 224 \<lparr>handler = 0, dev = 0, irq_name = 0\<rparr>, routed = []\<rparr>" 1 "0x1234" 0 7 0 0 0]
  by auto

end
