(* ===== verification/Keyboard.thy ===== *)
theory Keyboard
  imports Tty Cpu_Tables Device_Io
begin

text \<open>
  The keyboard: the controller and interrupt handler of \<^verbatim>\<open>drivers/ps2/ps2.c\<close>, and \<^verbatim>\<open>kernel/input.c\<close>, which
  turns key events into the characters of the terminal.
\<close>

section \<open>Keys (include/input.h)\<close>

abbreviation KEY_RESERVED :: nat where "KEY_RESERVED \<equiv> 0"
abbreviation KEY_ESC :: nat where "KEY_ESC \<equiv> 1"
abbreviation KEY_1 :: nat where "KEY_1 \<equiv> 2"
abbreviation KEY_2 :: nat where "KEY_2 \<equiv> 3"
abbreviation KEY_3 :: nat where "KEY_3 \<equiv> 4"
abbreviation KEY_4 :: nat where "KEY_4 \<equiv> 5"
abbreviation KEY_5 :: nat where "KEY_5 \<equiv> 6"
abbreviation KEY_6 :: nat where "KEY_6 \<equiv> 7"
abbreviation KEY_7 :: nat where "KEY_7 \<equiv> 8"
abbreviation KEY_8 :: nat where "KEY_8 \<equiv> 9"
abbreviation KEY_9 :: nat where "KEY_9 \<equiv> 10"
abbreviation KEY_0 :: nat where "KEY_0 \<equiv> 11"
abbreviation KEY_MINUS :: nat where "KEY_MINUS \<equiv> 12"
abbreviation KEY_EQUAL :: nat where "KEY_EQUAL \<equiv> 13"
abbreviation KEY_BACKSPACE :: nat where "KEY_BACKSPACE \<equiv> 14"
abbreviation KEY_TAB :: nat where "KEY_TAB \<equiv> 15"
abbreviation KEY_Q :: nat where "KEY_Q \<equiv> 16"
abbreviation KEY_W :: nat where "KEY_W \<equiv> 17"
abbreviation KEY_E :: nat where "KEY_E \<equiv> 18"
abbreviation KEY_R :: nat where "KEY_R \<equiv> 19"
abbreviation KEY_T :: nat where "KEY_T \<equiv> 20"
abbreviation KEY_Y :: nat where "KEY_Y \<equiv> 21"
abbreviation KEY_U :: nat where "KEY_U \<equiv> 22"
abbreviation KEY_I :: nat where "KEY_I \<equiv> 23"
abbreviation KEY_O :: nat where "KEY_O \<equiv> 24"
abbreviation KEY_P :: nat where "KEY_P \<equiv> 25"
abbreviation KEY_LEFTBRACE :: nat where "KEY_LEFTBRACE \<equiv> 26"
abbreviation KEY_RIGHTBRACE :: nat where "KEY_RIGHTBRACE \<equiv> 27"
abbreviation KEY_ENTER :: nat where "KEY_ENTER \<equiv> 28"
abbreviation KEY_LEFTCTRL :: nat where "KEY_LEFTCTRL \<equiv> 29"
abbreviation KEY_A :: nat where "KEY_A \<equiv> 30"
abbreviation KEY_S :: nat where "KEY_S \<equiv> 31"
abbreviation KEY_D :: nat where "KEY_D \<equiv> 32"
abbreviation KEY_F :: nat where "KEY_F \<equiv> 33"
abbreviation KEY_G :: nat where "KEY_G \<equiv> 34"
abbreviation KEY_H :: nat where "KEY_H \<equiv> 35"
abbreviation KEY_J :: nat where "KEY_J \<equiv> 36"
abbreviation KEY_K :: nat where "KEY_K \<equiv> 37"
abbreviation KEY_L :: nat where "KEY_L \<equiv> 38"
abbreviation KEY_SEMICOLON :: nat where "KEY_SEMICOLON \<equiv> 39"
abbreviation KEY_APOSTROPHE :: nat where "KEY_APOSTROPHE \<equiv> 40"
abbreviation KEY_GRAVE :: nat where "KEY_GRAVE \<equiv> 41"
abbreviation KEY_LEFTSHIFT :: nat where "KEY_LEFTSHIFT \<equiv> 42"
abbreviation KEY_BACKSLASH :: nat where "KEY_BACKSLASH \<equiv> 43"
abbreviation KEY_Z :: nat where "KEY_Z \<equiv> 44"
abbreviation KEY_X :: nat where "KEY_X \<equiv> 45"
abbreviation KEY_C :: nat where "KEY_C \<equiv> 46"
abbreviation KEY_V :: nat where "KEY_V \<equiv> 47"
abbreviation KEY_B :: nat where "KEY_B \<equiv> 48"
abbreviation KEY_N :: nat where "KEY_N \<equiv> 49"
abbreviation KEY_M :: nat where "KEY_M \<equiv> 50"
abbreviation KEY_COMMA :: nat where "KEY_COMMA \<equiv> 51"
abbreviation KEY_DOT :: nat where "KEY_DOT \<equiv> 52"
abbreviation KEY_SLASH :: nat where "KEY_SLASH \<equiv> 53"
abbreviation KEY_RIGHTSHIFT :: nat where "KEY_RIGHTSHIFT \<equiv> 54"
abbreviation KEY_KPASTERISK :: nat where "KEY_KPASTERISK \<equiv> 55"
abbreviation KEY_LEFTALT :: nat where "KEY_LEFTALT \<equiv> 56"
abbreviation KEY_SPACE :: nat where "KEY_SPACE \<equiv> 57"
abbreviation KEY_CAPSLOCK :: nat where "KEY_CAPSLOCK \<equiv> 58"
abbreviation KEY_F1 :: nat where "KEY_F1 \<equiv> 59"
abbreviation KEY_F2 :: nat where "KEY_F2 \<equiv> 60"
abbreviation KEY_F3 :: nat where "KEY_F3 \<equiv> 61"
abbreviation KEY_F4 :: nat where "KEY_F4 \<equiv> 62"
abbreviation KEY_F5 :: nat where "KEY_F5 \<equiv> 63"
abbreviation KEY_F6 :: nat where "KEY_F6 \<equiv> 64"
abbreviation KEY_F7 :: nat where "KEY_F7 \<equiv> 65"
abbreviation KEY_F8 :: nat where "KEY_F8 \<equiv> 66"
abbreviation KEY_F9 :: nat where "KEY_F9 \<equiv> 67"
abbreviation KEY_F10 :: nat where "KEY_F10 \<equiv> 68"
abbreviation KEY_NUMLOCK :: nat where "KEY_NUMLOCK \<equiv> 69"
abbreviation KEY_SCROLLLOCK :: nat where "KEY_SCROLLLOCK \<equiv> 70"
abbreviation KEY_KP7 :: nat where "KEY_KP7 \<equiv> 71"
abbreviation KEY_KP8 :: nat where "KEY_KP8 \<equiv> 72"
abbreviation KEY_KP9 :: nat where "KEY_KP9 \<equiv> 73"
abbreviation KEY_KPMINUS :: nat where "KEY_KPMINUS \<equiv> 74"
abbreviation KEY_KP4 :: nat where "KEY_KP4 \<equiv> 75"
abbreviation KEY_KP5 :: nat where "KEY_KP5 \<equiv> 76"
abbreviation KEY_KP6 :: nat where "KEY_KP6 \<equiv> 77"
abbreviation KEY_KPPLUS :: nat where "KEY_KPPLUS \<equiv> 78"
abbreviation KEY_KP1 :: nat where "KEY_KP1 \<equiv> 79"
abbreviation KEY_KP2 :: nat where "KEY_KP2 \<equiv> 80"
abbreviation KEY_KP3 :: nat where "KEY_KP3 \<equiv> 81"
abbreviation KEY_KP0 :: nat where "KEY_KP0 \<equiv> 82"
abbreviation KEY_KPDOT :: nat where "KEY_KPDOT \<equiv> 83"
abbreviation KEY_F11 :: nat where "KEY_F11 \<equiv> 87"
abbreviation KEY_F12 :: nat where "KEY_F12 \<equiv> 88"
abbreviation KEY_RIGHTCTRL :: nat where "KEY_RIGHTCTRL \<equiv> 97"

text \<open>The tables of 128 characters; a key that is not listed has the character 0.\<close>

definition keymap :: "(nat \<times> u8) list \<Rightarrow> u8 list" where
  "keymap ps = map (\<lambda>k. case map_of ps k of None \<Rightarrow> 0 | Some c \<Rightarrow> c) [0..<128]"

definition ascii_map :: "u8 list" where
  "ascii_map = keymap
    [(KEY_A, 0x61), (KEY_B, 0x62), (KEY_C, 0x63), (KEY_D, 0x64), (KEY_E, 0x65), (KEY_F, 0x66),
     (KEY_G, 0x67), (KEY_H, 0x68), (KEY_I, 0x69), (KEY_J, 0x6A), (KEY_K, 0x6B), (KEY_L, 0x6C),
     (KEY_M, 0x6D), (KEY_N, 0x6E), (KEY_O, 0x6F), (KEY_P, 0x70), (KEY_Q, 0x71), (KEY_R, 0x72),
     (KEY_S, 0x73), (KEY_T, 0x74), (KEY_U, 0x75), (KEY_V, 0x76), (KEY_W, 0x77), (KEY_X, 0x78),
     (KEY_Y, 0x79), (KEY_Z, 0x7A), (KEY_1, 0x31), (KEY_2, 0x32), (KEY_3, 0x33), (KEY_4, 0x34),
     (KEY_5, 0x35), (KEY_6, 0x36), (KEY_7, 0x37), (KEY_8, 0x38), (KEY_9, 0x39), (KEY_0, 0x30),
     (KEY_MINUS, 0x2D), (KEY_EQUAL, 0x3D), (KEY_SPACE, 0x20), (KEY_ENTER, 0x0A), (KEY_BACKSPACE, 0x08), (KEY_COMMA, 0x2C),
     (KEY_DOT, 0x2E), (KEY_SLASH, 0x2F), (KEY_SEMICOLON, 0x3B), (KEY_APOSTROPHE, 0x27), (KEY_GRAVE, 0x60), (KEY_LEFTBRACE, 0x5B),
     (KEY_RIGHTBRACE, 0x5D), (KEY_BACKSLASH, 0x5C)]"

definition ascii_shift_map :: "u8 list" where
  "ascii_shift_map = keymap
    [(KEY_A, 0x41), (KEY_B, 0x42), (KEY_C, 0x43), (KEY_D, 0x44), (KEY_E, 0x45), (KEY_F, 0x46),
     (KEY_G, 0x47), (KEY_H, 0x48), (KEY_I, 0x49), (KEY_J, 0x4A), (KEY_K, 0x4B), (KEY_L, 0x4C),
     (KEY_M, 0x4D), (KEY_N, 0x4E), (KEY_O, 0x4F), (KEY_P, 0x50), (KEY_Q, 0x51), (KEY_R, 0x52),
     (KEY_S, 0x53), (KEY_T, 0x54), (KEY_U, 0x55), (KEY_V, 0x56), (KEY_W, 0x57), (KEY_X, 0x58),
     (KEY_Y, 0x59), (KEY_Z, 0x5A), (KEY_1, 0x21), (KEY_2, 0x40), (KEY_3, 0x23), (KEY_4, 0x24),
     (KEY_5, 0x25), (KEY_6, 0x5E), (KEY_7, 0x26), (KEY_8, 0x2A), (KEY_9, 0x28), (KEY_0, 0x29),
     (KEY_MINUS, 0x5F), (KEY_EQUAL, 0x2B), (KEY_SPACE, 0x20), (KEY_ENTER, 0x0A), (KEY_BACKSPACE, 0x08), (KEY_COMMA, 0x3C),
     (KEY_DOT, 0x3E), (KEY_SLASH, 0x3F), (KEY_SEMICOLON, 0x3A), (KEY_APOSTROPHE, 0x22), (KEY_GRAVE, 0x7E), (KEY_LEFTBRACE, 0x7B),
     (KEY_RIGHTBRACE, 0x7D), (KEY_BACKSLASH, 0x7C)]"

section \<open>Events (kernel/input.c)\<close>

record input =
  shift_count :: int
  caps_active :: bool
  ctrl_count :: int

record kbd =
  kin :: input
  kcon :: console
  is_extended :: bool

text \<open>A counter of held keys after an event, cut to 0 to 2.\<close>

definition count_held :: "int \<Rightarrow> bool \<Rightarrow> int" where
  "count_held n is_release = (let n' = (if is_release then n - 1 else n + 1) in if n' < 0 then 0 else if n' > 2 then 2 else n')"

definition input_handle_event :: "nat \<Rightarrow> nat \<Rightarrow> bool \<Rightarrow> kbd \<Rightarrow> kbd exec" where
  "input_handle_event fuel key is_release k =
     (let i = kin k in
      if key = KEY_LEFTSHIFT \<or> key = KEY_RIGHTSHIFT then Ret (k\<lparr>kin := i\<lparr>shift_count := count_held (shift_count i) is_release\<rparr>\<rparr>)
      else if key = KEY_LEFTCTRL \<or> key = KEY_RIGHTCTRL then Ret (k\<lparr>kin := i\<lparr>ctrl_count := count_held (ctrl_count i) is_release\<rparr>\<rparr>)
      else if key = KEY_CAPSLOCK \<and> \<not> is_release then Ret (k\<lparr>kin := i\<lparr>caps_active := \<not> caps_active i\<rparr>\<rparr>)
      else if is_release then Ret k
      else if key \<ge> 128 then Ret k
      else
        let c = ascii_map ! key;
            is_upper = (if shift_count i \<noteq> 0 then \<not> caps_active i else caps_active i);
            c' = (if key \<ge> KEY_Q \<and> key \<le> KEY_M
                  then (if is_upper then ascii_shift_map ! key else c)
                  else (if shift_count i \<noteq> 0 then ascii_shift_map ! key else c))
        in if c' \<noteq> 0 then exec_bind (tty_push_char fuel c' (kcon k)) (\<lambda>con. Ret (k\<lparr>kcon := con\<rparr>))
           else Ret k)"

section \<open>The controller (drivers/ps2/ps2.c)\<close>

abbreviation PS2_DATA_PORT :: u16 where "PS2_DATA_PORT \<equiv> 0x60"
abbreviation PS2_STATUS_REG :: u16 where "PS2_STATUS_REG \<equiv> 0x64"
abbreviation PS2_CMD_REG :: u16 where "PS2_CMD_REG \<equiv> 0x64"
abbreviation PS2_DISABLE_FIRST_PORT_CMD :: u8 where "PS2_DISABLE_FIRST_PORT_CMD \<equiv> 0xAD"
abbreviation PS2_DISABLE_SECOND_PORT_CMD :: u8 where "PS2_DISABLE_SECOND_PORT_CMD \<equiv> 0xA7"
abbreviation PS2_READ_CTRL_CONFIG_BYTE_CMD :: u8 where "PS2_READ_CTRL_CONFIG_BYTE_CMD \<equiv> 0x20"
abbreviation PS2_WRITE_CONFIG_BYTE_CMD :: u8 where "PS2_WRITE_CONFIG_BYTE_CMD \<equiv> 0x60"
abbreviation PS2_ENABLE_FIRST_PORT_CMD :: u8 where "PS2_ENABLE_FIRST_PORT_CMD \<equiv> 0xAE"
abbreviation PS2_SELF_TEST_CMD :: u8 where "PS2_SELF_TEST_CMD \<equiv> 0xAA"
abbreviation PS2_FIRST_PORT_TEST_CMD :: u8 where "PS2_FIRST_PORT_TEST_CMD \<equiv> 0xAB"

definition ps2_wait_read :: "'d hw \<Rightarrow> nat \<Rightarrow> 'd \<Rightarrow> 'd exec" where
  "ps2_wait_read hw fuel = poll fuel (\<lambda>d. case inb_op hw PS2_STATUS_REG d of (v, d') \<Rightarrow> (v AND 0x01 = 0, d'))"

definition ps2_wait_write :: "'d hw \<Rightarrow> nat \<Rightarrow> 'd \<Rightarrow> 'd exec" where
  "ps2_wait_write hw fuel = poll fuel (\<lambda>d. case inb_op hw PS2_STATUS_REG d of (v, d') \<Rightarrow> (v AND 0x02 \<noteq> 0, d'))"

text \<open>\<^verbatim>\<open>ps2_wait_write(); outb(port, v);\<close> and \<^verbatim>\<open>ps2_wait_read(); inb(PS2_DATA_PORT)\<close>.\<close>

definition ps2_out :: "'d hw \<Rightarrow> nat \<Rightarrow> u16 \<Rightarrow> u8 \<Rightarrow> 'd \<Rightarrow> 'd exec" where
  "ps2_out hw fuel p v d = exec_bind (ps2_wait_write hw fuel d) (\<lambda>d1. Ret (outb_op hw p v d1))"

definition ps2_in :: "'d hw \<Rightarrow> nat \<Rightarrow> 'd \<Rightarrow> (u8 \<times> 'd) exec" where
  "ps2_in hw fuel d = exec_bind (ps2_wait_read hw fuel d) (\<lambda>d1. Ret (inb_op hw PS2_DATA_PORT d1))"

definition disable_ports :: "'d hw \<Rightarrow> nat \<Rightarrow> 'd \<Rightarrow> 'd exec" where
  "disable_ports hw fuel d =
     exec_bind (ps2_out hw fuel PS2_CMD_REG PS2_DISABLE_FIRST_PORT_CMD d) (ps2_out hw fuel PS2_CMD_REG PS2_DISABLE_SECOND_PORT_CMD)"

definition enable_first_port :: "'d hw \<Rightarrow> nat \<Rightarrow> 'd \<Rightarrow> 'd exec" where
  "enable_first_port hw fuel d =
     exec_bind (ps2_out hw fuel PS2_CMD_REG PS2_READ_CTRL_CONFIG_BYTE_CMD d) (\<lambda>d1.
     exec_bind (ps2_in hw fuel d1) (\<lambda>(config_byte, d2).
       let c = ((config_byte OR 0x01) OR push_bit 6 1) AND NOT (push_bit 4 1)
       in exec_bind (ps2_out hw fuel PS2_CMD_REG PS2_WRITE_CONFIG_BYTE_CMD d2) (\<lambda>d3.
          exec_bind (ps2_out hw fuel PS2_DATA_PORT c d3)
            (ps2_out hw fuel PS2_CMD_REG PS2_ENABLE_FIRST_PORT_CMD))))"

definition controller_self_test :: "'d hw \<Rightarrow> nat \<Rightarrow> 'd \<Rightarrow> (int \<times> 'd) exec" where
  "controller_self_test hw fuel d =
     exec_bind (ps2_out hw fuel PS2_CMD_REG PS2_SELF_TEST_CMD d) (\<lambda>d1.
     exec_bind (ps2_in hw fuel d1) (\<lambda>(v, d2). Ret (if v \<noteq> 0x55 then - EFAULT else 0, d2)))"

definition first_port_test :: "'d hw \<Rightarrow> nat \<Rightarrow> 'd \<Rightarrow> (int \<times> 'd) exec" where
  "first_port_test hw fuel d =
     exec_bind (ps2_out hw fuel PS2_CMD_REG PS2_FIRST_PORT_TEST_CMD d) (\<lambda>d1.
     exec_bind (ps2_in hw fuel d1) (\<lambda>(v, d2). Ret (if v \<noteq> 0x00 then - EFAULT else 0, d2)))"

definition reset_devices :: "'d hw \<Rightarrow> nat \<Rightarrow> 'd \<Rightarrow> (int \<times> 'd) exec" where
  "reset_devices hw fuel d =
     exec_bind (ps2_out hw fuel PS2_DATA_PORT 0xFF d) (\<lambda>d1.
     exec_bind (ps2_in hw fuel d1) (\<lambda>(v, d2).
       if v \<noteq> 0xFA then Ret (- EFAULT, d2)
       else exec_bind (ps2_in hw fuel d2) (\<lambda>(v', d3). Ret (if v' \<noteq> 0xAA then - EFAULT else 0, d3))))"

text \<open>The loop that drops pending data, and the initialisation. \<open>handler\<close> and \<open>nm\<close> are the addresses of
  \<^verbatim>\<open>ps2_irq\<close> and of the name.\<close>

definition ps2_flush :: "'d hw \<Rightarrow> nat \<Rightarrow> 'd \<Rightarrow> 'd exec" where
  "ps2_flush hw fuel = poll fuel (\<lambda>d. case inb_op hw PS2_STATUS_REG d of (v, d') \<Rightarrow>
     if v AND 0x01 \<noteq> 0 then (True, snd (inb_op hw PS2_DATA_PORT d')) else (False, d'))"

definition ps2_kyb_init :: "'d hw \<Rightarrow> nat \<Rightarrow> u64 \<Rightarrow> u64 \<Rightarrow> irqs \<Rightarrow> 'd \<Rightarrow> (int \<times> irqs \<times> 'd) exec" where
  "ps2_kyb_init hw fuel fn nm iq d =
     exec_bind (disable_ports hw fuel d) (\<lambda>d1.
     exec_bind (ps2_flush hw fuel d1) (\<lambda>d2.
     exec_bind (controller_self_test hw fuel d2) (\<lambda>(r1, d3).
       if r1 \<noteq> 0 then Ret (- EFAULT, iq, d3)
       else exec_bind (first_port_test hw fuel d3) (\<lambda>(r2, d4).
         if r2 \<noteq> 0 then Ret (- EFAULT, iq, d4)
         else exec_bind (enable_first_port hw fuel d4) (\<lambda>d5.
           exec_bind (reset_devices hw fuel d5) (\<lambda>(r3, d6).
             if r3 \<noteq> 0 then Ret (- EFAULT, iq, d6)
             else exec_bind (request_irq IRQ_PS2 fn nm 0 iq) (\<lambda>(r4, iq').
               Ret (if r4 \<noteq> 0 then - EFAULT else 0, iq', d6))))))))"

definition ps2_scancode_base :: "nat list" where
  "ps2_scancode_base =
    [0, KEY_ESC, KEY_1, KEY_2, KEY_3, KEY_4, KEY_5, KEY_6,
     KEY_7, KEY_8, KEY_9, KEY_0, KEY_MINUS, KEY_EQUAL, KEY_BACKSPACE, KEY_TAB,
     KEY_Q, KEY_W, KEY_E, KEY_R, KEY_T, KEY_Y, KEY_U, KEY_I,
     KEY_O, KEY_P, KEY_LEFTBRACE, KEY_RIGHTBRACE, KEY_ENTER, KEY_LEFTCTRL, KEY_A, KEY_S,
     KEY_D, KEY_F, KEY_G, KEY_H, KEY_J, KEY_K, KEY_L, KEY_SEMICOLON,
     KEY_APOSTROPHE, KEY_GRAVE, KEY_LEFTSHIFT, KEY_BACKSLASH, KEY_Z, KEY_X, KEY_C, KEY_V,
     KEY_B, KEY_N, KEY_M, KEY_COMMA, KEY_DOT, KEY_SLASH, KEY_RIGHTSHIFT, KEY_KPASTERISK,
     KEY_LEFTALT, KEY_SPACE, KEY_CAPSLOCK, KEY_F1, KEY_F2, KEY_F3, KEY_F4, KEY_F5,
     KEY_F6, KEY_F7, KEY_F8, KEY_F9, KEY_F10, KEY_NUMLOCK, KEY_SCROLLLOCK, KEY_KP7,
     KEY_KP8, KEY_KP9, KEY_KPMINUS, KEY_KP4, KEY_KP5, KEY_KP6, KEY_KPPLUS, KEY_KP1,
     KEY_KP2, KEY_KP3, KEY_KP0, KEY_KPDOT, 0, 0, 0, KEY_F11,
     KEY_F12]"

definition ps2_irq :: "'d hw \<Rightarrow> nat \<Rightarrow> kbd \<times> 'd \<Rightarrow> (kbd \<times> 'd) exec" where
  "ps2_irq hw fuel = (\<lambda>(k, d).
     let (scancode, d1) = inb_op hw 0x60 d;
         is_release = scancode AND 0x80 \<noteq> 0;
         raw_key = scancode AND NOT 0x80
     in if is_extended k then Ret (k\<lparr>is_extended := False\<rparr>, d1)
        else if scancode = 0xE0 then Ret (k\<lparr>is_extended := True\<rparr>, d1)
        else if unat raw_key < length ps2_scancode_base
        then (if ps2_scancode_base ! unat raw_key \<noteq> 0
              then exec_bind (input_handle_event fuel (unat raw_key) is_release k) (\<lambda>k'. Ret (k', d1))
              else Ret (k, d1))
        else Ret (k, d1))"

section \<open>What is typed\<close>

text \<open>
  The keyboard as the user sees it: the shift keys that are down and caps lock. \<open>typed\<close> lists the
  characters of a sequence of key events (key, released).
\<close>

definition layout :: "bool \<Rightarrow> bool \<Rightarrow> nat \<Rightarrow> u8" where
  "layout shift caps key =
     (let upper = (if KEY_Q \<le> key \<and> key \<le> KEY_M then shift \<noteq> caps else shift)
      in if key < 128 then (if upper then ascii_shift_map else ascii_map) ! key else 0)"

fun typed :: "nat set \<Rightarrow> bool \<Rightarrow> (nat \<times> bool) list \<Rightarrow> u8 list" where
  "typed held caps [] = []"
| "typed held caps ((key, rel) # es) =
     (if key \<in> {KEY_LEFTSHIFT, KEY_RIGHTSHIFT} then typed (if rel then held - {key} else insert key held) caps es
      else if key = KEY_CAPSLOCK \<and> \<not> rel then typed held (\<not> caps) es
      else if rel \<or> key \<in> {KEY_LEFTCTRL, KEY_RIGHTCTRL} \<or> layout (held \<noteq> {}) caps key = 0 then typed held caps es
      else layout (held \<noteq> {}) caps key # typed held caps es)"

text \<open>A shift key goes down only when it is up, and up only when it is down.\<close>

fun shifts_alternate :: "nat set \<Rightarrow> (nat \<times> bool) list \<Rightarrow> bool" where
  "shifts_alternate held [] \<longleftrightarrow> True"
| "shifts_alternate held ((key, rel) # es) \<longleftrightarrow>
     (if key \<in> {KEY_LEFTSHIFT, KEY_RIGHTSHIFT}
      then (key \<in> held \<longleftrightarrow> rel) \<and> shifts_alternate (if rel then held - {key} else insert key held) es
      else shifts_alternate held es)"

text \<open>The events of a sequence of scan codes; a prefix 0xE0 hides the next code.\<close>

definition known_key :: "nat \<Rightarrow> bool" where
  "known_key key \<longleftrightarrow> 0 < key \<and> key < 84 \<or> key = KEY_F11 \<or> key = KEY_F12"

fun scan_events :: "bool \<Rightarrow> u8 list \<Rightarrow> (nat \<times> bool) list" where
  "scan_events ext [] = []"
| "scan_events ext (sc # scs) =
     (if ext then scan_events False scs
      else if sc = 0xE0 then scan_events True scs
      else let key = unat (take_bit 7 sc)
           in if known_key key then (key, bit sc 7) # scan_events False scs
              else scan_events False scs)"

text \<open>The handler passes the raw code on, not the entry of the table: every code stands for itself.\<close>

lemma scancode_base:
  "key < 128 \<Longrightarrow> key < length ps2_scancode_base \<and> ps2_scancode_base ! key \<noteq> 0 \<longleftrightarrow> known_key key"
proof -
  have "list_all (\<lambda>key. (key < length ps2_scancode_base \<and> ps2_scancode_base ! key \<noteq> 0) = known_key key) [0..<128]"
    by code_simp
  then show "key < 128 \<Longrightarrow> ?thesis" by (simp add: list_all_iff del: upt_rec_numeral)
qed

lemma scancode_bits: "sc AND NOT 0x80 = take_bit 7 sc" "sc AND 0x80 \<noteq> 0 \<longleftrightarrow> bit sc 7" for sc :: u8
proof -
  show "sc AND NOT 0x80 = take_bit 7 sc"
    by (rule bit_word_eqI) (auto simp: bit_simps bit_numeral_rec less_Suc_eq numeral_eq_Suc)
  have b: "bit (0x80 :: u8) n \<longleftrightarrow> n = 7" for n using bit_push_bit_iff[of 7 "1 :: u8" n] by (auto simp: bit_simps)
  have "sc AND 0x80 \<noteq> 0 \<longleftrightarrow> (\<exists>n. bit sc n \<and> bit (0x80 :: u8) n)" using bit_eq_iff[of "sc AND 0x80" 0] by (auto simp: bit_and_iff)
  then show "sc AND 0x80 \<noteq> 0 \<longleftrightarrow> bit sc 7" unfolding b by simp
qed

lemma ps2_irq_step:
  assumes "inb_op hw 0x60 d = (sc, d1)"
  shows "ps2_irq hw fuel (k, d) =
    (if is_extended k then Ret (k\<lparr>is_extended := False\<rparr>, d1)
     else if sc = 0xE0 then Ret (k\<lparr>is_extended := True\<rparr>, d1)
     else if known_key (unat (take_bit 7 sc))
     then exec_bind (input_handle_event fuel (unat (take_bit 7 sc)) (bit sc 7) k) (\<lambda>k'. Ret (k', d1))
     else Ret (k, d1))"
proof -
  have "unat (take_bit 7 sc) < 128" unfolding unsigned_take_bit_eq by (simp add: take_bit_eq_mod)
  from scancode_base[OF this] show ?thesis
    unfolding ps2_irq_def prod.case assms Let_def scancode_bits by auto
qed

text \<open>One event on the abstract keyboard.\<close>

definition held_count :: "nat set \<Rightarrow> input \<Rightarrow> bool" where
  "held_count held i \<longleftrightarrow> held \<subseteq> {KEY_LEFTSHIFT, KEY_RIGHTSHIFT} \<and> shift_count i = int (card held)"

lemma held_count_update:
  assumes "held_count held i" "key \<in> {KEY_LEFTSHIFT, KEY_RIGHTSHIFT}" "key \<in> held \<longleftrightarrow> rel"
  shows "held_count (if rel then held - {key} else insert key held) (i\<lparr>shift_count := count_held (shift_count i) rel\<rparr>)"
proof -
  have f: "finite held" using assms(1) finite_subset by (auto simp: held_count_def)
  have "card held \<le> 2" using assms(1) card_mono[of "{KEY_LEFTSHIFT, KEY_RIGHTSHIFT}" held] by (simp add: held_count_def)
  moreover have "card (insert key held) \<le> 2"
    using assms(1,2) card_mono[of "{KEY_LEFTSHIFT, KEY_RIGHTSHIFT}" "insert key held"] by (simp add: held_count_def)
  moreover have "rel \<Longrightarrow> 0 < card held" using f assms(3) card_gt_0_iff by auto
  ultimately show ?thesis using assms f by (auto simp: held_count_def count_held_def)
qed

lemma exec_fold_one: "exec_fold f [x] s = f x s"
  by (cases "f x s") auto

lemma event_typed:
  assumes "held_count held i" "shifts_alternate held ((key, rel) # es)"
  shows "\<exists>held' i' cs. held_count held' i' \<and> shifts_alternate held' es
    \<and> typed held (caps_active i) ((key, rel) # es) = cs @ typed held' (caps_active i') es
    \<and> (\<forall>c e. input_handle_event fuel key rel \<lparr>kin = i, kcon = c, is_extended = e\<rparr> =
         exec_bind (exec_fold (tty_push_char fuel) cs c) (\<lambda>c. Ret \<lparr>kin = i', kcon = c, is_extended = e\<rparr>))"
proof -
  have "finite held" using assms(1) finite_subset by (auto simp: held_count_def)
  then have z: "shift_count i \<noteq> 0 \<longleftrightarrow> held \<noteq> {}" using assms(1) by (auto simp: held_count_def)
  consider "key \<in> {KEY_LEFTSHIFT, KEY_RIGHTSHIFT}" | "key \<in> {KEY_LEFTCTRL, KEY_RIGHTCTRL}" | "key = KEY_CAPSLOCK" "\<not> rel"
    | "key \<notin> {KEY_LEFTSHIFT, KEY_RIGHTSHIFT, KEY_LEFTCTRL, KEY_RIGHTCTRL}" "\<not> (key = KEY_CAPSLOCK \<and> \<not> rel)" by blast
  then show ?thesis
  proof cases
    case 1
    let ?held = "if rel then held - {key} else insert key held" and ?j = "i\<lparr>shift_count := count_held (shift_count i) rel\<rparr>"
    have "held_count ?held ?j" "shifts_alternate ?held es" using 1 assms held_count_update[OF assms(1) 1] by auto
    with 1 show ?thesis
      by (intro exI[of _ ?held] exI[of _ ?j] exI[of _ "[]"] conjI) (auto simp: input_handle_event_def)
  next
    case 2
    let ?j = "i\<lparr>ctrl_count := count_held (ctrl_count i) rel\<rparr>"
    show ?thesis using 2 assms
      by (intro exI[of _ held] exI[of _ ?j] exI[of _ "[]"] conjI) (auto simp: input_handle_event_def held_count_def)
  next
    case 3
    let ?j = "i\<lparr>caps_active := \<not> caps_active i\<rparr>"
    show ?thesis using 3 assms
      by (intro exI[of _ held] exI[of _ ?j] exI[of _ "[]"] conjI) (auto simp: input_handle_event_def held_count_def)
  next
    case 4
    let ?c = "layout (held \<noteq> {}) (caps_active i) key"
    let ?cs = "if rel \<or> ?c = 0 then [] else [?c]"
    have "typed held (caps_active i) ((key, rel) # es) = ?cs @ typed held (caps_active i) es" using 4 by auto
    moreover have "input_handle_event fuel key rel \<lparr>kin = i, kcon = c, is_extended = e\<rparr> =
      exec_bind (exec_fold (tty_push_char fuel) ?cs c) (\<lambda>c. Ret \<lparr>kin = i, kcon = c, is_extended = e\<rparr>)" for c e
    proof -
      let ?k = "\<lparr>kin = i, kcon = c, is_extended = e\<rparr>"
      have "input_handle_event fuel key rel ?k = (if rel \<or> 128 \<le> key then Ret ?k
          else if ?c \<noteq> 0 then exec_bind (tty_push_char fuel ?c c) (\<lambda>con. Ret (?k\<lparr>kcon := con\<rparr>)) else Ret ?k)"
        using 4 unfolding input_handle_event_def Let_def layout_def z[symmetric] by (simp cong: if_cong)
      moreover have "128 \<le> key \<Longrightarrow> ?c = 0" by (simp add: layout_def)
      ultimately show ?thesis by (cases "?c = 0") (auto simp: exec_fold_one simp del: exec_fold.simps(2))
    qed
    moreover have "shifts_alternate held es" using 4 assms(2) by auto
    ultimately show ?thesis using assms(1) by blast
  qed
qed

text \<open>\<open>pending\<close> lists the scan codes the keyboard is about to deliver; a read of the data port takes the first.\<close>

definition delivers :: "'d hw \<Rightarrow> ('d \<Rightarrow> u8 list) \<Rightarrow> bool" where
  "delivers hw pending \<longleftrightarrow> (\<forall>d sc scs. pending d = sc # scs \<longrightarrow>
     fst (inb_op hw 0x60 d) = sc \<and> pending (snd (inb_op hw 0x60 d)) = scs)"

lemma exec_bind_assoc: "exec_bind (exec_bind m f) g = exec_bind m (\<lambda>x. exec_bind (f x) g)"
  by (cases m) auto

lemma keyboard_fold:
  assumes "delivers hw pending" "pending d = scs" "held_count held i"
    and "shifts_alternate held (scan_events e scs)"
  shows "\<exists>i' e' d'. \<forall>c. exec_fold (\<lambda>_. ps2_irq hw fuel) scs (\<lparr>kin = i, kcon = c, is_extended = e\<rparr>, d) =
    exec_bind (exec_fold (tty_push_char fuel) (typed held (caps_active i) (scan_events e scs)) c)
      (\<lambda>c. Ret (\<lparr>kin = i', kcon = c, is_extended = e'\<rparr>, d'))"
  using assms(2-)
proof (induction scs arbitrary: i e d held)
  case Nil
  show ?case by (intro exI[of _ i] exI[of _ e] exI[of _ d]) simp
next
  case (Cons sc scs)
  have "fst (inb_op hw 0x60 d) = sc \<and> pending (snd (inb_op hw 0x60 d)) = scs"
    using assms(1) Cons.prems(1) by (simp add: delivers_def)
  then obtain d1 where r: "inb_op hw 0x60 d = (sc, d1)" "pending d1 = scs" by (cases "inb_op hw 0x60 d") simp
  let ?k = "\<lambda>c. \<lparr>kin = i, kcon = c, is_extended = e\<rparr>"
  define key where "key = unat (take_bit 7 sc)"
  note p = ps2_irq_step[OF r(1), folded key_def]
  consider "e \<or> sc = 0xE0 \<or> \<not> known_key key" | "\<not> e" "sc \<noteq> 0xE0" "known_key key" by blast
  then show ?case
  proof cases
    case 1
    then have p: "ps2_irq hw fuel (?k c, d) = Ret (\<lparr>kin = i, kcon = c, is_extended = \<not> e \<and> sc = 0xE0\<rparr>, d1)" for c
      by (auto simp: p)
    have ev: "scan_events e (sc # scs) = scan_events (\<not> e \<and> sc = 0xE0) scs"
      using 1 by (auto simp: key_def)
    note ih = Cons.IH[OF r(2) Cons.prems(2) Cons.prems(3)[unfolded ev]]
    show ?thesis unfolding ev exec_fold.simps p exec_bind.simps by (rule ih)
  next
    case 2
    then have p: "ps2_irq hw fuel (?k c, d) = exec_bind (input_handle_event fuel key (bit sc 7) (?k c)) (\<lambda>k'. Ret (k', d1))" for c
      by (simp add: p)
    have ev: "scan_events e (sc # scs) = (key, bit sc 7) # scan_events e scs"
      using 2 by (simp add: key_def)
    obtain held' i' cs where h: "held_count held' i'" "shifts_alternate held' (scan_events e scs)"
      "typed held (caps_active i) ((key, bit sc 7) # scan_events e scs) = cs @ typed held' (caps_active i') (scan_events e scs)"
      "\<And>c. input_handle_event fuel key (bit sc 7) (?k c) =
         exec_bind (exec_fold (tty_push_char fuel) cs c) (\<lambda>c. Ret \<lparr>kin = i', kcon = c, is_extended = e\<rparr>)"
      using event_typed[OF Cons.prems(2) Cons.prems(3)[unfolded ev], of fuel] by blast
    obtain i2 e2 d2 where f: "\<And>c. exec_fold (\<lambda>_. ps2_irq hw fuel) scs (\<lparr>kin = i', kcon = c, is_extended = e\<rparr>, d1) =
        exec_bind (exec_fold (tty_push_char fuel) (typed held' (caps_active i') (scan_events e scs)) c)
          (\<lambda>c. Ret (\<lparr>kin = i2, kcon = c, is_extended = e2\<rparr>, d2))"
      using Cons.IH[OF r(2) h(1,2)] by blast
    show ?thesis
      unfolding ev h(3) exec_fold_append exec_fold.simps p h(4)
      by (intro exI[of _ i2] exI[of _ e2] exI[of _ d2] allI) (simp add: exec_bind_assoc f)
  qed
qed

text \<open>
  C19. The keyboard interrupts type what the keys say. As long as the shift keys alternate between down
  and up, handling the interrupts of a sequence of scan codes pushes to the terminal exactly the
  characters of the layout for the shift keys held and the caps lock at that moment, in order; codes
  after the prefix 0xE0 are skipped.
\<close>

theorem keyboard_types:
  assumes "delivers hw pending" "pending d = scs" "held_count held (kin k)"
    and "shifts_alternate held (scan_events (is_extended k) scs)"
  shows "\<exists>i' e' d'. exec_fold (\<lambda>_. ps2_irq hw fuel) scs (k, d) =
    exec_bind (exec_fold (tty_push_char fuel) (typed held (caps_active (kin k)) (scan_events (is_extended k) scs)) (kcon k))
      (\<lambda>c. Ret (\<lparr>kin = i', kcon = c, is_extended = e'\<rparr>, d'))"
proof -
  have k: "k = \<lparr>kin = kin k, kcon = kcon k, is_extended = is_extended k\<rparr>" by simp
  show ?thesis using keyboard_fold[OF assms, of fuel] by (subst k) blast
qed

text \<open>A keyboard that delivers the codes of a list.\<close>

definition list_keyboard :: "u8 list hw" where
  "list_keyboard = \<lparr>inb_op = (\<lambda>p d. case d of [] \<Rightarrow> (0, []) | sc # scs \<Rightarrow> (sc, scs)), outb_op = (\<lambda>p v d. d),
     inl_op = (\<lambda>p d. (0, d)), outl_op = (\<lambda>p v d. d), readl_op = (\<lambda>a d. (0, d)), writel_op = (\<lambda>a v d. d)\<rparr>"

abbreviation no_input :: input where "no_input \<equiv> \<lparr>shift_count = 0, caps_active = False, ctrl_count = 0\<rparr>"

text \<open>Shift down, H, shift up, I: the characters are \<open>H\<close> and \<open>i\<close>.\<close>

theorem keyboard_types_witness:
  "\<forall>c. \<exists>i' e' d'. exec_fold (\<lambda>_. ps2_irq list_keyboard 1) [0x2A :: u8, 0x23, 0xA3, 0xAA, 0x17] (\<lparr>kin = no_input, kcon = c, is_extended = False\<rparr>,
       [0x2A, 0x23, 0xA3, 0xAA, 0x17]) =
     exec_bind (exec_fold (tty_push_char 1) [0x48, 0x69] c) (\<lambda>c. Ret (\<lparr>kin = i', kcon = c, is_extended = e'\<rparr>, d'))"
proof
  fix c
  let ?scs = "[0x2A, 0x23, 0xA3, 0xAA, 0x17] :: u8 list"
  have d: "delivers list_keyboard (\<lambda>d. d)" by (simp add: delivers_def list_keyboard_def)
  have e: "scan_events False ?scs = [(42, False), (35, False), (35, True), (42, True), (23, False)]" by code_simp
  have m: "ascii_shift_map ! 35 = 0x48" "ascii_map ! 23 = 0x69" by code_simp+
  have t: "typed {} False (scan_events False ?scs) = [0x48, 0x69]" unfolding e by (simp add: layout_def m)
  have "shifts_alternate {} (scan_events False ?scs)" "held_count {} no_input" unfolding e by (simp_all add: held_count_def)
  with keyboard_types[OF d refl, of "{}" "\<lparr>kin = no_input, kcon = c, is_extended = False\<rparr>" ?scs 1]
  show "\<exists>i' e' d'. exec_fold (\<lambda>_. ps2_irq list_keyboard 1) ?scs (\<lparr>kin = no_input, kcon = c, is_extended = False\<rparr>, ?scs) =
     exec_bind (exec_fold (tty_push_char 1) [0x48, 0x69] c) (\<lambda>c. Ret (\<lparr>kin = i', kcon = c, is_extended = e'\<rparr>, d'))"
    by (simp only: t kbd.simps input.simps)
qed


end
