(* ===== verification/Acpi.thy ===== *)
theory Acpi
  imports Device_Io Blockdev
begin

text \<open>
  The firmware tables, \<^verbatim>\<open>arch/x86_64/acpi/acpi.c\<close>: finding the root pointer in the BIOS area and a table
  by its signature. \<open>m\<close> is the memory the firmware left, by virtual address; \<open>iomap\<close> is \<^verbatim>\<open>ioremap\<close>, which acts
  on the environment (the page tables) and returns the address of the window.
\<close>

section \<open>Structures (acpi.h)\<close>

abbreviation RSDP_REGION_START :: u64 where "RSDP_REGION_START \<equiv> 0xE0000"
abbreviation RSDP_REGION_END :: u64 where "RSDP_REGION_END \<equiv> 0xFFFFF"
abbreviation RSDP_SIZE :: nat where "RSDP_SIZE \<equiv> 20"
abbreviation XSDP_SIZE :: nat where "XSDP_SIZE \<equiv> RSDP_SIZE + 16"
abbreviation sizeof_acpi_header :: nat where "sizeof_acpi_header \<equiv> 36"

text \<open>The signatures \<open>RSD PTR\<close> with a blank, \<open>RSDT\<close> and \<open>XSDT\<close> as bytes.\<close>

definition RSDP_SIGNATURE :: "u8 list" where "RSDP_SIGNATURE = [0x52, 0x53, 0x44, 0x20, 0x50, 0x54, 0x52, 0x20]"
definition RSDT_SIGNATURE :: "u8 list" where "RSDT_SIGNATURE = [0x52, 0x53, 0x44, 0x54]"
definition XSDT_SIGNATURE :: "u8 list" where "XSDT_SIGNATURE = [0x58, 0x53, 0x44, 0x54]"

definition mbytes :: "mem \<Rightarrow> u64 \<Rightarrow> nat \<Rightarrow> u8 list" where
  "mbytes m p n = map (\<lambda>i. m (p + of_nat i)) [0..<n]"

record rsdp =
  rsdp_signature :: "u8 list"
  rsdp_checksum :: u8
  rsdp_OEMID :: "u8 list"
  rsdp_revision :: u8
  rsdt_addr :: u32

definition rsdp_at :: "mem \<Rightarrow> u64 \<Rightarrow> rsdp" where
  "rsdp_at m p = \<lparr>rsdp_signature = mbytes m p 8, rsdp_checksum = m (p + 8), rsdp_OEMID = mbytes m (p + 9) 6,
     rsdp_revision = m (p + 15), rsdt_addr = rd32 m (p + 16)\<rparr>"

text \<open>\<^verbatim>\<open>struct xsdp\<close> continues with its length and the 64-bit address.\<close>

definition xsdt_addr :: "mem \<Rightarrow> u64 \<Rightarrow> u64" where
  "xsdt_addr m p = rd64 m (p + 24)"

record acpi_header =
  acpi_signature :: "u8 list"
  acpi_length :: u32
  acpi_revision :: u8
  acpi_checksum :: u8
  acpi_OEMID :: "u8 list"
  OEM_table_id :: "u8 list"
  OEM_revision :: u32
  creator_id :: u32
  creator_revision :: u32

definition acpi_header_at :: "mem \<Rightarrow> u64 \<Rightarrow> acpi_header" where
  "acpi_header_at m p = \<lparr>acpi_signature = mbytes m p 4, acpi_length = rd32 m (p + 4), acpi_revision = m (p + 8),
     acpi_checksum = m (p + 9), acpi_OEMID = mbytes m (p + 10) 6, OEM_table_id = mbytes m (p + 16) 8,
     OEM_revision = rd32 m (p + 24), creator_id = rd32 m (p + 28), creator_revision = rd32 m (p + 32)\<rparr>"

section \<open>Operations\<close>

definition verify_checksum :: "mem \<Rightarrow> u64 \<Rightarrow> nat \<Rightarrow> bool" where
  "verify_checksum m p len \<longleftrightarrow> fold (\<lambda>i s. s + m (p + of_nat i)) [0..<len] 0 = (0 :: u8)"

text \<open>The test of one position; \<open>get_rsdp\<close> steps through the BIOS area by 16 bytes.\<close>

definition is_rsdp :: "mem \<Rightarrow> u64 \<Rightarrow> bool" where
  "is_rsdp m p \<longleftrightarrow> mbytes m p (length RSDP_SIGNATURE) = RSDP_SIGNATURE \<and> verify_checksum m p RSDP_SIZE
     \<and> (rsdp_revision (rsdp_at m p) = 2 \<longrightarrow> verify_checksum m p XSDP_SIZE)"

text \<open>The loop from \<open>p\<close> on below \<open>e\<close>; 8193 rounds are enough for the BIOS area.\<close>

primrec rsdp_loop :: "nat \<Rightarrow> mem \<Rightarrow> u64 \<Rightarrow> u64 \<Rightarrow> u64 exec" where
  "rsdp_loop 0 m p e = Diverge"
| "rsdp_loop (Suc fuel) m p e =
     (if p < e then (if is_rsdp m p then Ret p else rsdp_loop fuel m (p + 16) e) else Ret 0)"

abbreviation rsdp_fuel :: nat where "rsdp_fuel \<equiv> 8193"

text \<open>The two static variables: \<open>None\<close> before the first search.\<close>

definition get_rsdp :: "(u64 \<Rightarrow> u64 \<Rightarrow> 's \<Rightarrow> (u64 \<times> 's) exec) \<Rightarrow> mem \<Rightarrow> u64 option \<Rightarrow> 's \<Rightarrow> (u64 \<times> u64 option \<times> 's) exec" where
  "get_rsdp iomap m searched s = (case searched of
       Some r \<Rightarrow> Ret (r, searched, s)
     | None \<Rightarrow> exec_bind (iomap RSDP_REGION_START (RSDP_REGION_END - RSDP_REGION_START) s) (\<lambda>(p, s1).
           exec_bind (rsdp_loop rsdp_fuel m p (PHYS_TO_VIRT RSDP_REGION_END)) (\<lambda>r. Ret (r, Some r, s1))))"

definition validate_sdt_header :: "mem \<Rightarrow> u64 \<Rightarrow> bool \<Rightarrow> bool" where
  "validate_sdt_header m p xsdt \<longleftrightarrow>
     (let h = acpi_header_at m p
      in acpi_signature h = (if xsdt then XSDT_SIGNATURE else RSDT_SIGNATURE) \<and> verify_checksum m p (unat (acpi_length h)))"

fun sdt_entries ::
    "(u64 \<Rightarrow> u64 \<Rightarrow> 's \<Rightarrow> (u64 \<times> 's) exec) \<Rightarrow> mem \<Rightarrow> bool \<Rightarrow> u8 list \<Rightarrow> nat \<Rightarrow> u64 \<Rightarrow> 's \<Rightarrow> (u64 \<times> 's) exec" where
  "sdt_entries iomap m xsdt sig 0 p s = Ret (0, s)"
| "sdt_entries iomap m xsdt sig (Suc n) p s =
     (let entry_size = (if xsdt then 8 else 4);
          entry_phys = (if xsdt then rd64 m p else ucast (rd32 m p))
      in exec_bind (iomap entry_phys (of_nat sizeof_acpi_header) s) (\<lambda>(entry, s1).
           if mbytes m entry 4 \<noteq> sig then sdt_entries iomap m xsdt sig n (p + entry_size) s1
           else exec_bind (iomap entry_phys (ucast (acpi_length (acpi_header_at m entry))) s1) (\<lambda>(_, s2).
             if verify_checksum m entry (unat (acpi_length (acpi_header_at m entry))) then Ret (entry, s2)
             else sdt_entries iomap m xsdt sig n (p + entry_size) s2)))"

text \<open>The number of entries: a difference of 64 bits, divided and cut to 32.\<close>

definition sdt_find ::
    "(u64 \<Rightarrow> u64 \<Rightarrow> 's \<Rightarrow> (u64 \<times> 's) exec) \<Rightarrow> mem \<Rightarrow> u64 \<Rightarrow> u8 list \<Rightarrow> 's \<Rightarrow> (u64 \<times> 's) exec" where
  "sdt_find iomap m rp sig s =
     (let xsdt = (rsdp_revision (rsdp_at m rp) = 2);
          sdt_phys = (if xsdt then xsdt_addr m rp else ucast (rsdt_addr (rsdp_at m rp)))
      in exec_bind (iomap sdt_phys (of_nat sizeof_acpi_header) s) (\<lambda>(sdt, s1).
           if \<not> validate_sdt_header m sdt xsdt then Ret (0, s1)
           else
             let len = acpi_length (acpi_header_at m sdt)
             in exec_bind (iomap (VIRT_TO_PHYS sdt) (ucast len) s1) (\<lambda>(_, s2).
                  let n = ucast ((ucast len - of_nat sizeof_acpi_header :: u64) div (if xsdt then 8 else 4)) :: u32
                  in sdt_entries iomap m xsdt sig (unat n) (sdt + of_nat sizeof_acpi_header) s2)))"

section \<open>The search of the BIOS area\<close>

text \<open>The search ends, with the first root pointer on a 16-byte boundary or null.\<close>

lemma rsdp_loop_first:
  assumes "unat p + 16 * n < 2 ^ 64" "unat e \<le> unat p + 16 * n"
  shows "rsdp_loop (Suc n) m p e =
    Ret (case find (is_rsdp m) (filter (\<lambda>q. q < e) (map (\<lambda>i. p + 16 * of_nat i) [0..<n])) of None \<Rightarrow> 0 | Some q \<Rightarrow> q)"
  using assms
proof (induction n arbitrary: p)
  case 0
  then show ?case by (simp add: word_less_nat_alt)
next
  case (Suc n)
  have u: "unat (p + 16) = unat p + 16" using Suc.prems(1) by (subst unat_add_small) auto
  have m: "map (\<lambda>i. p + 16 * of_nat i) [0..<Suc n] = p # map (\<lambda>i. (p + 16) + 16 * of_nat i) [0..<n]"
    by (simp add: upt_conv_Cons map_Suc_upt[symmetric] algebra_simps del: upt_Suc)
  show ?case
  proof (cases "p < e")
    case True
    then show ?thesis using Suc.IH[of "p + 16"] Suc.prems u unfolding m by simp
  next
    case False
    have "\<not> p + 16 + 16 * of_nat i < e" if "i < n" for i
    proof -
      have "unat (p + 16 + 16 * of_nat i) = unat p + 16 + 16 * i"
        using that Suc.prems(1) u by (subst unat_add_small) (auto simp: unat_word_ariths unat_of_nat)
      with False show ?thesis by (simp add: word_less_nat_alt)
    qed
    with False show ?thesis unfolding m by (auto simp: filter_empty_conv)
  qed
qed

end
