(* ===== verification/Madt.thy ===== *)
theory Madt
  imports Acpi
begin

text \<open>
  The processors and interrupt controllers that the firmware describes: the walk over the records of the
  MADT in \<^verbatim>\<open>arch/x86_64/apic/madt.c\<close>, and the table of cores, \<^verbatim>\<open>arch/x86_64/cores.c\<close>. A position in
  the table is its offset from the start; C pointers into the table do not wrap around.
\<close>

section \<open>State\<close>

record cpu_core =
  logical_id :: u32
  acpi_processor_id :: u8
  apic_id :: u8
  is_awake :: bool

record irq_override =
  ov_gsi :: u32
  ov_flags :: u32

text \<open>
  The globals of \<^verbatim>\<open>apic.c\<close> and \<^verbatim>\<open>cores.c\<close>; \<open>cores\<close> has \<^verbatim>\<open>cores_count\<close> elements. \<open>core_index\<close> and \<open>called\<close> are the
  static variables of the parsers of types 0 and 5.
\<close>

record 's apic =
  ap_env :: 's
  cores :: "cpu_core list"
  lapic :: u64
  ioapic_addr :: u64
  gsi_base :: u32
  irq_overrides :: "irq_override list"
  core_index :: nat
  called :: bool

abbreviation MAX_PIC_IRQ :: u8 where "MAX_PIC_IRQ \<equiv> 15"
abbreviation PIC_IRQ_COUNT :: nat where "PIC_IRQ_COUNT \<equiv> 16"
abbreviation FIRST_MADT_RECORD_OFFSET :: nat where "FIRST_MADT_RECORD_OFFSET \<equiv> 0x2C"
abbreviation MADT_REC_TYPE_0_ENABLED :: u32 where "MADT_REC_TYPE_0_ENABLED \<equiv> 1"
abbreviation sizeof_record_header :: nat where "sizeof_record_header \<equiv> 2"
abbreviation sizeof_record_lapic :: nat where "sizeof_record_lapic \<equiv> 8"
abbreviation sizeof_record_ioapic :: nat where "sizeof_record_ioapic \<equiv> 12"
abbreviation sizeof_record_override :: nat where "sizeof_record_override \<equiv> 10"
abbreviation sizeof_record_lapic_override :: nat where "sizeof_record_lapic_override \<equiv> 12"
abbreviation sizeof_lapic :: u64 where "sizeof_lapic \<equiv> 0x400"

section \<open>The table of cores (cores.c)\<close>

definition zero_core :: cpu_core where
  "zero_core = \<lparr>logical_id = 0, acpi_processor_id = 0, apic_id = 0, is_awake = False\<rparr>"

definition cores_table_init :: "'s kops \<Rightarrow> nat \<Rightarrow> 's apic \<Rightarrow> 's apic exec" where
  "cores_table_init ops cnt st =
     (let (p, s) = kmalloc_op ops (8 * of_nat cnt) (ap_env st) in
      if p = 0 then Panic ''cores_table_init: kmalloc failed''
      else Ret (st\<lparr>ap_env := s, cores := replicate cnt zero_core\<rparr>))"

definition cores_table_set :: "nat \<Rightarrow> cpu_core \<Rightarrow> 's apic \<Rightarrow> 's apic exec" where
  "cores_table_set idx core st =
     (if idx \<ge> length (cores st) then Panic ''cores_array_update: idx is bigger than cores_count.''
      else Ret (st\<lparr>cores := (cores st)[idx := core]\<rparr>))"

definition cores_table_get :: "nat \<Rightarrow> 's apic \<Rightarrow> cpu_core exec" where
  "cores_table_get idx st =
     (if idx \<ge> length (cores st) then Panic ''cpu_table_get: idx is bigger than cores_count.'' else Ret (cores st ! idx))"

section \<open>Records (madt.c)\<close>

text \<open>The fields of the record at \<open>p\<close>.\<close>

definition rec_type :: "mem \<Rightarrow> u64 \<Rightarrow> u8" where "rec_type m p = m p"
definition rec_length :: "mem \<Rightarrow> u64 \<Rightarrow> nat" where "rec_length m p = unat (m (p + 1))"

text \<open>The loop of \<^verbatim>\<open>madt_count_cores\<close> from the offset \<open>off\<close>; \<open>len\<close> is the length of the table.\<close>

function count_loop :: "mem \<Rightarrow> u64 \<Rightarrow> nat \<Rightarrow> nat \<Rightarrow> nat \<Rightarrow> nat exec" where
  "count_loop m madt len off cnt =
     (let p = madt + of_nat off; n = rec_length m p in
      if off + n < len then
        if n < sizeof_record_header
        then Panic ''cores_array_init: invalid record length (rec->length < sizeof(struct madt_record_header).''
        else
          let is_core = rec_type m p = 0 \<and> n \<ge> sizeof_record_lapic \<and> rd32 m (p + 4) AND MADT_REC_TYPE_0_ENABLED \<noteq> 0
          in count_loop m madt len (off + n) (if is_core then cnt + 1 else cnt)
      else Ret cnt)"
  by pat_completeness auto
termination
  by (relation "measure (\<lambda>(m, a, len, off, c). len - off)") auto

declare count_loop.simps [simp del]

definition madt_length :: "mem \<Rightarrow> u64 \<Rightarrow> nat" where
  "madt_length m madt = unat (acpi_length (acpi_header_at m madt))"

definition madt_count_cores :: "mem \<Rightarrow> u64 \<Rightarrow> nat exec" where
  "madt_count_cores m madt = count_loop m madt (madt_length m madt) FIRST_MADT_RECORD_OFFSET 0"

definition madt_parse_record_type_0 :: "mem \<Rightarrow> u64 \<Rightarrow> 's apic \<Rightarrow> 's apic exec" where
  "madt_parse_record_type_0 m p st =
     (if rec_length m p < sizeof_record_lapic then Ret st
      else if rd32 m (p + 4) AND MADT_REC_TYPE_0_ENABLED = 0 then Ret st
      else
        let core = \<lparr>logical_id = of_nat (core_index st), acpi_processor_id = m (p + 2), apic_id = m (p + 3), is_awake = False\<rparr>
        in cores_table_set (core_index st) core (st\<lparr>core_index := core_index st + 1\<rparr>))"

definition madt_parse_record_type_1 :: "mem \<Rightarrow> u64 \<Rightarrow> 's apic \<Rightarrow> 's apic exec" where
  "madt_parse_record_type_1 m p st =
     (if rec_length m p < sizeof_record_ioapic then Ret st
      else if rd32 m (p + 8) \<noteq> 0 then Ret st
      else Ret (st\<lparr>ioapic_addr := PHYS_TO_VIRT (ucast (rd32 m (p + 4))), gsi_base := rd32 m (p + 8)\<rparr>))"

definition madt_parse_record_type_2 :: "mem \<Rightarrow> u64 \<Rightarrow> 's apic \<Rightarrow> 's apic exec" where
  "madt_parse_record_type_2 m p st =
     (if rec_length m p < sizeof_record_override then Ret st
      else if m (p + 3) > MAX_PIC_IRQ then Ret st
      else exec_bind (array_set (irq_overrides st) (unat (m (p + 3))) \<lparr>ov_gsi = rd32 m (p + 4), ov_flags = ucast (rd16 m (p + 8))\<rparr>)
             (\<lambda>ov. Ret (st\<lparr>irq_overrides := ov\<rparr>)))"

definition madt_parse_record_type_5 ::
    "(u64 \<Rightarrow> u64 \<Rightarrow> 's \<Rightarrow> (u64 \<times> 's) exec) \<Rightarrow> mem \<Rightarrow> u64 \<Rightarrow> 's apic \<Rightarrow> 's apic exec" where
  "madt_parse_record_type_5 iomap m p st =
     (if rec_length m p < sizeof_record_lapic_override then Ret st
      else if called st then Panic ''madt_parse_record_type_5: multiple records of type 5.''
      else exec_bind (iomap (rd64 m (p + 4)) sizeof_lapic (ap_env st)) (\<lambda>(l, s).
             Ret (st\<lparr>called := True, ap_env := s, lapic := l\<rparr>)))"

text \<open>Records of type 3 and 4 are skipped.\<close>

definition parse_record ::
    "(u64 \<Rightarrow> u64 \<Rightarrow> 's \<Rightarrow> (u64 \<times> 's) exec) \<Rightarrow> mem \<Rightarrow> u64 \<Rightarrow> 's apic \<Rightarrow> 's apic exec" where
  "parse_record iomap m p st =
     (let t = rec_type m p in
      if t = 0 then madt_parse_record_type_0 m p st
      else if t = 1 then madt_parse_record_type_1 m p st
      else if t = 2 then madt_parse_record_type_2 m p st
      else if t = 3 \<or> t = 4 then Ret st
      else if t = 5 then madt_parse_record_type_5 iomap m p st
      else Panic ''madt_parse_recoreds: unexpexted record type.'')"

text \<open>The loop of \<^verbatim>\<open>madt_parse_recoreds\<close> does not look at the length: a record of length 0 is parsed again and again.\<close>

primrec parse_loop ::
    "nat \<Rightarrow> (u64 \<Rightarrow> u64 \<Rightarrow> 's \<Rightarrow> (u64 \<times> 's) exec) \<Rightarrow> mem \<Rightarrow> u64 \<Rightarrow> nat \<Rightarrow> nat \<Rightarrow> 's apic \<Rightarrow> 's apic exec" where
  "parse_loop 0 iomap m madt len off st = Diverge"
| "parse_loop (Suc fuel) iomap m madt len off st =
     (let p = madt + of_nat off; n = rec_length m p in
      if off + n < len
      then exec_bind (parse_record iomap m p st) (parse_loop fuel iomap m madt len (off + n))
      else Ret st)"

definition madt_parse_recoreds ::
    "nat \<Rightarrow> (u64 \<Rightarrow> u64 \<Rightarrow> 's \<Rightarrow> (u64 \<times> 's) exec) \<Rightarrow> mem \<Rightarrow> u64 \<Rightarrow> 's apic \<Rightarrow> 's apic exec" where
  "madt_parse_recoreds fuel iomap m madt st =
     parse_loop fuel iomap m madt (madt_length m madt) FIRST_MADT_RECORD_OFFSET st"

section \<open>What the walk finds\<close>

text \<open>The records a table can hold, and that memory holds one at \<open>p\<close>. The bytes of the types 3 and 4 do not matter.\<close>

datatype madt_record =
    Local_apic u8 u8 u32
  | Io_apic u32 u32
  | Source_override u8 u32 u16
  | Nmi_record nat
  | Lapic_override u64

fun record_at :: "mem \<Rightarrow> u64 \<Rightarrow> madt_record \<Rightarrow> bool" where
  "record_at m p (Local_apic pid aid flags) \<longleftrightarrow> rec_type m p = 0 \<and> m (p + 2) = pid \<and> m (p + 3) = aid \<and> rd32 m (p + 4) = flags"
| "record_at m p (Io_apic addr gsi) \<longleftrightarrow> rec_type m p = 1 \<and> rd32 m (p + 4) = addr \<and> rd32 m (p + 8) = gsi"
| "record_at m p (Source_override irq gsi flags) \<longleftrightarrow>
     rec_type m p = 2 \<and> m (p + 3) = irq \<and> rd32 m (p + 4) = gsi \<and> rd16 m (p + 8) = flags"
| "record_at m p (Nmi_record n) \<longleftrightarrow> rec_type m p \<in> {3, 4} \<and> 2 \<le> n"
| "record_at m p (Lapic_override addr) \<longleftrightarrow> rec_type m p = 5 \<and> rd64 m (p + 4) = addr"

fun record_size :: "madt_record \<Rightarrow> nat" where
  "record_size (Local_apic _ _ _) = 8"
| "record_size (Io_apic _ _) = 12"
| "record_size (Source_override _ _ _) = 10"
| "record_size (Nmi_record n) = n"
| "record_size (Lapic_override _) = 12"

fun records_at :: "mem \<Rightarrow> u64 \<Rightarrow> nat \<Rightarrow> madt_record list \<Rightarrow> bool" where
  "records_at m madt off [] \<longleftrightarrow> True"
| "records_at m madt off (r # rs) \<longleftrightarrow> record_at m (madt + of_nat off) r
     \<and> rec_length m (madt + of_nat off) = record_size r \<and> records_at m madt (off + record_size r) rs"

definition holds_madt :: "mem \<Rightarrow> u64 \<Rightarrow> madt_record list \<Rightarrow> bool" where
  "holds_madt m madt rs \<longleftrightarrow> records_at m madt FIRST_MADT_RECORD_OFFSET rs
     \<and> madt_length m madt = FIRST_MADT_RECORD_OFFSET + sum_list (map record_size rs)"

text \<open>The processors that are enabled, and what a record does to the other globals.\<close>

fun enabled_core :: "madt_record \<Rightarrow> (u8 \<times> u8) option" where
  "enabled_core (Local_apic pid aid flags) = (if flags AND MADT_REC_TYPE_0_ENABLED \<noteq> 0 then Some (pid, aid) else None)"
| "enabled_core _ = None"

definition enabled_cores :: "madt_record list \<Rightarrow> (u8 \<times> u8) list" where
  "enabled_cores rs = List.map_filter enabled_core rs"

definition number_cores :: "nat \<Rightarrow> (u8 \<times> u8) list \<Rightarrow> cpu_core list" where
  "number_cores k cs = map (\<lambda>(i, pid, aid). \<lparr>logical_id = of_nat i, acpi_processor_id = pid, apic_id = aid, is_awake = False\<rparr>)
     (List.enumerate k cs)"

fun override_of :: "madt_record \<Rightarrow> irq_override list \<Rightarrow> irq_override list" where
  "override_of (Source_override irq gsi flags) ov =
     (if irq > MAX_PIC_IRQ then ov else ov[unat irq := \<lparr>ov_gsi = gsi, ov_flags = ucast flags\<rparr>])"
| "override_of _ ov = ov"

fun ioapic_of :: "madt_record \<Rightarrow> u64 \<Rightarrow> u64" where
  "ioapic_of (Io_apic addr gsi) a = (if gsi = 0 then PHYS_TO_VIRT (ucast addr) else a)"
| "ioapic_of _ a = a"

lemma enabled_cores_simps [simp]: "enabled_cores [] = []"
  "enabled_cores (r # rs) = (case enabled_core r of None \<Rightarrow> enabled_cores rs | Some c \<Rightarrow> c # enabled_cores rs)"
  unfolding enabled_cores_def by simp_all

lemma record_size_ge: "record_at m p r \<Longrightarrow> 2 \<le> record_size r"
  by (cases r) auto

lemma butlast_step: "butlast (r # rs) = (if rs = [] then [] else r # butlast rs)"
  by simp

lemma sizes_pos: "records_at m madt off rs \<Longrightarrow> rs \<noteq> [] \<Longrightarrow> 0 < sum_list (map record_size rs)"
  using record_size_ge by (cases rs) fastforce+

lemma count_loop_records:
  assumes "records_at m madt off rs" "rs \<noteq> []" "len = off + sum_list (map record_size rs)"
  shows "count_loop m madt len off cnt = Ret (cnt + length (enabled_cores (butlast rs)))"
  using assms
proof (induction rs arbitrary: off cnt)
  case (Cons r rs)
  let ?p = "madt + of_nat off"
  have r: "record_at m ?p r" "rec_length m ?p = record_size r" "records_at m madt (off + record_size r) rs"
    using Cons.prems(1) by auto
  have core: "rec_type m ?p = 0 \<and> record_size r \<ge> 8 \<and> rd32 m (?p + 4) AND MADT_REC_TYPE_0_ENABLED \<noteq> 0 \<longleftrightarrow> enabled_core r \<noteq> None"
    using r(1) by (cases r) auto
  show ?case
  proof (cases "rs = []")
    case True
    then show ?thesis using r(2) Cons.prems(3) by (subst count_loop.simps) simp
  next
    case False
    with sizes_pos[OF r(3)] have "off + record_size r < len" using Cons.prems(3) by simp
    then have "count_loop m madt len off cnt = count_loop m madt len (off + record_size r) (if enabled_core r \<noteq> None then cnt + 1 else cnt)"
      using r(2) record_size_ge[OF r(1)] core by (subst count_loop.simps) (simp add: Let_def)
    then show ?thesis using Cons.IH[OF r(3) False] Cons.prems(3) False by (auto split: option.splits)
  qed
qed simp

text \<open>The walk handles every record but the last, one after the other.\<close>

lemma parse_loop_records:
  assumes "records_at m madt off rs" "len = off + sum_list (map record_size rs)" "length rs < fuel"
    and "\<And>p r st. record_at m p r \<Longrightarrow> rec_length m p = record_size r \<Longrightarrow> parse_record iomap m p st = f r st"
  shows "parse_loop fuel iomap m madt len off st = exec_fold f (butlast rs) st"
  using assms(1-3)
proof (induction rs arbitrary: off fuel st)
  case Nil
  then show ?case by (cases fuel) auto
next
  case (Cons r rs)
  let ?p = "madt + of_nat off"
  have r: "record_at m ?p r" "rec_length m ?p = record_size r" "records_at m madt (off + record_size r) rs"
    using Cons.prems(1) by auto
  obtain n where n: "fuel = Suc n" "length rs < n" using Cons.prems(3) by (cases fuel) auto
  show ?case
  proof (cases "rs = []")
    case True
    then show ?thesis using r(2) n Cons.prems(2) by simp
  next
    case False
    with sizes_pos[OF r(3)] have l: "off + record_size r < len" using Cons.prems(2) by simp
    have "parse_loop n iomap m madt len (off + record_size r) = exec_fold f (butlast rs)"
      using Cons.IH[OF r(3) _ n(2)] Cons.prems(2) by auto
    then show ?thesis using l n(1) r(2) False assms(4)[OF r(1,2)] by simp
  qed
qed

text \<open>One record as a change of the state.\<close>

fun apply_record :: "(u64 \<Rightarrow> u64 \<Rightarrow> 's \<Rightarrow> (u64 \<times> 's) exec) \<Rightarrow> madt_record \<Rightarrow> 's apic \<Rightarrow> 's apic exec" where
  "apply_record iomap (Local_apic pid aid flags) st =
     (if flags AND MADT_REC_TYPE_0_ENABLED = 0 then Ret st
      else cores_table_set (core_index st) \<lparr>logical_id = of_nat (core_index st), acpi_processor_id = pid, apic_id = aid, is_awake = False\<rparr>
        (st\<lparr>core_index := core_index st + 1\<rparr>))"
| "apply_record iomap (Io_apic addr gsi) st =
     (if gsi \<noteq> 0 then Ret st else Ret (st\<lparr>ioapic_addr := PHYS_TO_VIRT (ucast addr), gsi_base := gsi\<rparr>))"
| "apply_record iomap (Source_override irq gsi flags) st =
     (if irq > MAX_PIC_IRQ then Ret st
      else exec_bind (array_set (irq_overrides st) (unat irq) \<lparr>ov_gsi = gsi, ov_flags = ucast flags\<rparr>) (\<lambda>ov. Ret (st\<lparr>irq_overrides := ov\<rparr>)))"
| "apply_record iomap (Nmi_record n) st = Ret st"
| "apply_record iomap (Lapic_override addr) st =
     (if called st then Panic ''madt_parse_record_type_5: multiple records of type 5.''
      else exec_bind (iomap addr sizeof_lapic (ap_env st)) (\<lambda>(l, s). Ret (st\<lparr>called := True, ap_env := s, lapic := l\<rparr>)))"

lemma parse_record_apply:
  assumes "record_at m p r" "rec_length m p = record_size r"
  shows "parse_record iomap m p st = apply_record iomap r st"
  using assms by (cases r) (auto simp: parse_record_def madt_parse_record_type_0_def madt_parse_record_type_1_def
      madt_parse_record_type_2_def madt_parse_record_type_5_def Let_def)

fun is_lapic_override :: "madt_record \<Rightarrow> bool" where
  "is_lapic_override (Lapic_override _) = True"
| "is_lapic_override _ = False"

lemma number_cores_simps: "number_cores k [] = []"
  "number_cores k ((pid, aid) # cs) =
     \<lparr>logical_id = of_nat k, acpi_processor_id = pid, apic_id = aid, is_awake = False\<rparr> # number_cores (Suc k) cs"
  by (simp_all add: number_cores_def)

definition apic_ready :: "'s apic \<Rightarrow> madt_record list \<Rightarrow> bool" where
  "apic_ready st rs \<longleftrightarrow> length (irq_overrides st) = PIC_IRQ_COUNT
     \<and> core_index st + length (enabled_cores rs) \<le> length (cores st)
     \<and> length (filter is_lapic_override rs) + (if called st then 1 else 0) \<le> 1"

lemma apply_record_step:
  assumes "apic_ready st (r # rs)" "\<forall>a n s. \<exists>x. iomap a n s = Ret x"
  shows "\<exists>st'. apply_record iomap r st = Ret st' \<and> apic_ready st' rs \<and> length (cores st') = length (cores st)
    \<and> core_index st' = core_index st + length (enabled_cores [r])
    \<and> take (core_index st') (cores st') = take (core_index st) (cores st) @ number_cores (core_index st) (enabled_cores [r])
    \<and> irq_overrides st' = override_of r (irq_overrides st) \<and> ioapic_addr st' = ioapic_of r (ioapic_addr st)"
proof (cases r)
  case (Local_apic pid aid flags)
  then show ?thesis using assms(1)
    by (auto simp: apic_ready_def cores_table_set_def number_cores_simps take_Suc_conv_app_nth split: if_splits)
next
  case (Source_override irq gsi flags)
  then show ?thesis using assms(1) by (auto simp: apic_ready_def number_cores_simps word_le_nat_alt word_less_nat_alt)
next
  case (Lapic_override addr)
  obtain l s where "iomap addr sizeof_lapic (ap_env st) = Ret (l, s)" using assms(2) by (metis surj_pair)
  then show ?thesis using Lapic_override assms(1) by (auto simp: apic_ready_def number_cores_simps split: if_splits)
qed (use assms(1) in \<open>auto simp: apic_ready_def number_cores_simps\<close>)

lemma number_cores_append: "number_cores k (xs @ ys) = number_cores k xs @ number_cores (k + length xs) ys"
  by (simp add: number_cores_def enumerate_append_eq)

lemma enabled_cores_Cons: "enabled_cores (r # rs) = enabled_cores [r] @ enabled_cores rs"
  by (simp split: option.splits)

lemma apply_records:
  assumes "apic_ready st rs" "\<forall>a n s. \<exists>x. iomap a n s = Ret x"
  shows "\<exists>st'. exec_fold (apply_record iomap) rs st = Ret st' \<and> length (cores st') = length (cores st)
    \<and> core_index st' = core_index st + length (enabled_cores rs)
    \<and> take (core_index st') (cores st') = take (core_index st) (cores st) @ number_cores (core_index st) (enabled_cores rs)
    \<and> irq_overrides st' = fold override_of rs (irq_overrides st) \<and> ioapic_addr st' = fold ioapic_of rs (ioapic_addr st)"
  using assms(1)
proof (induction rs arbitrary: st)
  case Nil
  then show ?case by (simp add: number_cores_simps)
next
  case (Cons r rs)
  obtain st1 where s: "apply_record iomap r st = Ret st1" "apic_ready st1 rs" "length (cores st1) = length (cores st)"
    "core_index st1 = core_index st + length (enabled_cores [r])"
    "take (core_index st1) (cores st1) = take (core_index st) (cores st) @ number_cores (core_index st) (enabled_cores [r])"
    "irq_overrides st1 = override_of r (irq_overrides st)" "ioapic_addr st1 = ioapic_of r (ioapic_addr st)"
    using apply_record_step[OF Cons.prems assms(2)] by blast
  obtain st' where t: "exec_fold (apply_record iomap) rs st1 = Ret st'" "length (cores st') = length (cores st1)"
    "core_index st' = core_index st1 + length (enabled_cores rs)"
    "take (core_index st') (cores st') = take (core_index st1) (cores st1) @ number_cores (core_index st1) (enabled_cores rs)"
    "irq_overrides st' = fold override_of rs (irq_overrides st1)" "ioapic_addr st' = fold ioapic_of rs (ioapic_addr st1)"
    using Cons.IH[OF s(2)] by blast
  show ?case
    using s t by (intro exI[of _ st']) (simp add: enabled_cores_Cons[of r rs] number_cores_append del: enabled_cores_simps(2))
qed


text \<open>A table with one processor, one I/O APIC, and the override of interrupt 0 to input 2 as its last record.\<close>

definition witness_madt :: mem where
  "witness_madt a = (let bs = [0x41, 0x50, 0x49, 0x43, 0x4A, 0, 0, 0] @ replicate 36 0 @ [0, 8, 7, 3, 1, 0, 0, 0]
       @ [1, 12, 9, 0, 0, 0, 0xC0, 0xFE, 0, 0, 0, 0] @ [2, 10, 0, 0, 2, 0, 0, 0, 0, 0]
     in if unat a < length bs then bs ! unat a else 0)"


end
