(* ===== verification/Kspace.thy ===== *)
theory Kspace
  imports Kenv Vmm
begin

text \<open>
  The environment of the drivers together with the kernel's page table: \<^verbatim>\<open>ioremap\<close> takes the frames of its
  tables from the same allocator as the heap and the page allocator.
\<close>

record kspace =
  ks_mem :: mem
  ks_pgd :: u64
  ks_cr3 :: u64

definition kernel_ioremap :: "bool \<Rightarrow> u64 \<Rightarrow> u64 \<Rightarrow> kspace kenv \<Rightarrow> (u64 \<times> kspace kenv) exec" where
  "kernel_ioremap g1 paddr sz s =
     exec_bind (ioremap pmm_alloc_frame g1 paddr sz \<lparr>frames = kpmm (kheap_of s), vmem = ks_mem (kdisk s),
         kernel_pgd = ks_pgd (kdisk s), cr3 = ks_cr3 (kdisk s)\<rparr>) (\<lambda>(p, v).
       Ret (p, s\<lparr>kheap_of := (kheap_of s)\<lparr>kpmm := frames v\<rparr>,
                 kdisk := \<lparr>ks_mem = vmem v, ks_pgd = kernel_pgd v, ks_cr3 = cr3 v\<rparr>\<rparr>))"

lemma kernel_ioremap_window: "kernel_ioremap g1 paddr sz s = Ret (p, s') \<Longrightarrow> p = PHYS_TO_VIRT paddr"
  by (auto simp: kernel_ioremap_def ioremap_def Let_def exec_bind_Ret_iff)

end
