(* ===== verification/Apic.thy ===== *)
theory Apic
  imports Madt Kspace
begin

text \<open>
  The interrupt controllers: \<^verbatim>\<open>arch/x86_64/apic/apic.c\<close> and, for the old controller and the timer that
  calibrates the new one, \<^verbatim>\<open>arch/x86_64/apic/pic.c\<close>. Registers are accesses of the hardware interface at the
  offsets of \<^verbatim>\<open>struct lapic\<close>; the I/O APIC is reached through an index and a data register.
\<close>

section \<open>The PIC and the PIT (pic.c)\<close>

abbreviation PIC1_COMMAND :: u16 where "PIC1_COMMAND \<equiv> 0x20"
abbreviation PIC1_DATA :: u16 where "PIC1_DATA \<equiv> 0x21"
abbreviation PIC2_COMMAND :: u16 where "PIC2_COMMAND \<equiv> 0xA0"
abbreviation PIC2_DATA :: u16 where "PIC2_DATA \<equiv> 0xA1"
abbreviation PIC_EOI :: u8 where "PIC_EOI \<equiv> 0x20"
abbreviation ICW1_INIT :: u8 where "ICW1_INIT \<equiv> 0x10"
abbreviation ICW1_ICW4_PRESENT :: u8 where "ICW1_ICW4_PRESENT \<equiv> 0x01"
abbreviation ICW4_8086 :: u8 where "ICW4_8086 \<equiv> 0x01"
abbreviation PIC1_OFFSET :: u8 where "PIC1_OFFSET \<equiv> 0x20"
abbreviation PIC2_OFFSET :: u8 where "PIC2_OFFSET \<equiv> 0x28"
abbreviation PIT_CH0_PORT :: u16 where "PIT_CH0_PORT \<equiv> 0x40"
abbreviation PIT_CMD_PORT :: u16 where "PIT_CMD_PORT \<equiv> 0x43"

definition io_wait :: "'d hw \<Rightarrow> 'd \<Rightarrow> 'd" where
  "io_wait hw d = outb_op hw 0x80 0 d"

definition picEIO :: "'d hw \<Rightarrow> u8 \<Rightarrow> 'd \<Rightarrow> 'd" where
  "picEIO hw irq d = outb_op hw PIC1_COMMAND PIC_EOI (if irq \<ge> 8 then outb_op hw PIC2_COMMAND PIC_EOI d else d)"

definition remap_pic :: "'d hw \<Rightarrow> u8 \<Rightarrow> u8 \<Rightarrow> 'd \<Rightarrow> 'd" where
  "remap_pic hw offset1 offset2 d =
     (let d1 = io_wait hw (outb_op hw PIC1_COMMAND (ICW1_INIT OR ICW1_ICW4_PRESENT) d);
          d2 = io_wait hw (outb_op hw PIC2_COMMAND (ICW1_INIT OR ICW1_ICW4_PRESENT) d1);
          d3 = io_wait hw (outb_op hw PIC1_DATA offset1 d2);
          d4 = outb_op hw PIC2_DATA offset2 d3;
          d5 = io_wait hw (outb_op hw PIC1_DATA (push_bit 2 1) d4);
          d6 = io_wait hw (outb_op hw PIC2_DATA 2 d5);
          d7 = io_wait hw (outb_op hw PIC1_DATA ICW4_8086 d6)
      in io_wait hw (outb_op hw PIC2_DATA ICW4_8086 d7))"

definition disable_pic :: "'d hw \<Rightarrow> 'd \<Rightarrow> 'd" where
  "disable_pic hw d = outb_op hw PIC2_DATA 0xff (outb_op hw PIC1_DATA 0xff d)"

definition enable_pic :: "'d hw \<Rightarrow> 'd \<Rightarrow> 'd" where
  "enable_pic hw d = outb_op hw PIC2_DATA 0 (outb_op hw PIC1_DATA 0 d)"

text \<open>The loop of \<^verbatim>\<open>pit_sleep\<close> asks for the status until the output bit is set.\<close>

definition pit_sleep :: "'d hw \<Rightarrow> nat \<Rightarrow> u16 \<Rightarrow> 'd \<Rightarrow> 'd exec" where
  "pit_sleep hw fuel cnt d =
     (let d1 = outb_op hw PIT_CH0_PORT (ucast (drop_bit 8 cnt)) (outb_op hw PIT_CH0_PORT (ucast cnt) (outb_op hw PIT_CMD_PORT 0x30 d))
      in poll fuel (\<lambda>d. case inb_op hw PIT_CH0_PORT (outb_op hw PIT_CMD_PORT 0xE2 d) of (status, d') \<Rightarrow> (status AND 0x80 = 0, d')) d1)"

definition pit_sleep_10ms :: "'d hw \<Rightarrow> nat \<Rightarrow> 'd \<Rightarrow> 'd exec" where
  "pit_sleep_10ms hw fuel = pit_sleep hw fuel 11932"

section \<open>The I/O APIC and local APIC (apic.c)\<close>

abbreviation LAPIC_ID :: u64 where "LAPIC_ID \<equiv> 0x20"
abbreviation LAPIC_EOI :: u64 where "LAPIC_EOI \<equiv> 0xB0"
abbreviation LAPIC_SIVR :: u64 where "LAPIC_SIVR \<equiv> 0xF0"
abbreviation LAPIC_LVT_TIMER :: u64 where "LAPIC_LVT_TIMER \<equiv> 0x320"
abbreviation LAPIC_INIT_COUNT :: u64 where "LAPIC_INIT_COUNT \<equiv> 0x380"
abbreviation LAPIC_CURRENT_COUNT :: u64 where "LAPIC_CURRENT_COUNT \<equiv> 0x390"
abbreviation LAPIC_DIV_CONFIG :: u64 where "LAPIC_DIV_CONFIG \<equiv> 0x3E0"
abbreviation IOAPIC_VERSION_OFFSET :: u32 where "IOAPIC_VERSION_OFFSET \<equiv> 0x01"
abbreviation IOAPIC_REDIRECTION_TABLE_START_OFFSET :: u32 where "IOAPIC_REDIRECTION_TABLE_START_OFFSET \<equiv> 0x10"
abbreviation IOAPIC_SIZE :: u64 where "IOAPIC_SIZE \<equiv> 8"

definition irq_overrides_init :: "'s apic \<Rightarrow> 's apic" where
  "irq_overrides_init st = st\<lparr>irq_overrides := map (\<lambda>i. \<lparr>ov_gsi = of_nat i, ov_flags = 0\<rparr>) [0..<PIC_IRQ_COUNT]\<rparr>"

definition get_current_apic_id :: "'d hw \<Rightarrow> 's apic \<Rightarrow> 'd \<Rightarrow> u32 \<times> 'd" where
  "get_current_apic_id hw st d = (case readl_op hw (lapic st + LAPIC_ID) d of (v, d') \<Rightarrow> (drop_bit 24 v, d'))"

text \<open>One round of \<^verbatim>\<open>update_awake_cores\<close>; the count has 8 bits.\<close>

definition update_core :: "'d hw \<Rightarrow> nat \<Rightarrow> u8 \<times> 's apic \<times> 'd \<Rightarrow> (u8 \<times> 's apic \<times> 'd) exec" where
  "update_core hw i = (\<lambda>(awake, st, d).
     exec_bind (cores_table_get i st) (\<lambda>core.
       let (cur, d1) = get_current_apic_id hw st d in
       if ucast (apic_id core) = cur
       then exec_bind (cores_table_set i (core\<lparr>is_awake := True\<rparr>) st) (\<lambda>st1. Ret (awake + 1, st1, d1))
       else Ret (awake, st, d1)))"

definition update_awake_cores :: "'d hw \<Rightarrow> 's apic \<Rightarrow> 'd \<Rightarrow> (u8 \<times> 's apic \<times> 'd) exec" where
  "update_awake_cores hw st d = exec_fold (update_core hw) [0..<length (cores st)] (0, st, d)"

definition ioapic_read :: "'d hw \<Rightarrow> 's apic \<Rightarrow> u32 \<Rightarrow> 'd \<Rightarrow> u32 \<times> 'd" where
  "ioapic_read hw st reg d = readl_op hw (ioapic_addr st + 16) (writel_op hw (ioapic_addr st) reg d)"

definition ioapic_max_redirection_entries :: "'d hw \<Rightarrow> 's apic \<Rightarrow> 'd \<Rightarrow> u8 \<times> 'd" where
  "ioapic_max_redirection_entries hw st d =
     (case ioapic_read hw st IOAPIC_VERSION_OFFSET d of (ver, d') \<Rightarrow> (ucast (drop_bit 16 ver), d'))"

definition ioapic_write :: "'d hw \<Rightarrow> 's apic \<Rightarrow> u32 \<Rightarrow> u32 \<Rightarrow> 'd \<Rightarrow> 'd" where
  "ioapic_write hw st reg val d = writel_op hw (ioapic_addr st + 16) val (writel_op hw (ioapic_addr st) reg d)"

record ioapic_redirection_entry =
  re_vector :: u8
  re_delivery :: u8
  re_dest_mode :: bool
  re_status :: bool
  re_polarity :: bool
  re_remote_irr :: bool
  re_trigger :: bool
  re_mask :: bool
  re_dest :: u8

text \<open>The two dwords of the union.\<close>

definition lower_dword :: "ioapic_redirection_entry \<Rightarrow> u32" where
  "lower_dword e = ucast (re_vector e) OR push_bit 8 (take_bit 3 (ucast (re_delivery e))) OR push_bit 11 (of_bool (re_dest_mode e))
     OR push_bit 12 (of_bool (re_status e)) OR push_bit 13 (of_bool (re_polarity e)) OR push_bit 14 (of_bool (re_remote_irr e))
     OR push_bit 15 (of_bool (re_trigger e)) OR push_bit 16 (of_bool (re_mask e))"

definition upper_dword :: "ioapic_redirection_entry \<Rightarrow> u32" where
  "upper_dword e = push_bit 24 (ucast (re_dest e))"

definition ioapic_write_entry :: "'d hw \<Rightarrow> 's apic \<Rightarrow> u32 \<Rightarrow> ioapic_redirection_entry \<Rightarrow> 'd \<Rightarrow> 'd exec" where
  "ioapic_write_entry hw st pin e d =
     (if pin < gsi_base st then Panic ''ioapic_write_entry: pin/gsi not in range.''
      else
        let (n, d1) = ioapic_max_redirection_entries hw st d in
        if pin \<ge> gsi_base st + ucast n then Panic ''ioapic_write_entry: pin/gsi not in range.''
        else Ret (ioapic_write hw st (IOAPIC_REDIRECTION_TABLE_START_OFFSET + pin * 2) (lower_dword e)
               (ioapic_write hw st (IOAPIC_REDIRECTION_TABLE_START_OFFSET + pin * 2 + 1) (upper_dword e) d1)))"

definition enable_lapic :: "'d hw \<Rightarrow> 's apic \<Rightarrow> 'd \<Rightarrow> 'd" where
  "enable_lapic hw st d = writel_op hw (lapic st + LAPIC_SIVR) (0x100 OR 0xFF) d"

definition apic_eoi :: "'d hw \<Rightarrow> 's apic \<Rightarrow> 'd \<Rightarrow> 'd" where
  "apic_eoi hw st d = writel_op hw (lapic st + LAPIC_EOI) 0 d"

definition apic_route_irq :: "'d hw \<Rightarrow> 's apic \<Rightarrow> u8 \<Rightarrow> u8 \<Rightarrow> 'd \<Rightarrow> 'd exec" where
  "apic_route_irq hw st irq vector d =
     exec_bind (if irq \<le> MAX_PIC_IRQ then array_get (irq_overrides st) (unat irq) else Ret \<lparr>ov_gsi = ucast irq, ov_flags = 0\<rparr>) (\<lambda>ov.
       let flags = ov_flags ov;
           e = \<lparr>re_vector = vector, re_delivery = 0, re_dest_mode = False, re_status = False, re_polarity = (flags AND 3 = 3),
                re_remote_irr = False, re_trigger = (drop_bit 2 flags AND 3 = 3), re_mask = False, re_dest = 0\<rparr>
       in ioapic_write_entry hw st (ov_gsi ov) e d)"

definition lapic_timer_init :: "'d hw \<Rightarrow> nat \<Rightarrow> 's apic \<Rightarrow> u8 \<Rightarrow> 'd \<Rightarrow> 'd exec" where
  "lapic_timer_init hw fuel st vector d =
     (let w = (\<lambda>off. writel_op hw (lapic st + off));
          d1 = w LAPIC_INIT_COUNT 0xFFFFFFFF (w LAPIC_LVT_TIMER 0x10000 (w LAPIC_DIV_CONFIG 0x03 d))
      in exec_bind (pit_sleep_10ms hw fuel d1) (\<lambda>d2.
           let (current_count, d3) = readl_op hw (lapic st + LAPIC_CURRENT_COUNT) d2;
               d4 = w LAPIC_INIT_COUNT 0 d3;
               ticks_in_10ms = 0xFFFFFFFF - current_count;
               d5 = w LAPIC_LVT_TIMER (0x20000 OR ucast vector) (w LAPIC_DIV_CONFIG 0x03 d4)
           in Ret (w LAPIC_INIT_COUNT ticks_in_10ms d5)))"

definition MADT_SIGNATURE :: "u8 list" where "MADT_SIGNATURE = [0x41, 0x50, 0x49, 0x43]"

text \<open>\<open>m\<close> is the memory of the firmware, \<open>fuel\<close> bounds the walk over the MADT and the wait for the PIT.\<close>

definition init_apic :: "'d hw \<Rightarrow> 's kops \<Rightarrow> (u64 \<Rightarrow> u64 \<Rightarrow> 's \<Rightarrow> (u64 \<times> 's) exec) \<Rightarrow> mem \<Rightarrow> nat \<Rightarrow> u64 option \<Rightarrow>
    's apic \<Rightarrow> 'd \<Rightarrow> (u64 option \<times> 's apic \<times> 'd) exec" where
  "init_apic hw ops iomap m fuel searched st d =
     (let d1 = disable_pic hw (remap_pic hw PIC1_OFFSET PIC2_OFFSET d);
          st1 = irq_overrides_init st
      in exec_bind (get_rsdp iomap m searched (ap_env st1)) (\<lambda>(rp, searched', s1).
         if rp = 0 then Panic ''init_apic: couldn't find RSDP.''
         else exec_bind (sdt_find iomap m rp MADT_SIGNATURE s1) (\<lambda>(madt, s2).
           if madt = 0 then Panic ''init_apic: couldn't find MADT.''
           else exec_bind (madt_count_cores m madt) (\<lambda>cnt.
             if cnt = 0 then Panic ''madt_count_cores: cores count is zero.''
             else exec_bind (cores_table_init ops cnt (st1\<lparr>ap_env := s2\<rparr>)) (\<lambda>st2.
               exec_bind (iomap (ucast (rd32 m (madt + 36))) sizeof_lapic (ap_env st2)) (\<lambda>(l, s3).
               exec_bind (madt_parse_recoreds fuel iomap m madt (st2\<lparr>ap_env := s3, lapic := l\<rparr>)) (\<lambda>st3.
                 if ioapic_addr st3 = 0 then Panic ''init_apic: couldn't find I/O APIC.''
                 else exec_bind (update_awake_cores hw st3 d1) (\<lambda>(awake, st4, d2).
                   if awake \<noteq> 1 then Panic ''init_apic: found more or less than 1 awake core.''
                   else exec_bind (iomap (VIRT_TO_PHYS (ioapic_addr st4)) IOAPIC_SIZE (ap_env st4)) (\<lambda>(_, s4).
                     let st5 = st4\<lparr>ap_env := s4\<rparr>
                     in exec_bind (lapic_timer_init hw fuel st5 32 (enable_lapic hw st5 d2)) (\<lambda>d3.
                          Ret (searched', st5, d3)))))))))))"

section \<open>Properties\<close>

text \<open>On the kernel's page tables the search of the BIOS area returns its first root pointer, or null.\<close>

lemma get_rsdp_kernel:
  assumes "get_rsdp (kernel_ioremap g1) m None s = Ret (r, searched, s')"
  shows "r = (case find (is_rsdp m) (filter (\<lambda>q. q < PHYS_TO_VIRT RSDP_REGION_END)
        (map (\<lambda>i. PHYS_TO_VIRT RSDP_REGION_START + 16 * of_nat i) [0..<8192])) of None \<Rightarrow> 0 | Some q \<Rightarrow> q)
    \<and> searched = Some r"
proof -
  obtain p s1 where i: "kernel_ioremap g1 RSDP_REGION_START (RSDP_REGION_END - RSDP_REGION_START) s = Ret (p, s1)"
    and l: "rsdp_loop rsdp_fuel m p (PHYS_TO_VIRT RSDP_REGION_END) = Ret r" "searched = Some r"
    using assms by (auto simp: get_rsdp_def exec_bind_Ret_iff)
  have "rsdp_loop (Suc 8192) m (PHYS_TO_VIRT RSDP_REGION_START) (PHYS_TO_VIRT RSDP_REGION_END) =
    Ret (case find (is_rsdp m) (filter (\<lambda>q. q < PHYS_TO_VIRT RSDP_REGION_END)
        (map (\<lambda>i. PHYS_TO_VIRT RSDP_REGION_START + 16 * of_nat i) [0..<8192])) of None \<Rightarrow> 0 | Some q \<Rightarrow> q)"
    by (rule rsdp_loop_first) (simp_all add: PHYS_TO_VIRT_def)
  with l kernel_ioremap_window[OF i] show ?thesis by (simp del: upt_rec_numeral rsdp_loop.simps)
qed

text \<open>The bits of a redirection entry.\<close>

lemma bit_push_of_bool: "k < 32 \<Longrightarrow> bit (push_bit k (of_bool b) :: u32) n \<longleftrightarrow> n = k \<and> b"
  by (auto simp: bit_simps)

lemma bit_lower_dword:
  assumes "re_delivery e = 0"
  shows "bit (lower_dword e) n \<longleftrightarrow> n < 8 \<and> bit (re_vector e) n \<or> n = 11 \<and> re_dest_mode e \<or> n = 12 \<and> re_status e
      \<or> n = 13 \<and> re_polarity e \<or> n = 14 \<and> re_remote_irr e \<or> n = 15 \<and> re_trigger e \<or> n = 16 \<and> re_mask e"
proof -
  have "bit (ucast (re_vector e) :: u32) n \<longleftrightarrow> n < 8 \<and> bit (re_vector e) n"
    using bit_imp_le_length[of "re_vector e" n] by (auto simp: bit_ucast_iff)
  then show ?thesis unfolding lower_dword_def assms by (simp add: bit_or_iff bit_push_of_bool)
qed


text \<open>A controller with 24 pins that logs the writes; the timer line is on pin 2, the system control line is level triggered and active low.\<close>

definition witness_ioapic :: "(u64 \<times> u32) list hw" where
  "witness_ioapic = \<lparr>inb_op = (\<lambda>p d. (0, d)), outb_op = (\<lambda>p v d. d), inl_op = (\<lambda>p d. (0, d)), outl_op = (\<lambda>p v d. d),
     readl_op = (\<lambda>a d. (0x00170020, d)), writel_op = (\<lambda>a v d. d @ [(a, v)])\<rparr>"

definition witness_apic :: "unit apic" where
  "witness_apic = \<lparr>ap_env = (), cores = [], lapic = 0, ioapic_addr = 0x1000, gsi_base = 0,
     irq_overrides = (replicate 16 \<lparr>ov_gsi = 0, ov_flags = 0\<rparr>)[9 := \<lparr>ov_gsi = 9, ov_flags = 0xF\<rparr>], core_index = 0, called = False\<rparr>"


end
