(* ===== verification/Spec2Isabelle.thy ===== *)
theory Spec2Isabelle
  imports Klibc Vmm Process Ext2_Read Ext2_Dir Vfs_Path Ahci_Command Keyboard Apic
begin

text \<open>
  \<^bold>\<open>Verification of SnapOS.\<close>
  SnapOS is a 64-bit kernel for x86-64 in C. After the boot loader, \<^verbatim>\<open>kmain\<close> (\<^verbatim>\<open>kernel/kernel.c\<close>) sets up
  physical memory, the kernel page table, the interrupt controllers, the disk, the file system, the
  keyboard and the terminal, and starts the scheduler with the first user program. The development
  models these parts as functions over explicit states and proves what they promise to each other.

  \<^bold>\<open>Conventions\<close> (theory \<open>Prelude\<close>, \<^verbatim>\<open>include/types.h\<close>, \<^verbatim>\<open>include/paging.h\<close>, \<^verbatim>\<open>include/mm.h\<close>).
  C integers are words of their width and wrap around. A pointer is a 64-bit word, null is 0, and an error
  pointer is the word of a negative number. A routine that can panic, leave an array or loop for
  ever returns the outcome type \<open>exec\<close>: \<open>Ret\<close>, \<open>Panic\<close>, \<open>Oob\<close> or \<open>Diverge\<close>. A loop with a fixed range is a
  fold or a recursion over the list of its indices; a loop with a measure is a \<open>function\<close>; a loop that
  the data or a device may keep running has fuel, and running out of it is \<open>Diverge\<close>.

  \<^bold>\<open>Physical memory.\<close> \<open>Memory_Map\<close> models the firmware memory map (\<^verbatim>\<open>arch/x86_64/kernel/setup.c\<close>) and
  its clean-up in \<^verbatim>\<open>mm/early_pmm.c\<close>: the result is the exact map of usable bytes, sorted and disjoint.
  \<open>Early_pmm\<close> is the boot allocator, \<open>Pmm\<close> the bitmap allocator of \<^verbatim>\<open>mm/pmm.c\<close>: it takes over what is
  left, hands out the lowest free frame or run of frames, and gets it back. \<open>Frame_Source\<close> is the locale
  of a frame allocator; both allocators interpret it, and the page tables are proved against it.

  \<^bold>\<open>Address space.\<close> \<open>Memory\<close> and \<open>Klibc\<close> hold byte memory and \<^verbatim>\<open>klibc/string.c\<close>. \<open>Paging\<close>, \<open>Page_Tree\<close> and
  \<open>Page_Map\<close> model the four-level tables of \<^verbatim>\<open>arch/x86_64/kernel/paging.c\<close> in that memory, and the
  translation of an address by the processor. \<open>Vmm\<close> is \<^verbatim>\<open>mm/vmm.c\<close>: mapping a range changes the translation
  of exactly its addresses, the kernel's address space after boot is the direct map and the kernel
  image, \<^verbatim>\<open>ioremap\<close> and \<^verbatim>\<open>vmm_alloc_range\<close> give what they return.

  \<^bold>\<open>Kernel heap.\<close> \<open>Kmalloc\<close> models \<^verbatim>\<open>mm/kmalloc.c\<close> at the level of bytes: the free lists and page headers live
  in the memory that is handed out. \<open>Kheap\<close> shows that objects are disjoint and stay so. \<open>Blockdev\<close> names
  the services a driver uses as the record \<open>kops\<close> with their laws as the locale \<open>heap_env\<close>; \<open>Kenv\<close>
  interprets it with the heap and the page allocator of the model.

  \<^bold>\<open>Tasks and interrupts.\<close> \<open>Klist\<close> is \<^verbatim>\<open>include/list.h\<close> over a store of links and a refinement to lists. \<open>Sched\<close> is
  \<^verbatim>\<open>kernel/sched.c\<close> with the switch of \<^verbatim>\<open>switch.asm\<close>: an inductive step relation over timer interrupts,
  sleeps, yields, creations and wake-ups, its invariant and round-robin order. \<open>Wait\<close> is
  \<^verbatim>\<open>kernel/wait.c\<close>; \<open>Process\<close> builds the first stack frames of a task (\<^verbatim>\<open>kernel/task.c\<close>,
  \<^verbatim>\<open>arch/x86_64/kernel/process.c\<close>). \<open>Cpu_Tables\<close> holds the descriptor tables, the exceptions and the
  registration of interrupt handlers. \<open>Acpi\<close> and \<open>Madt\<close> find the firmware tables and read the processors and
  interrupt controllers out of them; \<open>Apic\<close> programs the controllers and routes the interrupt lines.

  \<^bold>\<open>Devices.\<close> \<open>Device_Io\<close> is the hardware as drivers see it: port instructions and registers over a device
  state of any type. \<open>Pci\<close> searches the configuration space. \<open>Ahci\<close> is the disk driver and \<open>Ahci_Command\<close> shows
  that the structures the controller fetches ask for exactly what the caller wants. \<open>Vga\<close> is the
  screen, \<open>Keyboard\<close> the PS/2 controller and \<^verbatim>\<open>kernel/input.c\<close>, \<open>Tty\<close> the terminal: its ring
  buffer refines a queue of lines.

  \<^bold>\<open>Files.\<close> \<open>Blockdev\<close> also holds the registry of block devices and the MBR partitions. \<open>Dcache\<close> has the
  objects of \<^verbatim>\<open>include/vfs.h\<close> and \<^verbatim>\<open>include/fs/ext2.h\<close> in stores by address, \<open>Ext2\<close> the driver of
  \<^verbatim>\<open>fs/ext2\<close>, \<open>Vfs\<close> the layer of \<^verbatim>\<open>fs/vfs.c\<close> with the system calls that read and write. \<open>Ext2_Read\<close> shows that
  reading a file returns its bytes, \<open>Ext2_Dir\<close> that searching a directory block is a lookup in the list of
  its entries, \<open>Fs_Resources\<close> that no error path leaks an allocation of the kernel heap, and \<open>Vfs_Path\<close>
  that a resolved path is found again in the cache.

  \<^bold>\<open>Fuel and bounds.\<close> \<open>vmm_alloc_range\<close> gives its loop one round per page and one more. \<open>rsdp_loop\<close> has 8193
  rounds, one more than the BIOS area has 16-byte steps, and is proved to end. \<open>env_kfree\<close> walks the list of big
  allocations with \<open>2 ^ 34\<close> rounds, more than there are frames. \<open>madt_parse_recoreds\<close> ends with more rounds than
  records. The loops that wait for a device (\<open>poll\<close>, \<open>wait_command\<close>) and the walk over the children of a
  directory entry take their fuel as an argument; the statements about them hold for every
  amount with which they return.

  \<^bold>\<open>Parameters.\<close> What the hardware does (the device state and \<open>hw\<close>, what a disk transfer delivers, what DMA
  leaves in memory, the firmware's memory), what other tasks do while one sleeps, which parts of a user
  buffer are accessible, the values of uninitialised variables, and the addresses of linker symbols and functions.
  \<open>ahci_init\<close>, \<open>get_rsdp\<close>, \<open>sdt_find\<close> and the MADT take \<^verbatim>\<open>ioremap\<close> as an operation of their abstract
  environment; \<open>Kspace\<close> provides it from \<open>Vmm\<close>, on the same frame allocator as the heap.

  \<^bold>\<open>Not modelled.\<close> The boot sector and the second boot stage (\<^verbatim>\<open>boot.asm\<close>, \<^verbatim>\<open>stage2.asm\<close>, \<^verbatim>\<open>loadkernel.c\<close>), which run in
  16-bit real mode before the kernel; the assembly of the entry, interrupt and system call paths
  (\<^verbatim>\<open>start.asm\<close>, \<^verbatim>\<open>isr.asm\<close>, \<^verbatim>\<open>syscall.asm\<close>, \<^verbatim>\<open>uaccess.asm\<close>, \<^verbatim>\<open>special_insns.asm\<close>) apart from the task switch;
  the address spaces of user programs and the ELF loader (\<^verbatim>\<open>mm/mm.c\<close>,
  \<^verbatim>\<open>fs/elf.c\<close>, \<^verbatim>\<open>kernel/init_task.c\<close>), whose effects are on user memory that the model does not have; \<^verbatim>\<open>kmain\<close>
  itself; the spin locks, which are uncontended on the single processor the kernel uses; and
  the user program and its copy of the string functions under \<^verbatim>\<open>usr\<close>.
\<close>

end
